(* ===== verification/Prelude.thy ===== *)
theory Prelude
  imports Main "HOL-Library.AList" "HOL-Library.List_Lexorder" "HOL-Library.Char_ord"
    "HOL-Library.Sublist" "HOL-Library.Word" "HOL-Library.Multiset"
begin

text \<open>
  Shared vocabulary of the development: fallible computations (Rust's \<open>Result\<close> with the
  \<open>?\<close> operator, pure and on a state), the two standard collections the code uses
  (\<open>BTreeSet\<close> as a strictly sorted list, \<open>HashMap\<close> as an association list with
  distinct keys, whose iteration order is left open), little- and big-endian byte encodings of
  machine integers, and the lemma collections that the component theories feed.
\<close>

named_theorems result_simps \<open>unfolding the error-propagation combinators\<close>
named_theorems btree_simps \<open>what the ordered-set operations do to the underlying set\<close>
named_theorems hash_simps \<open>what the hash-map operations do to lookups\<close>

type_synonym byte = "8 word"
type_synonym bytes = "byte list"

section \<open>Fallible computations\<close>

text \<open>\<open>try_bind r f\<close> is \<open>let x = r?; f(x)\<close>; \<open>try_state\<close> is the same on
  a computation that also updates a state, which keeps the updates made before an error.\<close>

definition try_bind :: "'e + 'a \<Rightarrow> ('a \<Rightarrow> 'e + 'b) \<Rightarrow> 'e + 'b" where
  "try_bind r f = (case r of Inl e \<Rightarrow> Inl e | Inr x \<Rightarrow> f x)"

definition try_state ::
  "('s \<Rightarrow> ('e + 'a) \<times> 's) \<Rightarrow> ('a \<Rightarrow> 's \<Rightarrow> ('e + 'b) \<times> 's) \<Rightarrow> 's \<Rightarrow> ('e + 'b) \<times> 's" where
  "try_state m f s = (case m s of (Inl e, s') \<Rightarrow> (Inl e, s') | (Inr x, s') \<Rightarrow> f x s')"

definition ok_or :: "'e \<Rightarrow> 'a option \<Rightarrow> 'e + 'a" where
  "ok_or e r = (case r of None \<Rightarrow> Inl e | Some x \<Rightarrow> Inr x)"

definition map_err :: "('e \<Rightarrow> 'f) \<Rightarrow> 'e + 'a \<Rightarrow> 'f + 'a" where
  "map_err f r = (case r of Inl e \<Rightarrow> Inl (f e) | Inr x \<Rightarrow> Inr x)"

lemma try_bind_simps [simp, result_simps]:
  "try_bind (Inl e) f = Inl e" "try_bind (Inr x) f = f x"
  by (simp_all add: try_bind_def)

lemma ok_or_simps [simp, result_simps]: "ok_or e None = Inl e" "ok_or e (Some x) = Inr x"
  by (simp_all add: ok_or_def)

lemma map_err_simps [simp, result_simps]: "map_err f (Inl e) = Inl (f e)" "map_err f (Inr x) = Inr x"
  by (simp_all add: map_err_def)

lemma try_bind_Inr_iff [result_simps]:
  "try_bind r f = Inr y \<longleftrightarrow> (\<exists>x. r = Inr x \<and> f x = Inr y)"
  by (cases r) auto

lemma try_bind_Inl_iff:
  "try_bind r f = Inl e \<longleftrightarrow> r = Inl e \<or> (\<exists>x. r = Inr x \<and> f x = Inl e)"
  by (cases r) auto

lemma ok_or_Inr_iff [result_simps]: "ok_or e r = Inr x \<longleftrightarrow> r = Some x"
  by (cases r) auto

lemma try_state_Inr_iff [result_simps]:
  "try_state m f s = (Inr y, t) \<longleftrightarrow> (\<exists>x s'. m s = (Inr x, s') \<and> f x s' = (Inr y, t))"
  by (auto simp: try_state_def split: prod.splits sum.splits)

text \<open>A loop \<open>for x in xs { acc = step(acc, x)?; }\<close>, left at the first error.\<close>

fun try_fold :: "('a \<Rightarrow> 'b \<Rightarrow> 'e + 'b) \<Rightarrow> 'a list \<Rightarrow> 'b \<Rightarrow> 'e + 'b" where
  "try_fold f [] acc = Inr acc"
| "try_fold f (x # xs) acc = (case f x acc of Inl e \<Rightarrow> Inl e | Inr acc' \<Rightarrow> try_fold f xs acc')"

lemma try_fold_invariant:
  assumes "try_fold f xs acc = Inr r" and "P acc"
    and "\<And>x a b. x \<in> set xs \<Longrightarrow> P a \<Longrightarrow> f x a = Inr b \<Longrightarrow> P b"
  shows "P r"
  using assms
proof (induction xs arbitrary: acc)
  case (Cons x xs)
  then obtain b where b: "f x acc = Inr b" and r: "try_fold f xs b = Inr r"
    by (auto split: sum.splits)
  from Cons.prems(2,3) b have "P b" by auto
  with r Cons.prems(3) show ?case by (intro Cons.IH) auto
qed simp

section \<open>Ordered sets\<close>

text \<open>
  \<open>BTreeSet<T>\<close> iterates in increasing order without repetition: it is the strictly sorted
  list of its elements. \<open>insert\<close> keeps the first of two equal elements, \<open>collect\<close> inserts
  one by one.
\<close>

type_synonym 'a btree_set = "'a list"

definition btree_ok :: "'a::linorder btree_set \<Rightarrow> bool" where
  "btree_ok xs \<longleftrightarrow> sorted_wrt (<) xs"

fun btree_insert :: "'a::linorder \<Rightarrow> 'a btree_set \<Rightarrow> 'a btree_set" where
  "btree_insert x [] = [x]"
| "btree_insert x (y # ys) =
     (if x < y then x # y # ys else if x = y then y # ys else y # btree_insert x ys)"

definition btree_collect :: "'a::linorder list \<Rightarrow> 'a btree_set" where
  "btree_collect xs = fold btree_insert xs []"

definition btree_is_subset :: "'a btree_set \<Rightarrow> 'a btree_set \<Rightarrow> bool" where
  "btree_is_subset xs ys = list_all (List.member ys) xs"

definition btree_is_disjoint :: "'a btree_set \<Rightarrow> 'a btree_set \<Rightarrow> bool" where
  "btree_is_disjoint xs ys = (\<not> list_ex (List.member ys) xs)"

definition btree_intersection :: "'a btree_set \<Rightarrow> 'a btree_set \<Rightarrow> 'a btree_set" where
  "btree_intersection xs ys = filter (List.member ys) xs"

lemma btree_ok_Nil [simp, intro]: "btree_ok []"
  by (simp add: btree_ok_def)

lemma set_btree_insert [simp, btree_simps]: "set (btree_insert x xs) = insert x (set xs)"
  by (induction xs) auto

lemma btree_ok_insert [simp, intro]: "btree_ok xs \<Longrightarrow> btree_ok (btree_insert x xs)"
  by (induction xs) (auto simp: btree_ok_def)

lemma set_fold_btree_insert: "set (fold btree_insert xs acc) = set xs \<union> set acc"
  by (induction xs arbitrary: acc) auto

lemma btree_ok_fold_insert: "btree_ok acc \<Longrightarrow> btree_ok (fold btree_insert xs acc)"
  by (induction xs arbitrary: acc) auto

lemma set_btree_collect [simp, btree_simps]: "set (btree_collect xs) = set xs"
  by (simp add: btree_collect_def set_fold_btree_insert)

lemma btree_ok_collect [simp, intro]: "btree_ok (btree_collect xs)"
  by (simp add: btree_collect_def btree_ok_fold_insert)

lemma btree_ok_distinct: "btree_ok xs \<Longrightarrow> distinct xs"
  by (simp add: btree_ok_def strict_sorted_iff)

text \<open>The list is determined by the set: two ordered sets with the same elements are equal.\<close>

lemma btree_set_eqI: "btree_ok xs \<Longrightarrow> btree_ok ys \<Longrightarrow> set xs = set ys \<Longrightarrow> xs = ys"
  by (simp add: btree_ok_def strict_sorted_equal)

lemma btree_collect_eq_iff: "btree_collect xs = btree_collect ys \<longleftrightarrow> set xs = set ys"
  by (metis btree_ok_collect btree_set_eqI set_btree_collect)

lemma btree_collect_id: "btree_ok xs \<Longrightarrow> btree_collect xs = xs"
  by (rule btree_set_eqI) auto

lemma btree_is_subset_iff [simp, btree_simps]: "btree_is_subset xs ys \<longleftrightarrow> set xs \<subseteq> set ys"
  by (auto simp: btree_is_subset_def list_all_iff)

lemma btree_is_disjoint_iff [simp, btree_simps]:
  "btree_is_disjoint xs ys \<longleftrightarrow> set xs \<inter> set ys = {}"
  by (auto simp: btree_is_disjoint_def list_ex_iff)

lemma set_btree_intersection [simp, btree_simps]:
  "set (btree_intersection xs ys) = set xs \<inter> set ys"
  by (auto simp: btree_intersection_def)

lemma length_btree_intersection:
  "btree_ok xs \<Longrightarrow> length (btree_intersection xs ys) = card (set xs \<inter> set ys)"
  by (metis btree_intersection_def btree_ok_distinct distinct_card distinct_filter
      set_btree_intersection)

section \<open>Hash maps\<close>

text \<open>
  A \<open>HashMap\<close> the code iterates over is an association list with distinct keys. The order
  in which a hash map is iterated is unspecified: operations that iterate take a rank
  \<open>order\<close> of the keys and visit the entries by increasing rank. Every order of finitely many
  distinct keys is the order of some rank, so a theorem for all ranks is a theorem for every
  iteration order. A map that is only looked up is a HOL map.
\<close>

type_synonym ('k, 'v) hash_map = "('k \<times> 'v) list"

definition hm_ok :: "('k, 'v) hash_map \<Rightarrow> bool" where
  "hm_ok m \<longleftrightarrow> distinct (map fst m)"

definition hm_get :: "('k, 'v) hash_map \<Rightarrow> 'k \<Rightarrow> 'v option" where
  "hm_get m k = map_of m k"

definition hm_insert :: "'k \<Rightarrow> 'v \<Rightarrow> ('k, 'v) hash_map \<Rightarrow> ('k, 'v) hash_map" where
  "hm_insert k v m = AList.update k v m"

definition hm_remove :: "'k \<Rightarrow> ('k, 'v) hash_map \<Rightarrow> ('k, 'v) hash_map" where
  "hm_remove k m = AList.delete k m"

definition hm_iter :: "('k \<Rightarrow> nat) \<Rightarrow> ('k, 'v) hash_map \<Rightarrow> ('k \<times> 'v) list" where
  "hm_iter order m = sort_key (\<lambda>(k, v). order k) m"

definition hm_values :: "('k \<Rightarrow> nat) \<Rightarrow> ('k, 'v) hash_map \<Rightarrow> 'v list" where
  "hm_values order m = map snd (hm_iter order m)"

text \<open>Iteration over a \<open>HashSet\<close>, held as a list without repetition.\<close>

definition hs_iter :: "('a \<Rightarrow> nat) \<Rightarrow> 'a list \<Rightarrow> 'a list" where
  "hs_iter order xs = sort_key order xs"

lemma hm_ok_Nil [simp, intro]: "hm_ok []"
  by (simp add: hm_ok_def)

lemma hm_get_Nil [simp]: "hm_get [] k = None"
  by (simp add: hm_get_def)

lemma hm_get_insert [simp, hash_simps]:
  "hm_get (hm_insert k v m) k' = (if k' = k then Some v else hm_get m k')"
  by (simp add: hm_get_def hm_insert_def update_conv')

lemma hm_get_remove [simp, hash_simps]:
  "hm_get (hm_remove k m) k' = (if k' = k then None else hm_get m k')"
  by (simp add: hm_get_def hm_remove_def delete_conv')

lemma hm_ok_insert [simp, intro]: "hm_ok m \<Longrightarrow> hm_ok (hm_insert k v m)"
  by (simp add: hm_ok_def hm_insert_def distinct_update)

lemma hm_ok_remove [simp, intro]: "hm_ok m \<Longrightarrow> hm_ok (hm_remove k m)"
  by (simp add: hm_ok_def hm_remove_def distinct_delete)

lemma hm_in_set_iff: "hm_ok m \<Longrightarrow> (k, v) \<in> set m \<longleftrightarrow> hm_get m k = Some v"
  by (simp add: hm_ok_def hm_get_def)

lemma set_hm_iter [simp]: "set (hm_iter order m) = set m"
  by (simp add: hm_iter_def)

lemma length_hm_iter [simp]: "length (hm_iter order m) = length m"
  by (simp add: hm_iter_def)

lemma distinct_hm_iter: "hm_ok m \<Longrightarrow> distinct (map fst (hm_iter order m))"
  unfolding hm_ok_def hm_iter_def
  by (metis mset_eq_imp_distinct_iff mset_map mset_sort)

lemma set_hs_iter [simp]: "set (hs_iter order xs) = set xs"
  by (simp add: hs_iter_def)

text \<open>Any enumeration of the entries is the iteration order of some rank.\<close>

lemma hm_iter_any_order:
  assumes "hm_ok m" and "mset xs = mset m"
  shows "\<exists>order. hm_iter order m = xs"
proof -
  let ?ks = "map fst xs"
  have dist: "distinct ?ks"
    using assms by (metis hm_ok_def mset_eq_imp_distinct_iff mset_map)
  define order where "order k = the_elem {i. i < length ?ks \<and> ?ks ! i = k}" for k
  have ord: "order (fst (xs ! i)) = i" if "i < length xs" for i
  proof -
    have "{j. j < length ?ks \<and> ?ks ! j = fst (xs ! i)} = {i}"
      using that dist nth_eq_iff_index_eq[of ?ks] by auto
    then show ?thesis by (simp add: order_def)
  qed
  have "sorted (map (\<lambda>(k, v). order k) xs)"
    by (auto simp: sorted_iff_nth_mono ord case_prod_beta)
  moreover have "inj_on (\<lambda>(k, v). order k) (set m)"
  proof (rule inj_onI)
    fix p q
    assume "p \<in> set m" "q \<in> set m" and eq: "(case p of (k, v) \<Rightarrow> order k) = (case q of (k, v) \<Rightarrow> order k)"
    then have "p \<in> set xs" "q \<in> set xs" using assms(2) by (metis set_mset_mset)+
    then obtain i j where "i < length xs" "p = xs ! i" "j < length xs" "q = xs ! j"
      by (auto simp: in_set_conv_nth)
    with eq ord show "p = q" by (simp add: case_prod_beta)
  qed
  ultimately have "sort_key (\<lambda>(k, v). order k) m = xs"
    using assms(2) by (intro sort_key_inj_key_eq) simp_all
  then show ?thesis unfolding hm_iter_def by blast
qed

section \<open>Bytes of machine integers\<close>

text \<open>\<open>to_le_bytes n k\<close>: the \<open>n\<close> low bytes of \<open>k\<close>, least significant first, as
  Rust's \<open>to_le_bytes\<close> on a value that fits; \<open>to_be_bytes\<close> is the reverse.\<close>

fun to_le_bytes :: "nat \<Rightarrow> nat \<Rightarrow> bytes" where
  "to_le_bytes 0 k = []"
| "to_le_bytes (Suc n) k = word_of_nat (k mod 256) # to_le_bytes n (k div 256)"

fun from_le_bytes :: "bytes \<Rightarrow> nat" where
  "from_le_bytes [] = 0"
| "from_le_bytes (b # bs) = unat b + 256 * from_le_bytes bs"

definition to_be_bytes :: "nat \<Rightarrow> nat \<Rightarrow> bytes" where
  "to_be_bytes n k = rev (to_le_bytes n k)"

definition from_be_bytes :: "bytes \<Rightarrow> nat" where
  "from_be_bytes bs = from_le_bytes (rev bs)"

lemma length_to_le_bytes [simp]: "length (to_le_bytes n k) = n"
  by (induction n arbitrary: k) auto

lemma length_to_be_bytes [simp]: "length (to_be_bytes n k) = n"
  by (simp add: to_be_bytes_def)

lemma from_to_le_bytes: "k < 256 ^ n \<Longrightarrow> from_le_bytes (to_le_bytes n k) = k"
proof (induction n arbitrary: k)
  case (Suc n)
  then have "k div 256 < 256 ^ n" by (simp add: div_less_iff_less_mult mult.commute)
  with Suc.IH show ?case by (simp add: unat_of_nat)
qed simp

lemma from_to_be_bytes: "k < 256 ^ n \<Longrightarrow> from_be_bytes (to_be_bytes n k) = k"
  by (simp add: to_be_bytes_def from_be_bytes_def from_to_le_bytes)

lemma from_le_bytes_bound: "from_le_bytes bs < 256 ^ length bs"
proof (induction bs)
  case (Cons b bs)
  have "unat b < 2 ^ LENGTH(8)" by (rule unsigned_less)
  then have "unat b < 256" by simp
  with Cons show ?case by simp
qed simp

lemma from_be_bytes_bound: "from_be_bytes bs < 256 ^ length bs"
  using from_le_bytes_bound[of "rev bs"] by (simp add: from_be_bytes_def)

end
