(* ===== verification/Rust_Str.thy ===== *)
theory Rust_Str
  imports Prelude
begin

text \<open>
  What the code uses of Rust's strings. A Rust string is its UTF-8 bytes, so it is an Isabelle
  \<open>string\<close> (a list of 8-bit characters) and \<open>len\<close> is \<open>length\<close>. Trimming and
  splitting look for the encodings of the code points with the Unicode property White_Space;
  on well-formed UTF-8 such an encoding can only be matched at a character boundary, so
  matching bytes is exact. Unicode lower-casing is a table of the Unicode standard: the
  operations that need it take it as an argument \<open>lower\<close>.
\<close>

named_theorems str_simps \<open>facts about trimming, splitting and printing\<close>

section \<open>White space\<close>

text \<open>\<open>char::is_whitespace\<close>: U+0009 to U+000D, U+0020, U+0085, U+00A0, U+1680, U+2000 to U+200A,
  U+2028, U+2029, U+202F, U+205F and U+3000, each in UTF-8.\<close>

definition white_space :: "string list" where
  "white_space =
    [[CHR 0x09], [CHR 0x0A], [CHR 0x0B], [CHR 0x0C], [CHR 0x0D], [CHR 0x20],
     [CHR 0xC2, CHR 0x85], [CHR 0xC2, CHR 0xA0], [CHR 0xE1, CHR 0x9A, CHR 0x80],
     [CHR 0xE2, CHR 0x80, CHR 0x80], [CHR 0xE2, CHR 0x80, CHR 0x81],
     [CHR 0xE2, CHR 0x80, CHR 0x82], [CHR 0xE2, CHR 0x80, CHR 0x83],
     [CHR 0xE2, CHR 0x80, CHR 0x84], [CHR 0xE2, CHR 0x80, CHR 0x85],
     [CHR 0xE2, CHR 0x80, CHR 0x86], [CHR 0xE2, CHR 0x80, CHR 0x87],
     [CHR 0xE2, CHR 0x80, CHR 0x88], [CHR 0xE2, CHR 0x80, CHR 0x89],
     [CHR 0xE2, CHR 0x80, CHR 0x8A], [CHR 0xE2, CHR 0x80, CHR 0xA8],
     [CHR 0xE2, CHR 0x80, CHR 0xA9], [CHR 0xE2, CHR 0x80, CHR 0xAF],
     [CHR 0xE2, CHR 0x81, CHR 0x9F], [CHR 0xE3, CHR 0x80, CHR 0x80]]"

fun is_prefix :: "string \<Rightarrow> string \<Rightarrow> bool" where
  "is_prefix [] s = True"
| "is_prefix (c # cs) [] = False"
| "is_prefix (c # cs) (d # ds) = (c = d \<and> is_prefix cs ds)"

definition ws_prefix :: "string \<Rightarrow> string option" where
  "ws_prefix s = find (\<lambda>w. is_prefix w s) white_space"

definition ws_suffix :: "string \<Rightarrow> string option" where
  "ws_suffix s = find (\<lambda>w. is_prefix (rev w) (rev s)) white_space"

lemma is_prefix_iff: "is_prefix w s \<longleftrightarrow> (\<exists>t. s = w @ t)"
  by (induction w s rule: is_prefix.induct) auto

lemma white_space_nonempty: "w \<in> set white_space \<Longrightarrow> w \<noteq> []"
  by (auto simp: white_space_def)

lemma ws_prefix_Some: "ws_prefix s = Some w \<Longrightarrow> w \<noteq> [] \<and> w \<in> set white_space \<and> (\<exists>t. s = w @ t)"
  unfolding ws_prefix_def
  by (auto simp: find_Some_iff is_prefix_iff dest: white_space_nonempty nth_mem)

lemma ws_suffix_Some: "ws_suffix s = Some w \<Longrightarrow> w \<noteq> [] \<and> w \<in> set white_space \<and> (\<exists>t. s = t @ w)"
  unfolding ws_suffix_def
  by (auto simp: find_Some_iff is_prefix_iff rev_eq_append_conv
      dest: white_space_nonempty nth_mem)

lemma ws_prefix_None_iff: "ws_prefix s = None \<longleftrightarrow> (\<forall>w \<in> set white_space. \<nexists>t. s = w @ t)"
  by (auto simp: ws_prefix_def find_None_iff is_prefix_iff)

lemma ws_suffix_None_iff: "ws_suffix s = None \<longleftrightarrow> (\<forall>w \<in> set white_space. \<nexists>t. s = t @ w)"
proof -
  have "(\<exists>t. rev s = rev w @ t) \<longleftrightarrow> (\<exists>t. s = t @ w)" for w
    by (metis rev_append rev_rev_ident)
  then show ?thesis by (auto simp: ws_suffix_def find_None_iff is_prefix_iff)
qed

lemma ws_prefix_Some_length: "ws_prefix s = Some w \<Longrightarrow> length (drop (length w) s) < length s"
  using ws_prefix_Some by fastforce

lemma ws_suffix_Some_length: "ws_suffix s = Some w \<Longrightarrow> length s - length w < length s"
  using ws_suffix_Some by fastforce

section \<open>trim\<close>

function trim_start :: "string \<Rightarrow> string" where
  "trim_start s = (case ws_prefix s of None \<Rightarrow> s | Some w \<Rightarrow> trim_start (drop (length w) s))"
  by pat_completeness auto
termination
  by (relation "measure length") (auto dest: ws_prefix_Some_length simp del: length_drop)

function trim_end :: "string \<Rightarrow> string" where
  "trim_end s =
     (case ws_suffix s of None \<Rightarrow> s | Some w \<Rightarrow> trim_end (take (length s - length w) s))"
  by pat_completeness auto
termination
  by (relation "measure length") (auto dest: ws_suffix_Some_length)

definition trim :: "string \<Rightarrow> string" where
  "trim s = trim_end (trim_start s)"

declare trim_start.simps [simp del] trim_end.simps [simp del]

lemma ws_prefix_trim_start: "ws_prefix (trim_start s) = None"
proof (induction s rule: trim_start.induct)
  case (1 s)
  then show ?case by (cases "ws_prefix s") (simp_all add: trim_start.simps[of s])
qed

lemma ws_suffix_trim_end: "ws_suffix (trim_end s) = None"
proof (induction s rule: trim_end.induct)
  case (1 s)
  then show ?case by (cases "ws_suffix s") (simp_all add: trim_end.simps[of s])
qed

lemma trim_end_prefix: "\<exists>t. s = trim_end s @ t"
proof (induction s rule: trim_end.induct)
  case (1 s)
  show ?case
  proof (cases "ws_suffix s")
    case (Some w)
    let ?s = "take (length s - length w) s"
    from 1 [OF Some] obtain t where "?s = trim_end ?s @ t" by blast
    then have "s = trim_end ?s @ (t @ drop (length s - length w) s)"
      by (metis append.assoc append_take_drop_id)
    then have "\<exists>t'. s = trim_end ?s @ t'" by blast
    moreover have "trim_end s = trim_end ?s" using Some by (simp add: trim_end.simps[of s])
    ultimately show ?thesis by metis
  qed (simp add: trim_end.simps[of s])
qed

lemma trim_start_fixed: "ws_prefix s = None \<Longrightarrow> trim_start s = s"
  by (simp add: trim_start.simps)

lemma trim_end_fixed: "ws_suffix s = None \<Longrightarrow> trim_end s = s"
  by (simp add: trim_end.simps)

lemma ws_prefix_append_None: "ws_prefix (s @ t) = None \<Longrightarrow> ws_prefix s = None"
  unfolding ws_prefix_None_iff by (metis append.assoc)

lemma trim_no_ws: "ws_prefix (trim s) = None" "ws_suffix (trim s) = None"
proof -
  obtain t where "trim_start s = trim_end (trim_start s) @ t" using trim_end_prefix by blast
  then show "ws_prefix (trim s) = None"
    by (metis trim_def ws_prefix_append_None ws_prefix_trim_start)
  show "ws_suffix (trim s) = None" by (simp add: trim_def ws_suffix_trim_end)
qed

lemma trim_idem [simp, str_simps]: "trim (trim s) = trim s"
  using trim_no_ws[of s] by (simp add: trim_def trim_start_fixed trim_end_fixed)

lemma trim_fixed_iff: "trim s = s \<longleftrightarrow> ws_prefix s = None \<and> ws_suffix s = None"
  by (metis trim_def trim_end_fixed trim_no_ws trim_start_fixed)

section \<open>split\_whitespace and join\<close>

text \<open>\<open>split_ws cur s\<close> reads \<open>s\<close> with the current token \<open>cur\<close> held in reverse.\<close>

function split_ws :: "string \<Rightarrow> string \<Rightarrow> string list" where
  "split_ws cur s =
     (case ws_prefix s of
        Some w \<Rightarrow> (if cur = [] then [] else [rev cur]) @ split_ws [] (drop (length w) s)
      | None \<Rightarrow>
          (case s of
             [] \<Rightarrow> (if cur = [] then [] else [rev cur])
           | c # cs \<Rightarrow> split_ws (c # cur) cs))"
  by pat_completeness auto
termination
  by (relation "measure (\<lambda>(cur, s). length s)")
    (auto dest: ws_prefix_Some_length simp del: length_drop)

definition split_whitespace :: "string \<Rightarrow> string list" where
  "split_whitespace s = split_ws [] s"

declare split_ws.simps [simp del]

lemma split_ws_nonempty: "t \<in> set (split_ws cur s) \<Longrightarrow> t \<noteq> []"
proof (induction cur s rule: split_ws.induct)
  case (1 cur s)
  then show ?case
    by (auto simp: split_ws.simps[of cur s] split: option.splits list.splits if_splits)
qed

lemma split_whitespace_nonempty: "t \<in> set (split_whitespace s) \<Longrightarrow> t \<noteq> []"
  by (simp add: split_whitespace_def split_ws_nonempty)

lemma split_ws_cur_nonempty: "cur \<noteq> [] \<Longrightarrow> split_ws cur s \<noteq> []"
proof (induction cur s rule: split_ws.induct)
  case (1 cur s)
  then show ?case
    by (auto simp: split_ws.simps[of cur s] split: option.splits list.splits)
qed

text \<open>A string with something other than white space in it has at least one token.\<close>

lemma split_whitespace_trim_start: "trim_start s \<noteq> [] \<Longrightarrow> split_whitespace s \<noteq> []"
proof (induction s rule: trim_start.induct)
  case (1 s)
  show ?case
  proof (cases "ws_prefix s")
    case None
    with 1 obtain c cs where s: "s = c # cs"
      by (cases s) (auto simp: trim_start_fixed)
    then have "split_ws [] s = split_ws [c] cs"
      using None by (subst split_ws.simps) simp
    then show ?thesis using split_ws_cur_nonempty[of "[c]" cs]
      by (simp add: split_whitespace_def)
  next
    case (Some w)
    then have "trim_start s = trim_start (drop (length w) s)" by (simp add: trim_start.simps[of s])
    with 1 Some have "split_whitespace (drop (length w) s) \<noteq> []" by simp
    moreover have "split_ws [] s = split_ws [] (drop (length w) s)"
      using Some by (subst split_ws.simps) simp
    ultimately show ?thesis by (simp add: split_whitespace_def)
  qed
qed

lemma split_whitespace_of_trim: "trim s \<noteq> [] \<Longrightarrow> split_whitespace s \<noteq> []"
  by (metis append_is_Nil_conv split_whitespace_trim_start trim_def trim_end_prefix)

fun join_with :: "string \<Rightarrow> string list \<Rightarrow> string" where
  "join_with sep [] = []"
| "join_with sep [x] = x"
| "join_with sep (x # y # ys) = x @ sep @ join_with sep (y # ys)"

lemma join_with_nonempty: "xs \<noteq> [] \<Longrightarrow> \<forall>x \<in> set xs. x \<noteq> [] \<Longrightarrow> join_with sep xs \<noteq> []"
  by (induction sep xs rule: join_with.induct) auto

section \<open>Bytes and ASCII\<close>

definition as_bytes :: "string \<Rightarrow> bytes" where
  "as_bytes s = map (\<lambda>c. word_of_nat (of_char c)) s"

lemma length_as_bytes [simp]: "length (as_bytes s) = length s"
  by (simp add: as_bytes_def)

lemma byte_of_char_inj: "inj (\<lambda>c. word_of_nat (of_char c) :: byte)"
proof (rule injI)
  fix c d :: char
  assume eq: "word_of_nat (of_char c) = (word_of_nat (of_char d) :: byte)"
  have "unat (word_of_nat (of_char e) :: byte) = of_char e" for e :: char
    using nat_of_char_less_256[of e] by (simp add: unat_of_nat)
  with eq have "(of_char c :: nat) = of_char d" by metis
  then show "c = d" by simp
qed

lemma as_bytes_inj [simp]: "as_bytes s = as_bytes t \<longleftrightarrow> s = t"
  by (simp add: as_bytes_def inj_map_eq_map [OF byte_of_char_inj])

definition ascii_lower_char :: "char \<Rightarrow> char" where
  "ascii_lower_char c =
     (let n = of_char c :: nat in if 65 \<le> n \<and> n \<le> 90 then char_of (n + 32) else c)"

definition ascii_lower :: "string \<Rightarrow> string" where
  "ascii_lower s = map ascii_lower_char s"

definition eq_ignore_ascii_case :: "string \<Rightarrow> string \<Rightarrow> bool" where
  "eq_ignore_ascii_case s t \<longleftrightarrow> ascii_lower s = ascii_lower t"

fun str_contains :: "string \<Rightarrow> string \<Rightarrow> bool" where
  "str_contains [] p = is_prefix p []"
| "str_contains (c # cs) p = (is_prefix p (c # cs) \<or> str_contains cs p)"

section \<open>Tokens\<close>

text \<open>A token holds no white space.\<close>

definition token :: "string \<Rightarrow> bool" where
  "token t \<longleftrightarrow> t \<noteq> [] \<and> (\<forall>u v. t = u @ v \<longrightarrow> v \<noteq> [] \<longrightarrow> ws_prefix v = None)"

lemma split_ws_tokens:
  assumes "\<And>u v. rev cur = u @ v \<Longrightarrow> v \<noteq> [] \<Longrightarrow> ws_prefix (v @ s) = None" "t \<in> set (split_ws cur s)"
  shows "token t"
  using assms
proof (induction cur s rule: split_ws.induct)
  case (1 cur s)
  have whole: "token (rev cur)" if "cur \<noteq> []"
    unfolding token_def
  proof (intro conjI allI impI)
    fix u v
    assume "rev cur = u @ v" "v \<noteq> []"
    from "1.prems"(1)[OF this] show "ws_prefix v = None" by (rule ws_prefix_append_None)
  qed (use that in simp)
  show ?case
  proof (cases "ws_prefix s")
    case (Some w)
    then show ?thesis using "1.prems"(2) "1.IH"(2)[OF Some] whole by (auto simp: split_ws.simps[of cur s] split: if_splits)
  next
    case None
    show ?thesis
    proof (cases s)
      case Nil
      then show ?thesis using "1.prems"(2) None whole by (auto simp: split_ws.simps[of cur "[]"] split: if_splits)
    next
      case (Cons c cs)
      have "ws_prefix (v @ cs) = None" if "rev (c # cur) = u @ v" "v \<noteq> []" for u v
      proof (cases v rule: rev_cases)
        case (snoc v' d)
        then have d: "d = c" "rev cur = u @ v'" using that by auto
        show ?thesis
        proof (cases "v' = []")
          case True
          then show ?thesis using None Cons snoc d by simp
        next
          case False
          then show ?thesis using "1.prems"(1)[OF d(2)] Cons snoc d(1) by simp
        qed
      qed (use that in simp)
      moreover have "t \<in> set (split_ws (c # cur) cs)" using "1.prems"(2) None Cons by (simp add: split_ws.simps[of cur "c # cs"])
      ultimately show ?thesis using "1.IH"(1)[OF None Cons] by blast
    qed
  qed
qed

lemma split_whitespace_tokens: "t \<in> set (split_whitespace s) \<Longrightarrow> token t"
  unfolding split_whitespace_def by (rule split_ws_tokens) simp_all

lemma white_space_blank: "w \<in> set white_space \<Longrightarrow> CHR '' '' \<in> set w \<Longrightarrow> w = [CHR '' '']"
  by (auto simp: white_space_def)

lemma ws_prefix_before_blank:
  assumes "ws_prefix v = None" "v \<noteq> []"
  shows "ws_prefix (v @ CHR '' '' # r) = None"
  unfolding ws_prefix_None_iff
proof (intro ballI notI)
  fix w
  assume w: "w \<in> set white_space" and "\<exists>t. v @ CHR '' '' # r = w @ t"
  then obtain t where "v @ CHR '' '' # r = w @ t" by blast
  then consider (short) u where "v = w @ u" | (long) u where "w = v @ CHR '' '' # u"
    by (auto simp: append_eq_append_conv2 Cons_eq_append_conv)
  then show False
  proof cases
    case short
    then show ?thesis using assms(1) w by (auto simp: ws_prefix_None_iff)
  next
    case long
    then show ?thesis using white_space_blank[OF w] assms(2) by (cases v) auto
  qed
qed

lemma ws_prefix_blank: "ws_prefix (CHR '' '' # r) = Some [CHR '' '']"
  by (simp add: ws_prefix_def white_space_def)

lemma ws_prefix_Nil [simp]: "ws_prefix [] = None"
  using white_space_nonempty by (auto simp: ws_prefix_None_iff)

lemma token_suffix: "token (c # t) \<Longrightarrow> ws_prefix (c # t) = None \<and> (t = [] \<or> token t)"
  unfolding token_def by (metis append_Cons append_Nil list.discI)

lemma split_ws_token_end: "t = [] \<or> token t \<Longrightarrow> cur @ t \<noteq> [] \<Longrightarrow> split_ws cur t = [rev cur @ t]"
proof (induction t arbitrary: cur)
  case Nil
  then show ?case by (simp add: split_ws.simps[of cur "[]"])
next
  case (Cons c t)
  then show ?case using token_suffix[of c t] by (simp add: split_ws.simps[of cur "c # t"])
qed

lemma split_ws_token_blank:
  "t = [] \<or> token t \<Longrightarrow> cur @ t \<noteq> [] \<Longrightarrow> split_ws cur (t @ CHR '' '' # r) = (rev cur @ t) # split_ws [] r"
proof (induction t arbitrary: cur)
  case Nil
  then show ?case by (simp add: split_ws.simps[of cur "CHR '' '' # r"] ws_prefix_blank)
next
  case (Cons c t)
  then have "ws_prefix ((c # t) @ CHR '' '' # r) = None" using token_suffix[of c t] by (intro ws_prefix_before_blank) auto
  then show ?case using Cons token_suffix[of c t] by (simp add: split_ws.simps[of cur "c # t @ CHR '' '' # r"])
qed

lemma split_whitespace_join:
  "\<forall>t \<in> set ts. token t \<Longrightarrow> split_whitespace (join_with '' '' ts) = ts"
proof (induction "'' ''" ts rule: join_with.induct)
  case 1
  then show ?case by (simp add: split_whitespace_def split_ws.simps[of "[]" "[]"])
next
  case (2 x)
  then show ?case using split_ws_token_end[of x "[]"] by (auto simp: split_whitespace_def token_def)
next
  case (3 x y ys)
  then show ?case using split_ws_token_blank[of x "[]" "join_with '' '' (y # ys)"] by (auto simp: split_whitespace_def token_def)
qed

section \<open>ASCII lower case\<close>

lemma ascii_lower_char_idem: "ascii_lower_char (ascii_lower_char c) = ascii_lower_char c"
  by (auto simp: ascii_lower_char_def Let_def)

lemma white_space_codes: "list_all (list_all (\<lambda>b. of_char b < (65::nat) \<or> 122 < (of_char b :: nat))) white_space"
  by code_simp

lemma ascii_lower_white_space:
  assumes "w \<in> set white_space" "b \<in> set w"
  shows "ascii_lower_char c = b \<longleftrightarrow> c = b"
proof -
  have b: "of_char b < (65::nat) \<or> 122 < (of_char b :: nat)"
    using assms white_space_codes by (auto simp: list_all_iff)
  show ?thesis
  proof (cases "65 \<le> (of_char c :: nat) \<and> (of_char c :: nat) \<le> 90")
    case True
    then have "(of_char (ascii_lower_char c) :: nat) = of_char c + 32" by (simp add: ascii_lower_char_def Let_def)
    with True b show ?thesis by auto
  qed (auto simp: ascii_lower_char_def Let_def)
qed

lemma is_prefix_ascii_lower: "w \<in> set white_space \<Longrightarrow> set u \<subseteq> set w \<Longrightarrow> is_prefix u (ascii_lower s) = is_prefix u s"
proof (induction u s rule: is_prefix.induct)
  case (3 c cs d ds)
  then show ?case using ascii_lower_white_space[of w c d] by (auto simp: ascii_lower_def)
qed (simp_all add: ascii_lower_def)

lemma ws_prefix_ascii_lower: "ws_prefix (ascii_lower s) = ws_prefix s"
  unfolding ws_prefix_def by (rule find_cong) (simp_all add: is_prefix_ascii_lower)

lemma token_ascii_lower:
  assumes "token t"
  shows "token (ascii_lower t)"
  unfolding token_def
proof (intro conjI allI impI)
  show "ascii_lower t \<noteq> []" using assms by (simp add: token_def ascii_lower_def)
  fix u v
  assume uv: "ascii_lower t = u @ v" "v \<noteq> []"
  then obtain u' v' where "t = u' @ v'" "v = ascii_lower v'" by (auto simp: ascii_lower_def map_eq_append_conv)
  then show "ws_prefix v = None" using uv(2) assms ws_prefix_ascii_lower by (auto simp: token_def ascii_lower_def)
qed

lemma ascii_lower_join: "ascii_lower (join_with '' '' ts) = join_with '' '' (map ascii_lower ts)"
  by (induction "'' ''" ts rule: join_with.induct) (auto simp: ascii_lower_def ascii_lower_char_def)

lemma ascii_lower_idem: "ascii_lower (ascii_lower s) = ascii_lower s"
  by (simp add: ascii_lower_def ascii_lower_char_idem)

section \<open>Printing and reading numbers\<close>

definition digit_char :: "nat \<Rightarrow> char" where
  "digit_char n = char_of (48 + n)"

fun show_nat :: "nat \<Rightarrow> string" where
  "show_nat n = (if n < 10 then [digit_char n] else show_nat (n div 10) @ [digit_char (n mod 10)])"

declare show_nat.simps [simp del]

definition hex_digit :: "nat \<Rightarrow> char" where
  "hex_digit n = (if n < 10 then char_of (48 + n) else char_of (87 + n))"

text \<open>\<open>{byte:02x}\<close>\<close>

definition show_hex_byte :: "byte \<Rightarrow> string" where
  "show_hex_byte b = [hex_digit (unat b div 16), hex_digit (unat b mod 16)]"

text \<open>\<open>char::to_digit\<close> in radix 10 and 16.\<close>

definition dec_value :: "char \<Rightarrow> nat option" where
  "dec_value c = (let n = of_char c :: nat in if 48 \<le> n \<and> n \<le> 57 then Some (n - 48) else None)"

definition hex_value :: "char \<Rightarrow> nat option" where
  "hex_value c =
     (let n = of_char c :: nat in
      if 48 \<le> n \<and> n \<le> 57 then Some (n - 48)
      else if 97 \<le> n \<and> n \<le> 102 then Some (n - 87)
      else if 65 \<le> n \<and> n \<le> 70 then Some (n - 55)
      else None)"

text \<open>The digit loop of \<open>from_str_radix\<close>: it fails on a character that is no digit and when
  the value leaves the type (\<open>bound\<close> is its number of values).\<close>

fun read_digits :: "(char \<Rightarrow> nat option) \<Rightarrow> nat \<Rightarrow> nat \<Rightarrow> nat \<Rightarrow> string \<Rightarrow> nat option" where
  "read_digits val radix bound acc [] = Some acc"
| "read_digits val radix bound acc (c # cs) =
     (case val c of
        None \<Rightarrow> None
      | Some d \<Rightarrow>
          (if acc * radix + d < bound then read_digits val radix bound (acc * radix + d) cs
           else None))"

text \<open>\<open>from_str_radix\<close> for an unsigned type: an empty string and a lone sign fail, a leading
  \<open>+\<close> is skipped.\<close>

definition read_unsigned :: "(char \<Rightarrow> nat option) \<Rightarrow> nat \<Rightarrow> nat \<Rightarrow> string \<Rightarrow> nat option" where
  "read_unsigned val radix bound s =
     (case s of
        [] \<Rightarrow> None
      | c # cs \<Rightarrow>
          (if c = CHR ''+'' then (if cs = [] then None else read_digits val radix bound 0 cs)
           else read_digits val radix bound 0 s))"

definition parse_u32 :: "string \<Rightarrow> nat option" where
  "parse_u32 s = read_unsigned dec_value 10 (2 ^ 32) s"

definition parse_u64 :: "string \<Rightarrow> nat option" where
  "parse_u64 s = read_unsigned dec_value 10 (2 ^ 64) s"

text \<open>\<open>str::parse::<i32>\<close>: a leading minus is read too, down to \<open>-2\<^sup>3\<^sup>1\<close>.\<close>

definition parse_i32 :: "string \<Rightarrow> int option" where
  "parse_i32 s =
     (case s of
        CHR ''-'' # cs \<Rightarrow>
          (if cs = [] then None
           else map_option (\<lambda>n. - int n) (read_digits dec_value 10 (2 ^ 31 + 1) 0 cs))
      | _ \<Rightarrow> map_option int (read_unsigned dec_value 10 (2 ^ 31) s))"

definition parse_hex_u8 :: "string \<Rightarrow> byte option" where
  "parse_hex_u8 s = map_option word_of_nat (read_unsigned hex_value 16 256 s)"

lemma of_char_char_of: "n < 256 \<Longrightarrow> of_char (char_of n) = (n::nat)"
  by (simp add: of_char_of)

lemma dec_value_digit_char [simp, str_simps]: "n < 10 \<Longrightarrow> dec_value (digit_char n) = Some n"
  by (simp add: dec_value_def digit_char_def of_char_char_of)

lemma hex_value_hex_digit [simp, str_simps]: "n < 16 \<Longrightarrow> hex_value (hex_digit n) = Some n"
  by (auto simp: hex_value_def hex_digit_def of_char_char_of)

lemma of_char_hex_digit: "n < 16 \<Longrightarrow> of_char (hex_digit n) = (if n < 10 then 48 + n else 87 + n)"
  by (auto simp: hex_digit_def of_char_char_of)

lemma hex_digit_not_plus: "n < 16 \<Longrightarrow> hex_digit n \<noteq> CHR ''+''"
proof
  assume "n < 16" "hex_digit n = CHR ''+''"
  then have "(of_char (hex_digit n) :: nat) = 43" by simp
  with of_char_hex_digit[OF \<open>n < 16\<close>] show False by (simp split: if_splits)
qed

lemma parse_hex_show_hex [simp, str_simps]: "parse_hex_u8 (show_hex_byte b) = Some b"
proof -
  have b: "unat b < 256" using unsigned_less[of b] by simp
  then have hi: "unat b div 16 < 16" by simp
  have "read_unsigned hex_value 16 256 (show_hex_byte b) = Some (unat b div 16 * 16 + unat b mod 16)"
    using b hi by (simp add: read_unsigned_def show_hex_byte_def hex_digit_not_plus)
  also have "unat b div 16 * 16 + unat b mod 16 = unat b" by simp
  finally show ?thesis by (simp add: parse_hex_u8_def)
qed

lemma length_show_hex_byte [simp]: "length (show_hex_byte b) = 2"
  by (simp add: show_hex_byte_def)

lemma show_nat_nonempty [simp]: "show_nat n \<noteq> []"
  by (subst show_nat.simps) simp

lemma read_digits_append:
  "read_digits val radix bound acc (s @ t) =
     (case read_digits val radix bound acc s of
        None \<Rightarrow> None | Some a \<Rightarrow> read_digits val radix bound a t)"
  by (induction s arbitrary: acc) (auto split: option.splits)

lemma read_show_digits: "n < bound \<Longrightarrow> read_digits dec_value 10 bound 0 (show_nat n) = Some n"
proof (induction n rule: show_nat.induct)
  case (1 n)
  show ?case
  proof (cases "n < 10")
    case True
    with 1 show ?thesis by (simp add: show_nat.simps[of n])
  next
    case False
    with 1 have "read_digits dec_value 10 bound 0 (show_nat (n div 10)) = Some (n div 10)" by simp
    with False 1 show ?thesis
      by (simp add: show_nat.simps[of n] read_digits_append mult.commute)
  qed
qed

lemma hd_show_nat: "\<exists>d < 10. hd (show_nat n) = digit_char d"
proof (induction n rule: show_nat.induct)
  case (1 n)
  then show ?case by (cases "n < 10") (auto simp: show_nat.simps[of n])
qed

lemma read_unsigned_show_nat: "n < bound \<Longrightarrow> read_unsigned dec_value 10 bound (show_nat n) = Some n"
proof -
  assume n: "n < bound"
  obtain c cs where s: "show_nat n = c # cs" by (cases "show_nat n") auto
  obtain d where "d < 10" "c = digit_char d" using hd_show_nat[of n] s by auto
  then have "dec_value c = Some d" by simp
  moreover have "dec_value (CHR ''+'') = None" by (simp add: dec_value_def)
  ultimately have "c \<noteq> CHR ''+''" by auto
  with s read_show_digits[OF n] show ?thesis by (simp add: read_unsigned_def)
qed

end
