(* ===== verification/Errors.thy ===== *)
theory Errors
  imports Rust_Str
begin

text \<open>
  \<^verbatim>\<open>src/error.rs\<close> and the exception classes of \<^verbatim>\<open>src/lib.rs\<close>: the error
  enumeration, its messages, the wire errors of \<^verbatim>\<open>src/protocol.rs\<close>, and the single
  conversion of both into Python exceptions. A boxed source error is its text; it is never
  part of the message.
\<close>

section \<open>Error values\<close>

datatype io_kind = NotFound | ConnectionRefused | UnexpectedEof | OtherKind string

datatype io_error = IoError (io_error_kind: io_kind) (io_error_text: string)

datatype error =
    EmptyQuery
  | EmptyContext
  | EmptyKey
  | EmptyEntity
  | EmptyNamespace
  | InvalidNamespace string
  | EmptyEmbedding
  | ZeroEmbedding
  | NonFiniteEmbedding
  | DimMismatch nat nat \<comment> \<open>got, want\<close>
  | MissingEnv string
  | UnknownBackend string
  | InvalidConfig string
  | NamespaceMissing string
  | EntityExtraction string
  | EmbeddingFailed string
  | VectorStorage string
  | ObjectStorage string
  | Compression string
  | DaemonShutdown
  | Daemon string
  | ProtocolVersionMismatch nat nat \<comment> \<open>client, daemon\<close>
  | Io io_error
  | Codec string

type_synonym 'a res = "error + 'a"

text \<open>The \<open>Display\<close> texts of the \<open>thiserror\<close> attributes.\<close>

fun error_to_string :: "error \<Rightarrow> string" where
  "error_to_string EmptyQuery = ''query text is empty''"
| "error_to_string EmptyContext = ''context is empty''"
| "error_to_string EmptyKey = ''key is empty''"
| "error_to_string EmptyEntity = ''entity is empty''"
| "error_to_string EmptyNamespace = ''namespace is empty''"
| "error_to_string (InvalidNamespace m) = ''invalid namespace: '' @ m"
| "error_to_string EmptyEmbedding = ''embedding is empty''"
| "error_to_string ZeroEmbedding = ''embedding has zero norm''"
| "error_to_string NonFiniteEmbedding = ''embedding has non-finite component or norm''"
| "error_to_string (DimMismatch got want) =
     ''embedding dimension '' @ show_nat got @ '' != index dimension '' @ show_nat want"
| "error_to_string (MissingEnv v) = ''required environment variable `'' @ v @ ''` is not set''"
| "error_to_string (UnknownBackend b) = ''unknown backend `'' @ b @ ''`''"
| "error_to_string (InvalidConfig m) = ''invalid namespace config: '' @ m"
| "error_to_string (NamespaceMissing n) = ''no namespace `'' @ n @ ''`''"
| "error_to_string (EntityExtraction _) = ''entity extraction failed''"
| "error_to_string (EmbeddingFailed _) = ''embedding failed''"
| "error_to_string (VectorStorage _) = ''vector storage failed''"
| "error_to_string (ObjectStorage _) = ''object storage failed''"
| "error_to_string (Compression _) = ''compression failed''"
| "error_to_string DaemonShutdown = ''daemon is shutting down''"
| "error_to_string (Daemon m) = ''daemon lifecycle error: '' @ m"
| "error_to_string (ProtocolVersionMismatch c d) =
     ''protocol version mismatch: client '' @ show_nat c @ '', daemon '' @ show_nat d"
| "error_to_string (Io _) = ''daemon i/o failed''"
| "error_to_string (Codec _) = ''protocol codec failed''"

datatype protocol_error =
    VersionMismatch nat nat \<comment> \<open>client, daemon\<close>
  | UnknownNamespace string
  | InvalidRequest string
  | BackendInit string

section \<open>Python exceptions\<close>

text \<open>
  The classes \<open>add_exceptions\<close> creates and the builtins they derive from. The four
  registered classes are kept in once-cells; an error converted before registration falls
  back to the builtin.
\<close>

datatype py_type =
    PyException | PyValueError | PyKeyError | PyRuntimeError
  | SemisweetError | ConfigError | NamespaceError | BackendError | DaemonError

fun py_bases :: "py_type \<Rightarrow> py_type list" where
  "py_bases SemisweetError = [PyException]"
| "py_bases ConfigError = [SemisweetError, PyValueError]"
| "py_bases NamespaceError = [SemisweetError, PyKeyError]"
| "py_bases BackendError = [SemisweetError, PyRuntimeError]"
| "py_bases DaemonError = [SemisweetError, PyRuntimeError]"
| "py_bases PyException = []"
| "py_bases _ = [PyException]"

text \<open>\<open>issubclass\<close>: the hierarchy is three levels deep.\<close>

definition py_subclass :: "py_type \<Rightarrow> py_type \<Rightarrow> bool" where
  "py_subclass c d \<longleftrightarrow> c = d \<or> d \<in> set (py_bases c) \<or> d \<in> set (concat (map py_bases (py_bases c)))"

record exception_cells =
  config_cell :: "py_type option"
  namespace_cell :: "py_type option"
  backend_cell :: "py_type option"
  daemon_cell :: "py_type option"

definition no_exceptions :: exception_cells where
  "no_exceptions = \<lparr>config_cell = None, namespace_cell = None, backend_cell = None,
     daemon_cell = None\<rparr>"

text \<open>A \<open>PyOnceLock\<close> keeps its first value: setting it again is ignored.\<close>

definition once_set :: "'a option \<Rightarrow> 'a \<Rightarrow> 'a option" where
  "once_set cell v = (case cell of None \<Rightarrow> Some v | Some w \<Rightarrow> Some w)"

definition register_exceptions ::
  "py_type \<Rightarrow> py_type \<Rightarrow> py_type \<Rightarrow> py_type \<Rightarrow> exception_cells \<Rightarrow> exception_cells" where
  "register_exceptions config namespace backend daemon cells =
     \<lparr>config_cell = once_set (config_cell cells) config,
      namespace_cell = once_set (namespace_cell cells) namespace,
      backend_cell = once_set (backend_cell cells) backend,
      daemon_cell = once_set (daemon_cell cells) daemon\<rparr>"

definition add_exceptions :: "exception_cells \<Rightarrow> exception_cells" where
  "add_exceptions = register_exceptions ConfigError NamespaceError BackendError DaemonError"

datatype py_err = PyErr (py_err_type: py_type) (py_err_message: string)

definition build_py_err :: "py_type option \<Rightarrow> py_type \<Rightarrow> string \<Rightarrow> py_err" where
  "build_py_err cell fallback message =
     (case cell of Some ty \<Rightarrow> PyErr ty message | None \<Rightarrow> PyErr fallback message)"

fun error_to_py_err :: "exception_cells \<Rightarrow> error \<Rightarrow> py_err" where
  "error_to_py_err cells (NamespaceMissing n) =
     build_py_err (namespace_cell cells) PyKeyError (error_to_string (NamespaceMissing n))"
| "error_to_py_err cells (EntityExtraction e) =
     build_py_err (backend_cell cells) PyRuntimeError (error_to_string (EntityExtraction e))"
| "error_to_py_err cells (EmbeddingFailed e) =
     build_py_err (backend_cell cells) PyRuntimeError (error_to_string (EmbeddingFailed e))"
| "error_to_py_err cells (VectorStorage e) =
     build_py_err (backend_cell cells) PyRuntimeError (error_to_string (VectorStorage e))"
| "error_to_py_err cells (ObjectStorage e) =
     build_py_err (backend_cell cells) PyRuntimeError (error_to_string (ObjectStorage e))"
| "error_to_py_err cells (Compression e) =
     build_py_err (backend_cell cells) PyRuntimeError (error_to_string (Compression e))"
| "error_to_py_err cells DaemonShutdown =
     build_py_err (daemon_cell cells) PyRuntimeError (error_to_string DaemonShutdown)"
| "error_to_py_err cells (Daemon m) =
     build_py_err (daemon_cell cells) PyRuntimeError (error_to_string (Daemon m))"
| "error_to_py_err cells (Io e) =
     build_py_err (daemon_cell cells) PyRuntimeError (error_to_string (Io e))"
| "error_to_py_err cells (Codec e) =
     build_py_err (daemon_cell cells) PyRuntimeError (error_to_string (Codec e))"
| "error_to_py_err cells e = build_py_err (config_cell cells) PyValueError (error_to_string e)"

fun protocol_error_to_py_err :: "exception_cells \<Rightarrow> protocol_error \<Rightarrow> py_err" where
  "protocol_error_to_py_err cells (InvalidRequest m) =
     build_py_err (config_cell cells) PyValueError m"
| "protocol_error_to_py_err cells (UnknownNamespace n) =
     build_py_err (namespace_cell cells) PyKeyError (''unknown namespace `'' @ n @ ''`'')"
| "protocol_error_to_py_err cells (VersionMismatch c d) =
     build_py_err (config_cell cells) PyValueError
       (''protocol version mismatch: client '' @ show_nat c @ '', daemon '' @ show_nat d)"
| "protocol_error_to_py_err cells (BackendInit m) =
     build_py_err (backend_cell cells) PyRuntimeError m"

section \<open>The builtin an error is caught by\<close>

text \<open>What a caller catches without naming the library's classes.\<close>

fun error_builtin :: "error \<Rightarrow> py_type" where
  "error_builtin (NamespaceMissing _) = PyKeyError"
| "error_builtin (EntityExtraction _) = PyRuntimeError"
| "error_builtin (EmbeddingFailed _) = PyRuntimeError"
| "error_builtin (VectorStorage _) = PyRuntimeError"
| "error_builtin (ObjectStorage _) = PyRuntimeError"
| "error_builtin (Compression _) = PyRuntimeError"
| "error_builtin DaemonShutdown = PyRuntimeError"
| "error_builtin (Daemon _) = PyRuntimeError"
| "error_builtin (Io _) = PyRuntimeError"
| "error_builtin (Codec _) = PyRuntimeError"
| "error_builtin _ = PyValueError"

definition cells_ok :: "exception_cells \<Rightarrow> bool" where
  "cells_ok cells \<longleftrightarrow> cells = no_exceptions \<or> cells = add_exceptions no_exceptions"

lemma add_exceptions_idem [simp]: "add_exceptions (add_exceptions c) = add_exceptions c"
  by (cases "config_cell c"; cases "namespace_cell c"; cases "backend_cell c"; cases "daemon_cell c")
    (simp_all add: add_exceptions_def register_exceptions_def once_set_def)

lemma cells_ok_cases:
  assumes "cells_ok cells"
  shows "(config_cell cells = None \<or> config_cell cells = Some ConfigError)
    \<and> (namespace_cell cells = None \<or> namespace_cell cells = Some NamespaceError)
    \<and> (backend_cell cells = None \<or> backend_cell cells = Some BackendError)
    \<and> (daemon_cell cells = None \<or> daemon_cell cells = Some DaemonError)"
  using assms by (auto simp: cells_ok_def no_exceptions_def add_exceptions_def
      register_exceptions_def once_set_def)

lemma build_py_err_subclass:
  assumes "cell = None \<or> cell = Some t" and "py_subclass t b" and "py_subclass b b"
  shows "py_subclass (py_err_type (build_py_err cell b m)) b"
  using assms by (auto simp: build_py_err_def)

lemma py_subclass_facts:
  "py_subclass PyValueError PyValueError" "py_subclass PyRuntimeError PyRuntimeError"
  "py_subclass PyKeyError PyKeyError"
  "py_subclass ConfigError PyValueError" "py_subclass NamespaceError PyKeyError"
  "py_subclass BackendError PyRuntimeError" "py_subclass DaemonError PyRuntimeError"
  by (simp_all add: py_subclass_def)

lemma error_to_py_err_builtin:
  assumes "cells_ok cells"
  shows "py_subclass (py_err_type (error_to_py_err cells e)) (error_builtin e)"
proof -
  note cells = cells_ok_cases[OF assms]
  have "py_subclass (py_err_type (build_py_err (config_cell cells) PyValueError m)) PyValueError"
    "py_subclass (py_err_type (build_py_err (namespace_cell cells) PyKeyError m)) PyKeyError"
    "py_subclass (py_err_type (build_py_err (backend_cell cells) PyRuntimeError m)) PyRuntimeError"
    "py_subclass (py_err_type (build_py_err (daemon_cell cells) PyRuntimeError m)) PyRuntimeError"
    for m
    using cells by (auto intro: build_py_err_subclass py_subclass_facts)
  then show ?thesis by (cases e) (simp_all add: py_subclass_facts)
qed

lemma error_to_py_err_message:
  "py_err_message (error_to_py_err cells e) = error_to_string e"
  by (cases e) (auto simp: build_py_err_def split: option.splits)

end
