(* ===== verification/F32.thy ===== *)
theory F32
  imports Prelude "HOL-Library.Log_Nat"
begin

unbundle bit_operations_syntax

text \<open>
  Rust's \<open>f32\<close>, bit for bit: an IEEE 754 binary32 value is its 32-bit word. Comparisons are
  the IEEE ones (false on NaN, \<open>-0 = +0\<close>), \<open>total_cmp\<close> is the standard library's bit
  trick, and \<open>+ - * / sqrt\<close> and the conversion from integers are computed exactly on
  integers and rounded once, to nearest with ties to even. Every operation is executable.
  Rust leaves the sign and payload of a produced NaN open; here it is one quiet NaN, and no
  theorem of the development depends on it.
\<close>

named_theorems f32_simps \<open>reading the fields of a float\<close>
named_theorems f32_eval \<open>definitions that evaluate closed float expressions under \<open>simp\<close>\<close>

section \<open>Representation\<close>

datatype f32 = F32 "32 word"

primrec f32_bits :: "f32 \<Rightarrow> 32 word" where
  "f32_bits (F32 w) = w"

definition f32_sign :: "f32 \<Rightarrow> bool" where
  "f32_sign x \<longleftrightarrow> 2 ^ 31 \<le> uint (f32_bits x)"

text \<open>The 31 bits below the sign: exponent field and fraction. On values other than NaN they
  order the absolute values.\<close>

definition f32_mag :: "f32 \<Rightarrow> int" where
  "f32_mag x = uint (f32_bits x) mod 2 ^ 31"

definition f32_exp :: "f32 \<Rightarrow> int" where
  "f32_exp x = f32_mag x div 2 ^ 23"

definition f32_man :: "f32 \<Rightarrow> int" where
  "f32_man x = f32_mag x mod 2 ^ 23"

definition f32_inf_mag :: int where
  "f32_inf_mag = 255 * 2 ^ 23"

definition f32_make :: "bool \<Rightarrow> int \<Rightarrow> f32" where
  "f32_make s m = F32 (word_of_int ((if s then 2 ^ 31 else 0) + m))"

definition f32_is_nan :: "f32 \<Rightarrow> bool" where
  "f32_is_nan x \<longleftrightarrow> f32_exp x = 255 \<and> f32_man x \<noteq> 0"

definition f32_is_inf :: "f32 \<Rightarrow> bool" where
  "f32_is_inf x \<longleftrightarrow> f32_exp x = 255 \<and> f32_man x = 0"

definition f32_is_finite :: "f32 \<Rightarrow> bool" where
  "f32_is_finite x \<longleftrightarrow> f32_exp x \<noteq> 255"

definition f32_is_zero :: "f32 \<Rightarrow> bool" where
  "f32_is_zero x \<longleftrightarrow> f32_mag x = 0"

definition f32_zero :: f32 where "f32_zero = F32 0"
definition f32_neg_zero :: f32 where "f32_neg_zero = F32 0x80000000"
definition f32_one :: f32 where "f32_one = F32 0x3F800000"
definition f32_nan :: f32 where "f32_nan = F32 0x7FC00000"

definition f32_inf :: "bool \<Rightarrow> f32" where
  "f32_inf s = f32_make s f32_inf_mag"

section \<open>Comparison\<close>

text \<open>A signed magnitude: the two zeros have the same key.\<close>

definition f32_key :: "f32 \<Rightarrow> int" where
  "f32_key x = (if f32_sign x then - f32_mag x else f32_mag x)"

definition f32_lt :: "f32 \<Rightarrow> f32 \<Rightarrow> bool" where
  "f32_lt x y \<longleftrightarrow> \<not> f32_is_nan x \<and> \<not> f32_is_nan y \<and> f32_key x < f32_key y"

definition f32_le :: "f32 \<Rightarrow> f32 \<Rightarrow> bool" where
  "f32_le x y \<longleftrightarrow> \<not> f32_is_nan x \<and> \<not> f32_is_nan y \<and> f32_key x \<le> f32_key y"

definition f32_eq :: "f32 \<Rightarrow> f32 \<Rightarrow> bool" where
  "f32_eq x y \<longleftrightarrow> \<not> f32_is_nan x \<and> \<not> f32_is_nan y \<and> f32_key x = f32_key y"

text \<open>\<open>f32::total_cmp\<close>: flip the 31 low bits of negative values and compare as \<open>i32\<close>.\<close>

definition f32_total_key :: "f32 \<Rightarrow> int" where
  "f32_total_key x =
     (let l = f32_bits x in sint (l XOR drop_bit 1 (signed_drop_bit 31 l)))"

definition f32_total_gt :: "f32 \<Rightarrow> f32 \<Rightarrow> bool" where
  "f32_total_gt x y \<longleftrightarrow> f32_total_key x > f32_total_key y"

text \<open>\<open>(lo..=hi).contains(&x)\<close> and \<open>x.clamp(lo, hi)\<close>.\<close>

definition f32_in_range :: "f32 \<Rightarrow> f32 \<Rightarrow> f32 \<Rightarrow> bool" where
  "f32_in_range lo hi x \<longleftrightarrow> f32_le lo x \<and> f32_le x hi"

definition f32_clamp :: "f32 \<Rightarrow> f32 \<Rightarrow> f32 \<Rightarrow> f32" where
  "f32_clamp lo hi x =
     (let y = (if f32_lt x lo then lo else x) in if f32_lt hi y then hi else y)"

section \<open>Rounding\<close>

text \<open>
  \<open>f32_scale n d\<close> is the exponent of the unit in the last place for the positive ratio
  \<open>n / d\<close>: 23 below its binary logarithm, and not below \<open>-149\<close>. \<open>f32_round n d\<close> is
  the magnitude field of the float nearest to \<open>n / d\<close>: with the significand \<open>q\<close> in units
  of \<open>2 ^ e\<close>, the field is \<open>(e + 149) * 2 ^ 23 + q\<close> for normal and subnormal results
  alike, and a carry out of the significand moves to the next exponent by itself.
\<close>

definition f32_scale :: "int \<Rightarrow> int \<Rightarrow> int" where
  "f32_scale n d =
     (let k = bitlen n - bitlen d;
          below = (if 0 \<le> k then n < d * 2 ^ nat k else n * 2 ^ nat (- k) < d)
      in max (- 149) ((if below then k - 1 else k) - 23))"

definition round_half_even :: "int \<Rightarrow> int \<Rightarrow> int" where
  "round_half_even a b =
     (let q = a div b; r = a mod b in if b < 2 * r \<or> (2 * r = b \<and> odd q) then q + 1 else q)"

definition f32_round :: "int \<Rightarrow> int \<Rightarrow> int" where
  "f32_round n d =
     (if n = 0 then 0
      else let e = f32_scale n d;
               q = (if e \<le> 0 then round_half_even (n * 2 ^ nat (- e)) d
                    else round_half_even n (d * 2 ^ nat e))
           in min f32_inf_mag ((e + 149) * 2 ^ 23 + q))"

text \<open>The magnitude of \<open>n * 2 ^ e\<close>.\<close>

definition f32_round_scaled :: "int \<Rightarrow> int \<Rightarrow> int" where
  "f32_round_scaled n e =
     (if 0 \<le> e then f32_round (n * 2 ^ nat e) 1 else f32_round n (2 ^ nat (- e)))"

section \<open>Arithmetic\<close>

text \<open>A finite value is \<open>\<plusminus> f32_sig x * 2 ^ f32_pow x\<close>.\<close>

definition f32_sig :: "f32 \<Rightarrow> int" where
  "f32_sig x = (if f32_exp x = 0 then f32_man x else f32_man x + 2 ^ 23)"

definition f32_pow :: "f32 \<Rightarrow> int" where
  "f32_pow x = max 1 (f32_exp x) - 150"

definition f32_of_nat :: "nat \<Rightarrow> f32" where
  "f32_of_nat n = f32_make False (f32_round (int n) 1)"

definition f32_neg :: "f32 \<Rightarrow> f32" where
  "f32_neg x = f32_make (\<not> f32_sign x) (f32_mag x)"

definition f32_signed_sig :: "f32 \<Rightarrow> int" where
  "f32_signed_sig x = (if f32_sign x then - f32_sig x else f32_sig x)"

definition f32_add :: "f32 \<Rightarrow> f32 \<Rightarrow> f32" where
  "f32_add x y =
     (if f32_is_nan x \<or> f32_is_nan y then f32_nan
      else if f32_is_inf x \<and> f32_is_inf y then (if f32_sign x = f32_sign y then x else f32_nan)
      else if f32_is_inf x then x
      else if f32_is_inf y then y
      else let e = min (f32_pow x) (f32_pow y);
               n = f32_signed_sig x * 2 ^ nat (f32_pow x - e)
                 + f32_signed_sig y * 2 ^ nat (f32_pow y - e)
           in if n = 0 then f32_make (f32_sign x \<and> f32_sign y) 0
              else f32_make (n < 0) (f32_round_scaled \<bar>n\<bar> e))"

definition f32_sub :: "f32 \<Rightarrow> f32 \<Rightarrow> f32" where
  "f32_sub x y = f32_add x (f32_neg y)"

definition f32_mul :: "f32 \<Rightarrow> f32 \<Rightarrow> f32" where
  "f32_mul x y =
     (let s = (f32_sign x \<noteq> f32_sign y) in
      if f32_is_nan x \<or> f32_is_nan y then f32_nan
      else if f32_is_inf x \<or> f32_is_inf y then
        (if f32_is_zero x \<or> f32_is_zero y then f32_nan else f32_inf s)
      else f32_make s (f32_round_scaled (f32_sig x * f32_sig y) (f32_pow x + f32_pow y)))"

definition f32_div :: "f32 \<Rightarrow> f32 \<Rightarrow> f32" where
  "f32_div x y =
     (let s = (f32_sign x \<noteq> f32_sign y) in
      if f32_is_nan x \<or> f32_is_nan y then f32_nan
      else if f32_is_inf x then (if f32_is_inf y then f32_nan else f32_inf s)
      else if f32_is_inf y then f32_make s 0
      else if f32_is_zero y then (if f32_is_zero x then f32_nan else f32_inf s)
      else let e = f32_pow x - f32_pow y in
        f32_make s (if 0 \<le> e then f32_round (f32_sig x * 2 ^ nat e) (f32_sig y)
                    else f32_round (f32_sig x) (f32_sig y * 2 ^ nat (- e))))"

function isqrt :: "int \<Rightarrow> int" where
  "isqrt n =
     (if n \<le> 0 then 0
      else let s = 2 * isqrt (n div 4) in if (s + 1) * (s + 1) \<le> n then s + 1 else s)"
  by pat_completeness auto
termination
  by (relation "measure nat") auto

declare isqrt.simps [simp del]

text \<open>
  The significand is widened by 60 bits and made to have an even exponent; the integer square
  root then has more than 30 bits, and a last bit that is set exactly when the root is inexact
  stands for all the bits below, so that one rounding gives the correctly rounded root.
\<close>

definition f32_sqrt :: "f32 \<Rightarrow> f32" where
  "f32_sqrt x =
     (if f32_is_nan x then f32_nan
      else if f32_is_zero x then x
      else if f32_sign x then f32_nan
      else if f32_is_inf x then x
      else let odd_pow = odd (f32_pow x);
               m = (if odd_pow then 2 * f32_sig x else f32_sig x);
               e = (if odd_pow then f32_pow x - 1 else f32_pow x);
               n = m * 4 ^ 30;
               r = isqrt n;
               sticky = (if r * r = n then 0 else 1)
           in f32_make False (f32_round_scaled (2 * r + sticky) (e div 2 - 31)))"

text \<open>\<open>iter.sum::<f32>()\<close> starts from \<open>-0.0\<close> and adds from the left.\<close>

definition f32_sum :: "f32 list \<Rightarrow> f32" where
  "f32_sum xs = foldl f32_add f32_neg_zero xs"

lemmas f32_eval_defs [f32_eval] = f32_bits.simps f32_sign_def f32_mag_def f32_exp_def f32_man_def f32_inf_mag_def
  f32_make_def f32_is_nan_def f32_is_inf_def f32_is_finite_def f32_is_zero_def f32_zero_def
  f32_neg_zero_def f32_one_def f32_nan_def f32_inf_def f32_key_def f32_lt_def f32_le_def f32_eq_def
  f32_in_range_def f32_clamp_def f32_scale_def compute_bitlen round_half_even_def f32_round_def
  f32_round_scaled_def f32_sig_def f32_pow_def f32_of_nat_def f32_neg_def f32_signed_sig_def
  f32_add_def f32_sub_def f32_mul_def f32_div_def isqrt.simps f32_sqrt_def f32_sum_def Let_def

section \<open>Facts about the representation\<close>

lemma f32_bits_bound: "0 \<le> uint (f32_bits x)" "uint (f32_bits x) < 2 ^ 32"
  using unsigned_less[of "f32_bits x"] by simp_all

lemma f32_mag_bound: "0 \<le> f32_mag x" "f32_mag x < 2 ^ 31"
  by (simp_all add: f32_mag_def)

lemma f32_man_bound: "0 \<le> f32_man x" "f32_man x < 2 ^ 23"
  by (simp_all add: f32_man_def)

lemma f32_mag_split: "f32_mag x = f32_exp x * 2 ^ 23 + f32_man x"
  unfolding f32_exp_def f32_man_def by (rule div_mult_mod_eq[symmetric])

lemma f32_exp_bound: "0 \<le> f32_exp x" "f32_exp x \<le> 255"
  using f32_mag_bound[of x] f32_man_bound[of x] f32_mag_split[of x] by simp_all

lemma uint_f32_bits: "uint (f32_bits x) = (if f32_sign x then 2 ^ 31 else 0) + f32_mag x"
proof (cases "f32_sign x")
  case True
  then have "uint (f32_bits x) mod 2 ^ 31 = (uint (f32_bits x) - 2 ^ 31) mod 2 ^ 31"
    by (metis mod_add_self2 diff_add_cancel)
  also have "\<dots> = uint (f32_bits x) - 2 ^ 31"
    using True f32_bits_bound[of x] by (intro mod_pos_pos_trivial) (auto simp: f32_sign_def)
  finally show ?thesis using True by (simp add: f32_mag_def)
next
  case False
  then show ?thesis using f32_bits_bound[of x] by (simp add: f32_mag_def f32_sign_def)
qed

lemma f32_eqI: "f32_sign x = f32_sign y \<Longrightarrow> f32_mag x = f32_mag y \<Longrightarrow> x = y"
  by (cases x; cases y) (metis f32_bits.simps uint_f32_bits word_uint_eq_iff)

lemma uint_f32_make:
  "0 \<le> m \<Longrightarrow> m < 2 ^ 31 \<Longrightarrow> uint (f32_bits (f32_make s m)) = (if s then 2 ^ 31 else 0) + m"
  unfolding f32_make_def f32_bits.simps uint_word_of_int by simp

lemma f32_make_fields [simp, f32_simps]:
  assumes "0 \<le> m" "m < 2 ^ 31"
  shows "f32_sign (f32_make s m) = s" "f32_mag (f32_make s m) = m"
proof -
  show "f32_sign (f32_make s m) = s" using assms by (simp add: f32_sign_def uint_f32_make)
  then show "f32_mag (f32_make s m) = m"
    using uint_f32_bits[of "f32_make s m"] uint_f32_make[OF assms] by simp
qed

lemma f32_is_nan_mag: "f32_is_nan x \<longleftrightarrow> f32_inf_mag < f32_mag x"
  using f32_mag_split[of x] f32_man_bound[of x] f32_exp_bound[of x]
  by (auto simp: f32_is_nan_def f32_inf_mag_def)

lemma f32_is_inf_mag: "f32_is_inf x \<longleftrightarrow> f32_mag x = f32_inf_mag"
proof
  show "f32_is_inf x \<Longrightarrow> f32_mag x = f32_inf_mag"
    using f32_mag_split[of x] by (simp add: f32_is_inf_def f32_inf_mag_def)
  show "f32_mag x = f32_inf_mag \<Longrightarrow> f32_is_inf x"
    by (simp add: f32_is_inf_def f32_exp_def f32_man_def f32_inf_mag_def)
qed

lemma f32_is_finite_mag: "f32_is_finite x \<longleftrightarrow> f32_mag x < f32_inf_mag"
  using f32_is_nan_mag[of x] f32_is_inf_mag[of x]
  by (auto simp: f32_is_finite_def f32_is_nan_def f32_is_inf_def)

lemma f32_inf_mag_bound: "0 \<le> f32_inf_mag" "f32_inf_mag < 2 ^ 31"
  by (simp_all add: f32_inf_mag_def)

lemma f32_finite_not_nan: "f32_is_finite x \<Longrightarrow> \<not> f32_is_nan x"
  by (simp add: f32_is_finite_mag f32_is_nan_mag)

lemma f32_make_rounded [simp, f32_simps]:
  assumes "0 \<le> m" "m \<le> f32_inf_mag"
  shows "\<not> f32_is_nan (f32_make s m)" "f32_sign (f32_make s m) = s" "f32_mag (f32_make s m) = m"
  using assms f32_inf_mag_bound by (simp_all add: f32_is_nan_mag)

lemma f32_constants [simp, f32_simps]:
  "f32_mag f32_zero = 0" "f32_mag f32_neg_zero = 0" "\<not> f32_sign f32_zero" "f32_sign f32_neg_zero"
  "f32_mag f32_one = 127 * 2 ^ 23" "\<not> f32_sign f32_one"
  "\<not> f32_is_nan f32_zero" "\<not> f32_is_nan f32_one" "f32_is_nan f32_nan"
  by (simp_all add: f32_zero_def f32_neg_zero_def f32_one_def f32_nan_def f32_mag_def f32_sign_def
      f32_is_nan_mag f32_inf_mag_def)

lemma f32_key_constants [simp, f32_simps]:
  "f32_key f32_zero = 0" "f32_key f32_one = 127 * 2 ^ 23"
  by (simp_all add: f32_key_def)

section \<open>Facts about comparison\<close>

lemma f32_le_trans: "f32_le x y \<Longrightarrow> f32_le y z \<Longrightarrow> f32_le x z"
  by (simp add: f32_le_def)

lemma f32_le_not_lt: "f32_le x y \<Longrightarrow> \<not> f32_lt y x"
  by (simp add: f32_lt_def f32_le_def)

lemma f32_not_lt_le: "\<not> f32_is_nan x \<Longrightarrow> \<not> f32_is_nan y \<Longrightarrow> \<not> f32_lt x y \<Longrightarrow> f32_le y x"
  by (simp add: f32_lt_def f32_le_def)

lemma f32_le_not_nan: "f32_le x y \<Longrightarrow> \<not> f32_is_nan x \<and> \<not> f32_is_nan y"
  by (simp add: f32_le_def)

lemma f32_clamp_range:
  assumes "f32_le lo hi" and "\<not> f32_is_nan x"
  shows "f32_in_range lo hi (f32_clamp lo hi x)"
  using assms by (auto simp: f32_clamp_def f32_in_range_def f32_lt_def f32_le_def Let_def)

text \<open>\<open>total_cmp\<close> is a linear order on all bit patterns.\<close>

lemma total_key_word:
  fixes w :: "32 word"
  shows "w XOR drop_bit 1 (signed_drop_bit 31 w) = (if bit w 31 then NOT (take_bit 31 w) else w)"
proof (rule bit_word_eqI)
  fix n assume "n < LENGTH(32)"
  then have "n < 32" by simp
  then show "bit (w XOR drop_bit 1 (signed_drop_bit 31 w)) n =
      bit (if bit w 31 then NOT (take_bit 31 w) else w) n"
    using bit_imp_le_length[of w 63] by (cases "n = 31") (auto simp: bit_simps)
qed

lemma bit_31_iff: "bit (f32_bits x) 31 \<longleftrightarrow> f32_sign x"
proof -
  have "uint (f32_bits x) div 2 ^ 31 = (if f32_sign x then 1 else 0)"
    using uint_f32_bits[of x] f32_mag_bound[of x] by (auto simp: int_div_pos_eq)
  then have "odd (uint (f32_bits x) div 2 ^ 31) \<longleftrightarrow> f32_sign x" by simp
  moreover have "bit (f32_bits x) 31 \<longleftrightarrow> bit (uint (f32_bits x)) 31" by (simp add: bit_unsigned_iff)
  ultimately show ?thesis by (simp add: bit_iff_odd)
qed

lemma bit_word32_bound: "bit (w::32 word) n \<Longrightarrow> n < 32"
  using bit_imp_le_length[of w n] by simp

lemma sint_not: "sint (NOT (w::32 word)) = - sint w - 1"
proof -
  have "sint (NOT w) = NOT (sint w)"
    using bit_word32_bound[of w] by (intro bit_eqI) (fastforce simp: bit_sint_iff bit_not_iff)
  then show ?thesis by (simp add: not_eq_complement)
qed

lemma sint_nonneg:
  assumes "\<not> bit (w::32 word) 31"
  shows "sint w = uint w"
proof (rule bit_eqI)
  fix n
  show "bit (sint w) n = bit (uint w) n"
    using assms bit_word32_bound[of w n] by (cases "n \<le> 31") (auto simp: bit_sint_iff bit_uint_iff le_less)
qed

lemma f32_total_key_alt:
  "f32_total_key x = (if f32_sign x then - f32_mag x - 1 else f32_mag x)"
proof -
  let ?w = "f32_bits x"
  have "uint (take_bit 31 ?w) = f32_mag x"
    by (simp only: f32_mag_def unsigned_take_bit_eq) (simp only: take_bit_eq_mod)
  moreover have "\<not> bit (take_bit 31 ?w) 31" by (simp add: bit_simps)
  ultimately have low: "sint (take_bit 31 ?w) = f32_mag x" by (simp add: sint_nonneg)
  have key: "f32_total_key x = sint (if f32_sign x then NOT (take_bit 31 ?w) else ?w)"
    by (simp only: f32_total_key_def Let_def total_key_word bit_31_iff)
  show ?thesis
  proof (cases "f32_sign x")
    case True
    then show ?thesis unfolding key using low by (simp add: sint_not)
  next
    case False
    then show ?thesis unfolding key using uint_f32_bits[of x] by (simp add: sint_nonneg bit_31_iff)
  qed
qed

lemma f32_total_key_inj: "f32_total_key x = f32_total_key y \<longleftrightarrow> x = y"
  using f32_mag_bound[of x] f32_mag_bound[of y]
  by (auto simp: f32_total_key_alt intro!: f32_eqI split: if_splits)

text \<open>Where neither side is NaN, \<open>total_cmp\<close> refines the IEEE order: it agrees with it except
  that it puts \<open>-0\<close> below \<open>+0\<close>.\<close>

lemma f32_total_gt_lt: "f32_lt x y \<Longrightarrow> f32_total_gt y x"
  using f32_mag_bound[of x] f32_mag_bound[of y]
  by (auto simp: f32_lt_def f32_total_gt_def f32_total_key_alt f32_key_def split: if_splits)

lemma f32_not_total_gt_le:
  "\<not> f32_is_nan x \<Longrightarrow> \<not> f32_is_nan y \<Longrightarrow> \<not> f32_total_gt x y \<Longrightarrow> f32_le x y"
  using f32_mag_bound[of x] f32_mag_bound[of y]
  by (auto simp: f32_le_def f32_total_gt_def f32_total_key_alt f32_key_def split: if_splits)

lemma f32_total_gt_le:
  "\<not> f32_is_nan x \<Longrightarrow> \<not> f32_is_nan y \<Longrightarrow> f32_total_gt x y \<Longrightarrow> f32_le y x"
  using f32_mag_bound[of x] f32_mag_bound[of y]
  by (auto simp: f32_le_def f32_total_gt_def f32_total_key_alt f32_key_def split: if_splits)

end
