(* ===== verification/Newtype.thy ===== *)
theory Newtype
  imports Errors F32
begin

text \<open>
  \<^verbatim>\<open>src/newtype.rs\<close>: the validating newtypes, the normalized embedding and the
  content-addressed entry id. The version-5 UUID hash is a function of the \<open>uuid\<close> crate and
  an argument of \<open>entry_id_derive\<close>; Unicode lower-casing is an argument of
  \<open>entity_normalize\<close>.
\<close>

section \<open>String newtypes\<close>

datatype namespace = Namespace (namespace_str: string)
datatype key = Key (key_str: string)
datatype entity = Entity (entity_str: string)
datatype query_text = QueryText (query_str: string)
datatype ctx = Context (ctx_str: string)

text \<open>Keys and entities derive \<open>Ord\<close>: the order of the bytes of their strings.\<close>

instantiation key :: linorder
begin

definition less_eq_key :: "key \<Rightarrow> key \<Rightarrow> bool" where
  "less_eq_key a b \<longleftrightarrow> key_str a \<le> key_str b"

definition less_key :: "key \<Rightarrow> key \<Rightarrow> bool" where
  "less_key a b \<longleftrightarrow> key_str a < key_str b"

instance
  by intro_classes (auto simp: less_eq_key_def less_key_def intro: key.expand)

end

instantiation entity :: linorder
begin

definition less_eq_entity :: "entity \<Rightarrow> entity \<Rightarrow> bool" where
  "less_eq_entity a b \<longleftrightarrow> entity_str a \<le> entity_str b"

definition less_entity :: "entity \<Rightarrow> entity \<Rightarrow> bool" where
  "less_entity a b \<longleftrightarrow> entity_str a < entity_str b"

instance
  by intro_classes (auto simp: less_eq_entity_def less_entity_def intro: entity.expand)

end

definition namespace_new :: "string \<Rightarrow> namespace res" where
  "namespace_new raw =
     (let trimmed = trim raw in
      if trimmed = [] then Inl EmptyNamespace
      else if list_ex (\<lambda>c. c \<in> {CHR 0x2F, CHR 0x5C, CHR 0x00}) trimmed then
        Inl (InvalidNamespace
          (''namespace `'' @ trimmed @ ''` must be a single safe path segment''))
      else if trimmed = ''.'' \<or> trimmed = ''..'' then
        Inl (InvalidNamespace
          (''namespace `'' @ trimmed @ ''` must not be a path traversal component''))
      else Inr (Namespace trimmed))"

definition key_new :: "string \<Rightarrow> key res" where
  "key_new raw = (let trimmed = trim raw in if trimmed = [] then Inl EmptyKey else Inr (Key trimmed))"

definition entity_new :: "string \<Rightarrow> entity res" where
  "entity_new raw = (if trim raw = [] then Inl EmptyEntity else Inr (Entity raw))"

definition entity_normalize :: "(string \<Rightarrow> string) \<Rightarrow> string \<Rightarrow> entity option" where
  "entity_normalize lower raw =
     (let collapsed = join_with '' '' (split_whitespace raw) in
      if collapsed = [] then None else Some (Entity (lower collapsed)))"

definition query_text_new :: "string \<Rightarrow> query_text res" where
  "query_text_new raw =
     (let trimmed = trim raw in if trimmed = [] then Inl EmptyQuery else Inr (QueryText trimmed))"

definition ctx_new :: "string \<Rightarrow> ctx res" where
  "ctx_new raw =
     (let trimmed = trim raw in if trimmed = [] then Inl EmptyContext else Inr (Context trimmed))"

section \<open>Embeddings\<close>

datatype dim = Dim (dim_get: nat)

definition dim_new :: "nat \<Rightarrow> dim res" where
  "dim_new n = (if n = 0 then Inl EmptyEmbedding else Inr (Dim n))"

record embedding =
  emb_dim :: dim
  emb_values :: "f32 list"

definition embedding_norm :: "f32 list \<Rightarrow> f32" where
  "embedding_norm values = f32_sqrt (f32_sum (map (\<lambda>v. f32_mul v v) values))"

definition embedding_new :: "f32 list \<Rightarrow> embedding res" where
  "embedding_new values =
     try_bind (dim_new (length values)) (\<lambda>dim.
       if list_ex (\<lambda>v. \<not> f32_is_finite v) values then Inl NonFiniteEmbedding
       else let norm = embedding_norm values in
         if \<not> f32_is_finite norm then Inl NonFiniteEmbedding
         else if f32_eq norm f32_zero then Inl ZeroEmbedding
         else Inr \<lparr>emb_dim = dim, emb_values = map (\<lambda>v. f32_div v norm) values\<rparr>)"

definition embedding_dot :: "embedding \<Rightarrow> embedding \<Rightarrow> f32 res" where
  "embedding_dot a b =
     (if emb_dim a \<noteq> emb_dim b then Inl (DimMismatch (dim_get (emb_dim b)) (dim_get (emb_dim a)))
      else Inr (f32_sum (map (\<lambda>(x, y). f32_mul x y) (zip (emb_values a) (emb_values b)))))"

text \<open>What construction guarantees of an embedding.\<close>

definition embedding_ok :: "embedding \<Rightarrow> bool" where
  "embedding_ok e \<longleftrightarrow> 0 < dim_get (emb_dim e) \<and> length (emb_values e) = dim_get (emb_dim e)"

section \<open>Entry ids\<close>

datatype entry_id = EntryId (entry_id_bytes: bytes)

definition NAMESPACE_UUID :: bytes where
  "NAMESPACE_UUID =
     [0x9e, 0x6f, 0x4d, 0x2a, 0x1b, 0x73, 0x5c, 0x84, 0xa0, 0x3f, 0xd1, 0x2e, 0x7b, 0x88, 0x46, 0x90]"

definition push_field :: "bytes \<Rightarrow> bytes \<Rightarrow> bytes" where
  "push_field buf field = buf @ to_le_bytes 8 (length field) @ field"

definition entry_id_buffer :: "query_text \<Rightarrow> key btree_set \<Rightarrow> ctx option \<Rightarrow> bytes" where
  "entry_id_buffer query keys context =
     (let buf = push_field [] (as_bytes (query_str query));
          buf = (case context of
                   Some c \<Rightarrow> push_field (buf @ [1]) (as_bytes (ctx_str c))
                 | None \<Rightarrow> buf @ [0])
      in fold (\<lambda>key buf. push_field buf (as_bytes (key_str key))) keys buf)"

definition entry_id_derive ::
  "(bytes \<Rightarrow> bytes \<Rightarrow> bytes) \<Rightarrow> query_text \<Rightarrow> key btree_set \<Rightarrow> ctx option \<Rightarrow> entry_id" where
  "entry_id_derive new_v5 query keys context =
     EntryId (new_v5 NAMESPACE_UUID (entry_id_buffer query keys context))"

text \<open>The slot loop of \<open>from_hex\<close> over the pairs of bytes.\<close>

fun hex_pairs :: "string \<Rightarrow> bytes option" where
  "hex_pairs (a # b # rest) =
     (case parse_hex_u8 [a, b] of
        None \<Rightarrow> None
      | Some v \<Rightarrow> (case hex_pairs rest of None \<Rightarrow> None | Some vs \<Rightarrow> Some (v # vs)))"
| "hex_pairs _ = Some []"

definition entry_id_from_hex :: "string \<Rightarrow> entry_id option" where
  "entry_id_from_hex hex = (if length hex \<noteq> 32 then None else map_option EntryId (hex_pairs hex))"

definition entry_id_to_string :: "entry_id \<Rightarrow> string" where
  "entry_id_to_string i = concat (map show_hex_byte (entry_id_bytes i))"

definition entry_id_ok :: "entry_id \<Rightarrow> bool" where
  "entry_id_ok i \<longleftrightarrow> length (entry_id_bytes i) = 16"

section \<open>What the constructors guarantee\<close>

lemma namespace_new_Inr:
  assumes "namespace_new raw = Inr ns"
  shows "namespace_str ns = trim raw" "namespace_str ns \<noteq> []"
    "CHR 0x2F \<notin> set (namespace_str ns)" "CHR 0x00 \<notin> set (namespace_str ns)"
    "namespace_str ns \<notin> {''.'', ''..''}"
  using assms unfolding namespace_new_def Let_def
  by (force simp del: append.simps simp: list_ex_iff split: if_splits)+

lemma key_new_Inr_iff: "key_new raw = Inr k \<longleftrightarrow> trim raw \<noteq> [] \<and> k = Key (trim raw)"
  by (auto simp: key_new_def Let_def)

lemma query_text_new_Inr_iff: "query_text_new raw = Inr q \<longleftrightarrow> trim raw \<noteq> [] \<and> q = QueryText (trim raw)"
  by (auto simp: query_text_new_def Let_def)

lemma ctx_new_Inr_iff: "ctx_new raw = Inr c \<longleftrightarrow> trim raw \<noteq> [] \<and> c = Context (trim raw)"
  by (auto simp: ctx_new_def Let_def)

text \<open>Validated text is a fixed point of its constructor: revalidating it, as the daemon does
  with what the client already validated, changes nothing.\<close>

lemma namespace_new_fixed:
  assumes "namespace_new raw = Inr ns"
  shows "namespace_new (namespace_str ns) = Inr ns"
  using assms unfolding namespace_new_def Let_def
  by (force simp del: append.simps simp: list_ex_iff split: if_splits)

lemma embedding_new_ok: "embedding_new values = Inr e \<Longrightarrow> embedding_ok e"
  by (auto simp: embedding_new_def embedding_ok_def dim_new_def Let_def split: if_splits)

lemma embedding_new_dim: "embedding_new values = Inr e \<Longrightarrow> emb_dim e = Dim (length values)"
  by (auto simp: embedding_new_def dim_new_def Let_def split: if_splits)

lemma embedding_dot_ok:
  "emb_dim a = emb_dim b \<Longrightarrow> \<exists>s. embedding_dot a b = Inr s"
  by (simp add: embedding_dot_def)

section \<open>The identity of an entry\<close>

lemma push_field_nonempty [simp]: "push_field buf f \<noteq> []"
  by (metis append_is_Nil_conv length_to_le_bytes list.size(3) push_field_def zero_neq_numeral)

lemma push_field_append: "push_field buf f @ r = buf @ push_field [] f @ r"
  by (simp add: push_field_def)

lemma fold_push_field:
  "fold (\<lambda>k buf. push_field buf (g k)) ks buf = buf @ concat (map (\<lambda>k. push_field [] (g k)) ks)"
  by (induction ks arbitrary: buf) (auto simp: push_field_def)

text \<open>A length-prefixed field can be read back from the front of a buffer.\<close>

lemma push_field_cancel:
  assumes "push_field [] f @ r = push_field [] g @ s"
    and "length f < 2 ^ 64" and "length g < 2 ^ 64"
  shows "f = g" "r = s"
proof -
  from assms(1) have len: "to_le_bytes 8 (length f) = to_le_bytes 8 (length g)"
    and rest: "f @ r = g @ s"
    by (simp_all add: push_field_def)
  have "length f < 256 ^ 8" "length g < 256 ^ 8" using assms(2,3) by simp_all
  then have "length f = length g" by (metis len from_to_le_bytes)
  with rest show "f = g" "r = s" by auto
qed

lemma concat_push_field_inj:
  assumes "concat (map (push_field []) fs) = concat (map (push_field []) gs)"
    and "\<forall>f \<in> set fs. length f < 2 ^ 64" and "\<forall>g \<in> set gs. length g < 2 ^ 64"
  shows "fs = gs"
  using assms
proof (induction fs arbitrary: gs)
  case Nil
  then show ?case by (cases gs) auto
next
  case (Cons f fs)
  then obtain g gs' where gs: "gs = g # gs'"
    by (cases gs) auto
  have eq: "push_field [] f @ concat (map (push_field []) fs)
      = push_field [] g @ concat (map (push_field []) gs')"
    using Cons.prems(1) gs by simp
  have "f = g" and rest: "concat (map (push_field []) fs) = concat (map (push_field []) gs')"
    using push_field_cancel[OF eq] Cons.prems(2,3) gs by auto
  moreover have "fs = gs'"
    using Cons.IH[OF rest] Cons.prems(2,3) gs by auto
  ultimately show ?case using gs by simp
qed

definition ctx_field :: "ctx option \<Rightarrow> bytes" where
  "ctx_field context =
     (case context of Some c \<Rightarrow> 1 # push_field [] (as_bytes (ctx_str c)) | None \<Rightarrow> [0])"

lemma entry_id_buffer_alt:
  "entry_id_buffer q ks c =
     push_field [] (as_bytes (query_str q)) @ ctx_field c
       @ concat (map (\<lambda>k. push_field [] (as_bytes (key_str k))) ks)"
  by (cases c) (simp_all add: entry_id_buffer_def ctx_field_def fold_push_field, simp add: push_field_def)

lemma ctx_field_cancel:
  assumes "ctx_field c @ r = ctx_field d @ s"
    and "\<forall>x. c = Some x \<longrightarrow> length (ctx_str x) < 2 ^ 64"
    and "\<forall>x. d = Some x \<longrightarrow> length (ctx_str x) < 2 ^ 64"
  shows "c = d" "r = s"
proof -
  have "c = d \<and> r = s"
  proof (cases c; cases d)
    fix x y assume cd: "c = Some x" "d = Some y"
    then have "push_field [] (as_bytes (ctx_str x)) @ r = push_field [] (as_bytes (ctx_str y)) @ s"
      using assms(1) by (simp add: ctx_field_def)
    then show ?thesis
      using push_field_cancel[of "as_bytes (ctx_str x)" r "as_bytes (ctx_str y)" s] assms(2,3) cd
      by (auto intro: ctx.expand)
  qed (use assms(1) in \<open>auto simp: ctx_field_def\<close>)
  then show "c = d" "r = s" by auto
qed

definition short_text :: "query_text \<Rightarrow> key btree_set \<Rightarrow> ctx option \<Rightarrow> bool" where
  "short_text q ks c \<longleftrightarrow>
     length (query_str q) < 2 ^ 64 \<and> list_all (\<lambda>k. length (key_str k) < 2 ^ 64) ks
     \<and> (case c of None \<Rightarrow> True | Some x \<Rightarrow> length (ctx_str x) < 2 ^ 64)"

lemma entry_id_buffer_inj:
  assumes "entry_id_buffer q ks c = entry_id_buffer q' ks' c'"
    and "short_text q ks c" and "short_text q' ks' c'"
  shows "q = q' \<and> ks = ks' \<and> c = c'"
proof -
  let ?f = "\<lambda>k. as_bytes (key_str k)"
  note st = assms(2,3)[unfolded short_text_def list_all_iff]
  have buf: "push_field [] (as_bytes (query_str q)) @ ctx_field c @ concat (map (push_field []) (map ?f ks))
    = push_field [] (as_bytes (query_str q')) @ ctx_field c' @ concat (map (push_field []) (map ?f ks'))"
    using assms(1) by (simp add: entry_id_buffer_alt comp_def)
  from push_field_cancel[OF buf] st
  have q: "query_str q = query_str q'"
    and rest: "ctx_field c @ concat (map (push_field []) (map ?f ks))
      = ctx_field c' @ concat (map (push_field []) (map ?f ks'))"
    by auto
  from ctx_field_cancel[OF rest] st
  have c: "c = c'" and ks: "concat (map (push_field []) (map ?f ks)) = concat (map (push_field []) (map ?f ks'))"
    by (auto split: option.splits)
  from concat_push_field_inj[OF ks] st have "map ?f ks = map ?f ks'" by auto
  then have "ks = ks'"
    by (rule map_injective) (auto intro!: injI intro: key.expand)
  with q c show ?thesis by (auto intro: query_text.expand)
qed

lemma hex_pairs_show: "hex_pairs (concat (map show_hex_byte bs)) = Some bs"
proof (induction bs)
  case (Cons b bs)
  obtain x y where xy: "show_hex_byte b = [x, y]" by (simp add: show_hex_byte_def)
  have "parse_hex_u8 [x, y] = Some b" using parse_hex_show_hex[of b] xy by simp
  with Cons xy show ?case by simp
qed simp

lemma length_entry_id_to_string: "length (entry_id_to_string i) = 2 * length (entry_id_bytes i)"
proof -
  have "length (concat (map show_hex_byte bs)) = 2 * length bs" for bs
    by (induction bs) auto
  then show ?thesis by (simp add: entry_id_to_string_def)
qed

lemma entry_id_to_string_inj: "entry_id_to_string i = entry_id_to_string j \<longleftrightarrow> i = j"
  by (metis entry_id.expand entry_id_to_string_def hex_pairs_show option.inject)

text \<open>Normalising a normalised entity changes nothing.\<close>

definition lower_stable :: "(string \<Rightarrow> string) \<Rightarrow> bool" where
  "lower_stable lower \<longleftrightarrow> (\<forall>raw x. entity_normalize lower raw = Some x \<longrightarrow> entity_normalize lower (entity_str x) = Some x)"

lemma ascii_lower_stable: "lower_stable ascii_lower"
  unfolding lower_stable_def
proof (intro allI impI)
  fix raw x
  assume "entity_normalize ascii_lower raw = Some x"
  then have ts: "join_with '' '' (split_whitespace raw) \<noteq> []"
    and x: "x = Entity (ascii_lower (join_with '' '' (split_whitespace raw)))"
    by (auto simp: entity_normalize_def Let_def split: if_splits)
  have "split_whitespace (ascii_lower (join_with '' '' (split_whitespace raw))) = map ascii_lower (split_whitespace raw)"
    unfolding ascii_lower_join using split_whitespace_tokens token_ascii_lower by (intro split_whitespace_join) auto
  with x ts show "entity_normalize ascii_lower (entity_str x) = Some x"
    by (simp add: entity_normalize_def ascii_lower_join[symmetric] ascii_lower_idem) (simp add: ascii_lower_def ascii_lower_char_idem)
qed

end
