(* ===== verification/Backends.thy ===== *)
theory Backends
  imports Newtype
begin

text \<open>
  \<^verbatim>\<open>src/vector.rs\<close>, \<^verbatim>\<open>src/object.rs\<close>, \<^verbatim>\<open>src/embedding.rs\<close> and
  \<^verbatim>\<open>src/entity.rs\<close>: the data exchanged with the backends and the backend traits. A
  \<open>dyn\<close> trait object is a record of its methods; a method of a stateful backend takes and
  returns the backend's state, on errors too. What the cache relies on is the contract of the
  locales \<open>object_store\<close> and \<open>vector_store\<close>.
\<close>

section \<open>Data\<close>

record filter_spec =
  keys_all :: "key btree_set"
  entities_any :: "entity btree_set"

definition filter_new :: "key btree_set \<Rightarrow> entity btree_set \<Rightarrow> filter_spec" where
  "filter_new ks es = \<lparr>keys_all = ks, entities_any = es\<rparr>"

record vector_entry =
  ve_id :: entry_id
  ve_vector :: embedding
  ve_keys :: "key btree_set"
  ve_entities :: "entity btree_set"
  ve_context :: "ctx option"

record scored_hit =
  hit_id :: entry_id
  dense_score :: f32
  sparse_score :: f32
  hit_entities :: "entity btree_set"
  hit_context :: "ctx option"

section \<open>Traits\<close>

record 'o object_backend =
  ob_put :: "namespace \<Rightarrow> entry_id \<Rightarrow> bytes \<Rightarrow> 'o \<Rightarrow> unit res \<times> 'o"
  ob_get :: "namespace \<Rightarrow> entry_id \<Rightarrow> 'o \<Rightarrow> bytes option res \<times> 'o"
  ob_delete :: "namespace \<Rightarrow> entry_id \<Rightarrow> 'o \<Rightarrow> unit res \<times> 'o"

record 'v vector_backend =
  vb_upsert :: "namespace \<Rightarrow> vector_entry \<Rightarrow> 'v \<Rightarrow> unit res \<times> 'v"
  vb_query :: "namespace \<Rightarrow> embedding \<Rightarrow> ctx option \<Rightarrow> filter_spec \<Rightarrow> nat \<Rightarrow> 'v
    \<Rightarrow> scored_hit list res \<times> 'v"
  vb_delete :: "namespace \<Rightarrow> entry_id \<Rightarrow> 'v \<Rightarrow> unit res \<times> 'v"

record embedding_backend =
  eb_dim :: dim
  eb_embed_query :: "string \<Rightarrow> embedding res"

record entity_backend =
  en_extract :: "string \<Rightarrow> bool \<Rightarrow> entity btree_set res"

text \<open>The law \<^verbatim>\<open>src/entity.rs\<close> states of every entity backend: what the fast mode extracts, the
  full mode extracts too.\<close>

definition fast_subset_full :: "entity_backend \<Rightarrow> bool" where
  "fast_subset_full b \<longleftrightarrow>
     (\<forall>t fast full. en_extract b t True = Inr fast \<longrightarrow> en_extract b t False = Inr full
        \<longrightarrow> set fast \<subseteq> set full)"

section \<open>The contract of an object store\<close>

text \<open>
  \<open>objects\<close> is what a store holds. A successful \<open>put\<close> binds the key, a successful
  \<open>delete\<close> unbinds it, \<open>get\<close> answers from the bindings and changes nothing, and a failed
  operation may or may not have taken effect on its own key, as when the connection to a remote store
  breaks, but leaves every other binding as it was.
\<close>

locale object_store =
  fixes put :: "namespace \<Rightarrow> entry_id \<Rightarrow> bytes \<Rightarrow> 'o \<Rightarrow> unit res \<times> 'o"
    and get :: "namespace \<Rightarrow> entry_id \<Rightarrow> 'o \<Rightarrow> bytes option res \<times> 'o"
    and delete :: "namespace \<Rightarrow> entry_id \<Rightarrow> 'o \<Rightarrow> unit res \<times> 'o"
    and objects :: "'o \<Rightarrow> namespace \<times> entry_id \<Rightarrow> bytes option"
    and invar :: "'o \<Rightarrow> bool"
    and usable :: "namespace \<Rightarrow> entry_id \<Rightarrow> bool"
  assumes put_ok: "invar s \<Longrightarrow> usable ns i \<Longrightarrow> put ns i v s = (Inr (), s') \<Longrightarrow>
      invar s' \<and> objects s' (ns, i) = Some v
      \<and> (\<forall>m j. usable m j \<and> (m, j) \<noteq> (ns, i) \<longrightarrow> objects s' (m, j) = objects s (m, j))"
    and put_err: "invar s \<Longrightarrow> usable ns i \<Longrightarrow> put ns i v s = (Inl e, s') \<Longrightarrow>
      invar s' \<and> (objects s' (ns, i) = objects s (ns, i) \<or> objects s' (ns, i) = Some v)
      \<and> (\<forall>m j. usable m j \<and> (m, j) \<noteq> (ns, i) \<longrightarrow> objects s' (m, j) = objects s (m, j))"
    and get_frame: "get ns i s = (out, s') \<Longrightarrow> s' = s"
    and get_ok: "invar s \<Longrightarrow> usable ns i \<Longrightarrow> get ns i s = (Inr r, s') \<Longrightarrow> r = objects s (ns, i)"
    and delete_ok: "invar s \<Longrightarrow> usable ns i \<Longrightarrow> delete ns i s = (Inr (), s') \<Longrightarrow>
      invar s' \<and> objects s' (ns, i) = None
      \<and> (\<forall>m j. usable m j \<and> (m, j) \<noteq> (ns, i) \<longrightarrow> objects s' (m, j) = objects s (m, j))"
    and delete_err: "invar s \<Longrightarrow> usable ns i \<Longrightarrow> delete ns i s = (Inl e, s') \<Longrightarrow>
      invar s' \<and> (objects s' (ns, i) = objects s (ns, i) \<or> objects s' (ns, i) = None)
      \<and> (\<forall>m j. usable m j \<and> (m, j) \<noteq> (ns, i) \<longrightarrow> objects s' (m, j) = objects s (m, j))"
begin

lemma put_then_get:
  assumes "invar s" "usable ns i" "put ns i v s = (Inr (), s1)" "get ns i s1 = (Inr r, s2)"
  shows "r = Some v"
  using put_ok[OF assms(1-3)] get_ok[OF _ assms(2,4)] by auto

lemma delete_then_get:
  assumes "invar s" "usable ns i" "delete ns i s = (Inr (), s1)" "get ns i s1 = (Inr r, s2)"
  shows "r = None"
  using delete_ok[OF assms(1-3)] get_ok[OF _ assms(2,4)] by auto

lemma put_invar: "invar s \<Longrightarrow> usable ns i \<Longrightarrow> put ns i v s = (r, s') \<Longrightarrow> invar s'"
  using put_ok[of s ns i v s'] put_err[of s ns i v _ s'] by (cases r) auto

lemma delete_invar: "invar s \<Longrightarrow> usable ns i \<Longrightarrow> delete ns i s = (r, s') \<Longrightarrow> invar s'"
  using delete_ok[of s ns i s'] delete_err[of s ns i _ s'] by (cases r) auto

end

section \<open>The contract of a vector store\<close>

text \<open>
  What a store promises of the namespace \<open>ns\<close>. \<open>entries\<close> is what it holds, per namespace and id,
  \<open>accepts\<close> the entries it can represent.
  Queries change nothing and return hits with distinct ids, each of them standing for a stored entry
  that carries all the required keys and, when entities are required, one of them; an upsert or
  a delete that fails may or may not have taken effect. That much every store keeps
  (\<open>vector_sound\<close>). An exact store (\<open>vector_store\<close>) moreover returns at most \<open>top_k\<close> hits, and a stored
  entry that qualifies and is not returned has been pushed out by \<open>top_k\<close> others.
\<close>

definition passes_filter :: "filter_spec \<Rightarrow> vector_entry \<Rightarrow> bool" where
  "passes_filter f e \<longleftrightarrow>
     set (keys_all f) \<subseteq> set (ve_keys e)
     \<and> (entities_any f = [] \<or> set (entities_any f) \<inter> set (ve_entities e) \<noteq> {})"

definition hit_stands_for :: "scored_hit \<Rightarrow> vector_entry \<Rightarrow> bool" where
  "hit_stands_for h e \<longleftrightarrow>
     hit_id h = ve_id e \<and> hit_entities h = ve_entities e \<and> hit_context h = ve_context e"

locale vector_sound =
  fixes upsert :: "namespace \<Rightarrow> vector_entry \<Rightarrow> 'v \<Rightarrow> unit res \<times> 'v"
    and query :: "namespace \<Rightarrow> embedding \<Rightarrow> ctx option \<Rightarrow> filter_spec \<Rightarrow> nat \<Rightarrow> 'v
      \<Rightarrow> scored_hit list res \<times> 'v"
    and delete :: "namespace \<Rightarrow> entry_id \<Rightarrow> 'v \<Rightarrow> unit res \<times> 'v"
    and entries :: "'v \<Rightarrow> namespace \<Rightarrow> entry_id \<Rightarrow> vector_entry option"
    and invar :: "'v \<Rightarrow> bool"
    and accepts :: "vector_entry \<Rightarrow> bool"
    and ns :: namespace
  assumes upsert_ok: "invar s \<Longrightarrow> accepts e \<Longrightarrow> upsert ns e s = (Inr (), s') \<Longrightarrow>
      invar s' \<and> entries s' = (entries s)(ns := (entries s ns)(ve_id e \<mapsto> e))"
    and upsert_err: "invar s \<Longrightarrow> accepts e \<Longrightarrow> upsert ns e s = (Inl err, s') \<Longrightarrow>
      invar s' \<and> (entries s' = entries s \<or> entries s' = (entries s)(ns := (entries s ns)(ve_id e \<mapsto> e)))"
    and delete_ok: "invar s \<Longrightarrow> delete ns i s = (Inr (), s') \<Longrightarrow>
      invar s' \<and> entries s' = (entries s)(ns := (entries s ns)(i := None))"
    and delete_err: "invar s \<Longrightarrow> delete ns i s = (Inl err, s') \<Longrightarrow>
      invar s' \<and> (entries s' = entries s \<or> entries s' = (entries s)(ns := (entries s ns)(i := None)))"
    and query_frame: "invar s \<Longrightarrow> query ns vec c f k s = (out, s') \<Longrightarrow> s' = s"
    and query_sound: "invar s \<Longrightarrow> query ns vec c f k s = (Inr hits, s') \<Longrightarrow> h \<in> set hits \<Longrightarrow>
      \<exists>e. entries s ns (hit_id h) = Some e \<and> hit_stands_for h e \<and> passes_filter f e"
    and query_distinct: "invar s \<Longrightarrow> query ns vec c f k s = (Inr hits, s') \<Longrightarrow> distinct (map hit_id hits)"
    and entries_id: "invar s \<Longrightarrow> entries s ns i = Some e \<Longrightarrow> ve_id e = i"
begin

lemma upsert_frame:
  assumes "invar s" "accepts e" "upsert ns e s = (r, s')" "m \<noteq> ns"
  shows "entries s' m = entries s m"
  using assms upsert_ok[of s e s'] upsert_err[of s e _ s'] by (cases r) auto

lemma upsert_invar: "invar s \<Longrightarrow> accepts e \<Longrightarrow> upsert ns e s = (r, s') \<Longrightarrow> invar s'"
  using upsert_ok[of s e s'] upsert_err[of s e _ s'] by (cases r) auto

lemma delete_invar: "invar s \<Longrightarrow> delete ns i s = (r, s') \<Longrightarrow> invar s'"
  using delete_ok[of s i s'] delete_err[of s i _ s'] by (cases r) auto

lemma delete_entries:
  assumes "invar s" "delete ns i s = (r, s')"
  shows "entries s' = entries s \<or> entries s' = (entries s)(ns := (entries s ns)(i := None))"
  using assms delete_ok[of s i s'] delete_err[of s i _ s'] by (cases r) auto

text \<open>An entry that was deleted is in no later answer until it is upserted again.\<close>

lemma query_after_delete:
  assumes "invar s" "delete ns i s = (Inr (), s1)" "query ns vec c f k s1 = (Inr hits, s2)"
    "h \<in> set hits"
  shows "hit_id h \<noteq> i"
  using delete_ok[OF assms(1,2)] query_sound[OF _ assms(3,4)] by auto

end

locale vector_store = vector_sound +
  assumes query_limit: "invar s \<Longrightarrow> query ns vec c f k s = (Inr hits, s') \<Longrightarrow> length hits \<le> k"
    and query_complete: "invar s \<Longrightarrow> query ns vec c f k s = (Inr hits, s') \<Longrightarrow>
      entries s ns i = Some e \<Longrightarrow> passes_filter f e \<Longrightarrow> i \<notin> hit_id ` set hits \<Longrightarrow> length hits = k"

end
