(* ===== verification/Scoring.thy ===== *)
theory Scoring
  imports Backends
begin

text \<open>
  \<^verbatim>\<open>src/scoring.rs\<close>: when a candidate of the vector store is a semantic hit. \<open>accept\<close> is the
  chain of hard gates, \<open>select\<close> the loop that keeps the accepted candidate with the highest
  dense score. \<open>accepted\<close> and \<open>best_hit\<close> are the specifications the two are measured
  against.
\<close>

section \<open>Configuration\<close>

definition DEFAULT_THRESHOLD :: f32 where "DEFAULT_THRESHOLD = F32 0x3F6B851F"
definition DEFAULT_CONTEXT_GATE :: f32 where "DEFAULT_CONTEXT_GATE = F32 0x3DCCCCCD"
definition DEFAULT_CONTEXT_THRESHOLD :: f32 where "DEFAULT_CONTEXT_THRESHOLD = F32 0x3F6147AE"
definition DEFAULT_TOP_K :: nat where "DEFAULT_TOP_K = 10"

datatype context_mode = Ignore | Gate

record scoring_config =
  threshold :: f32
  entity_filter :: bool
  context_mode :: context_mode
  context_gate :: f32
  context_threshold :: f32
  top_k :: nat

definition scoring_default :: scoring_config where
  "scoring_default = \<lparr>threshold = DEFAULT_THRESHOLD, entity_filter = True, context_mode = Gate,
     context_gate = DEFAULT_CONTEXT_GATE, context_threshold = DEFAULT_CONTEXT_THRESHOLD,
     top_k = DEFAULT_TOP_K\<rparr>"

section \<open>Gates and selection\<close>

definition accept :: "scoring_config \<Rightarrow> entity btree_set \<Rightarrow> ctx option \<Rightarrow> scored_hit \<Rightarrow> bool res" where
  "accept sc query_entities query_context hit =
     (let n = length query_entities in
      if n > 0 \<and> length (btree_intersection query_entities (hit_entities hit)) < max (n div 3) 1
      then Inr False
      else case (context_mode sc, query_context) of
             (Gate, Some _) \<Rightarrow>
               if f32_lt (sparse_score hit) (context_gate sc) then Inr False
               else Inr (f32_le (context_threshold sc) (dense_score hit))
           | _ \<Rightarrow> Inr (f32_le (threshold sc) (dense_score hit)))"

fun select_loop ::
  "scoring_config \<Rightarrow> entity btree_set \<Rightarrow> ctx option \<Rightarrow> scored_hit list \<Rightarrow> scored_hit option
   \<Rightarrow> scored_hit option res" where
  "select_loop sc es c [] best = Inr best"
| "select_loop sc es c (hit # hits) best =
     try_bind (accept sc es c hit) (\<lambda>ok.
       if \<not> ok then select_loop sc es c hits best
       else
         let wins = (case best of
                       Some current \<Rightarrow> f32_total_gt (dense_score hit) (dense_score current)
                     | None \<Rightarrow> True)
         in select_loop sc es c hits (if wins then Some hit else best))"

definition select ::
  "scoring_config \<Rightarrow> entity btree_set \<Rightarrow> ctx option \<Rightarrow> scored_hit list \<Rightarrow> scored_hit option res" where
  "select sc es c hits = select_loop sc es c hits None"

section \<open>Specification\<close>

text \<open>The gates as one condition on the hit: enough of the query's entities are among the hit's, and the
  scores reach the floors the mode and the query's context select.\<close>

definition entity_gate :: "entity btree_set \<Rightarrow> scored_hit \<Rightarrow> bool" where
  "entity_gate es hit \<longleftrightarrow>
     es = [] \<or> max 1 (card (set es) div 3) \<le> card (set es \<inter> set (hit_entities hit))"

definition score_gate :: "scoring_config \<Rightarrow> ctx option \<Rightarrow> scored_hit \<Rightarrow> bool" where
  "score_gate sc c hit \<longleftrightarrow>
     (if context_mode sc = Gate \<and> c \<noteq> None
      then \<not> f32_lt (sparse_score hit) (context_gate sc)
           \<and> f32_le (context_threshold sc) (dense_score hit)
      else f32_le (threshold sc) (dense_score hit))"

definition accepted :: "scoring_config \<Rightarrow> entity btree_set \<Rightarrow> ctx option \<Rightarrow> scored_hit \<Rightarrow> bool" where
  "accepted sc es c hit \<longleftrightarrow> entity_gate es hit \<and> score_gate sc c hit"

text \<open>The first of the candidates that no other candidate beats in the total order of floats.\<close>

definition best_hit :: "scored_hit list \<Rightarrow> scored_hit option" where
  "best_hit hits =
     find (\<lambda>h. list_all (\<lambda>g. \<not> f32_total_gt (dense_score g) (dense_score h)) hits) hits"

section \<open>Lemmas\<close>

lemma accept_total: "\<exists>b. accept sc es c hit = Inr b"
  by (auto simp: accept_def Let_def split: context_mode.splits option.splits)

lemma accept_accepted:
  assumes "btree_ok es"
  shows "accept sc es c hit = Inr (accepted sc es c hit)"
proof -
  have "length es = card (set es)"
    using btree_ok_distinct[OF assms] by (simp add: distinct_card)
  then have gate: "(length es > 0 \<and>
      length (btree_intersection es (hit_entities hit)) < max (length es div 3) 1) \<longleftrightarrow>
    \<not> entity_gate es hit"
    unfolding length_btree_intersection[OF assms] entity_gate_def
    by (metis length_greater_0_conv max.commute not_le)
  show ?thesis
    unfolding accept_def accepted_def score_gate_def Let_def gate
    by (cases "entity_gate es hit"; cases "context_mode sc"; cases c) simp_all
qed

lemma f32_total_gt_iff: "f32_total_gt x y \<longleftrightarrow> f32_total_key y < f32_total_key x"
  by (simp add: f32_total_gt_def)

lemma select_loop_mem:
  "select_loop sc es c hits best = Inr (Some h) \<Longrightarrow> h \<in> set hits \<or> best = Some h"
  by (induction hits arbitrary: best)
    (auto simp: result_simps Let_def split: if_splits option.splits)

text \<open>One step of the loop on accepted candidates.\<close>

fun best_step :: "scored_hit option \<Rightarrow> scored_hit \<Rightarrow> scored_hit option" where
  "best_step None h = Some h"
| "best_step (Some g) h = (if f32_total_gt (dense_score h) (dense_score g) then Some h else Some g)"

lemma select_loop_fold:
  assumes "btree_ok es"
  shows "select_loop sc es c hits best =
           Inr (foldl best_step best (filter (accepted sc es c) hits))"
  using assms
  by (induction hits arbitrary: best) (auto simp: accept_accepted Let_def split: option.splits)

lemma find_append: "find P (xs @ ys) = (case find P xs of None \<Rightarrow> find P ys | Some x \<Rightarrow> Some x)"
  by (induction xs) auto

lemma best_hit_snoc: "best_hit (hs @ [h]) = best_step (best_hit hs) h"
proof (cases "best_hit hs")
  case None
  let ?k = "\<lambda>h. f32_total_key (dense_score h)"
  have "hs = []"
  proof (rule ccontr)
    assume "hs \<noteq> []"
    then have fin: "finite (?k ` set hs)" "?k ` set hs \<noteq> {}" by auto
    obtain m where m: "m \<in> set hs" "?k m = Max (?k ` set hs)"
      using Max_in[OF fin] by auto
    have "\<forall>g \<in> set hs. ?k g \<le> ?k m"
      using Max_ge[OF fin(1)] m(2) by auto
    then show False using None m(1)
      by (auto simp: best_hit_def find_None_iff list_all_iff f32_total_gt_iff not_less)
  qed
  then show ?thesis by (simp add: best_hit_def f32_total_gt_iff)
next
  case (Some b)
  let ?k = "\<lambda>h. f32_total_key (dense_score h)"
  from Some have b: "b \<in> set hs" "\<forall>g \<in> set hs. ?k g \<le> ?k b"
    by (auto simp: best_hit_def find_Some_iff list_all_iff f32_total_gt_iff not_less)
  show ?thesis
  proof (cases "?k b < ?k h")
    case True
    then have "find (\<lambda>x. list_all (\<lambda>g. \<not> f32_total_gt (dense_score g) (dense_score x)) (hs @ [h])) hs = None"
      using b by (auto simp: find_None_iff list_all_iff f32_total_gt_iff not_less)
    then show ?thesis
      using True Some b by (auto simp: best_hit_def find_append list_all_iff f32_total_gt_iff)
  next
    case False
    then have "(\<lambda>x. list_all (\<lambda>g. \<not> f32_total_gt (dense_score g) (dense_score x)) (hs @ [h])) y
        \<longleftrightarrow> list_all (\<lambda>g. \<not> f32_total_gt (dense_score g) (dense_score y)) hs" if "y \<in> set hs" for y
      using b that by (auto simp: list_all_iff f32_total_gt_iff not_less intro: order_trans)
    then have "find (\<lambda>x. list_all (\<lambda>g. \<not> f32_total_gt (dense_score g) (dense_score x)) (hs @ [h])) hs
        = best_hit hs"
      unfolding best_hit_def by (intro find_cong) auto
    with Some False show ?thesis by (simp add: best_hit_def f32_total_gt_iff find_append)
  qed
qed

lemma foldl_best_step: "foldl best_step None hs = best_hit hs"
proof (induction hs rule: rev_induct)
  case Nil
  show ?case by (simp add: best_hit_def)
next
  case (snoc h hs)
  then show ?case by (simp add: best_hit_snoc)
qed

lemma select_best:
  "btree_ok es \<Longrightarrow> select sc es c hits = Inr (best_hit (filter (accepted sc es c) hits))"
  by (simp add: select_def select_loop_fold foldl_best_step)

lemma best_hit_None_iff: "best_hit hs = None \<longleftrightarrow> hs = []"
proof (cases hs rule: rev_cases)
  case (snoc ys y)
  then show ?thesis by (cases "best_hit ys") (auto simp: best_hit_snoc)
qed (simp add: best_hit_def)

lemma best_hit_Some: "best_hit hs = Some h \<Longrightarrow> h \<in> set hs"
  by (auto simp: best_hit_def find_Some_iff)

lemma select_Some:
  "btree_ok es \<Longrightarrow> select sc es c hits = Inr (Some h) \<Longrightarrow> h \<in> set hits \<and> accepted sc es c h"
  by (auto simp: select_best dest!: best_hit_Some)

section \<open>Properties\<close>

text \<open>
  C15. On every list of candidates selection succeeds, and its result is the first candidate that
  passes the gates and that no other passing candidate beats in the total order of dense scores;
  it is empty exactly when no candidate passes.
\<close>

theorem select_correct:
  assumes "btree_ok es"
  shows "select sc es c hits = Inr (best_hit (filter (accepted sc es c) hits))
    \<and> (select sc es c hits = Inr None \<longleftrightarrow> (\<forall>h \<in> set hits. \<not> accepted sc es c h))"
  using assms by (auto simp: select_best best_hit_None_iff filter_empty_conv)

theorem select_correct_witness:
  "btree_ok [Entity ''acme''] \<and>
   select scoring_default [Entity ''acme''] None
     [\<lparr>hit_id = EntryId [], dense_score = f32_one, sparse_score = f32_zero,
       hit_entities = [Entity ''acme''], hit_context = None\<rparr>]
   = Inr (best_hit (filter (accepted scoring_default [Entity ''acme''] None)
      [\<lparr>hit_id = EntryId [], dense_score = f32_one, sparse_score = f32_zero,
        hit_entities = [Entity ''acme''], hit_context = None\<rparr>]))"
proof -
  have "btree_ok [Entity ''acme'']" by (simp add: btree_ok_def)
  then show ?thesis using select_correct by blast
qed

end
