(* ===== verification/Vector_Memory.thy ===== *)
theory Vector_Memory
  imports Backends
begin

text \<open>
  \<^verbatim>\<open>src/backends/vector_memory.rs\<close>: the in-memory vector store, brute-force cosine retrieval
  with a BM25 index over the stored contexts. The index is shown to hold exactly the statistics of
  the documents it was given (\<open>bm25_repr\<close>), the store to meet the contract \<open>vector_store\<close>, and
  a query to return the best candidates of the namespace. Parameters: \<open>lower\<close> is
  \<open>str::to_lowercase\<close>, \<open>f32_ln\<close> the platform's \<open>f32::f32_ln\<close>, and the two ranks give the
  iteration orders of the hash map of entries and of the hash set of query terms. Counters are
  naturals: they count tokens and documents held in memory, far below the width of the machine
  integers, and \<open>bm25_repr\<close> shows that no decrement goes below zero.
\<close>

section \<open>The BM25 index\<close>

definition DEFAULT_BM25_K1 :: f32 where "DEFAULT_BM25_K1 = F32 0x3F99999A"
definition DEFAULT_BM25_B :: f32 where "DEFAULT_BM25_B = F32 0x3F400000"

definition tokenize :: "(string \<Rightarrow> string) \<Rightarrow> string \<Rightarrow> string list" where
  "tokenize lower text = map lower (split_whitespace text)"

record bm25_index =
  document_frequency :: "string \<rightharpoonup> nat"
  term_frequency :: "entry_id \<rightharpoonup> (string, nat) hash_map"
  document_length :: "entry_id \<rightharpoonup> nat"
  total_length :: nat
  document_count :: nat

definition bm25_new :: bm25_index where
  "bm25_new = \<lparr>document_frequency = Map.empty, term_frequency = Map.empty,
     document_length = Map.empty, total_length = 0, document_count = 0\<rparr>"

definition or_zero :: "nat option \<Rightarrow> nat" where
  "or_zero n = (case n of None \<Rightarrow> 0 | Some k \<Rightarrow> k)"

text \<open>The loop over the terms of one document; increments of different terms commute, so the order
  of the keys plays no role.\<close>

fun df_drop :: "string list \<Rightarrow> (string \<rightharpoonup> nat) \<Rightarrow> (string \<rightharpoonup> nat)" where
  "df_drop [] df = df"
| "df_drop (t # ts) df =
     df_drop ts (case df t of
                   Some c \<Rightarrow> if c - 1 = 0 then df(t := None) else df(t \<mapsto> c - 1)
                 | None \<Rightarrow> df)"

definition bm25_remove :: "entry_id \<Rightarrow> bm25_index \<Rightarrow> bm25_index" where
  "bm25_remove i idx =
     (case term_frequency idx i of
        None \<Rightarrow> idx
      | Some tf \<Rightarrow>
          idx\<lparr>term_frequency := (term_frequency idx)(i := None),
              document_frequency := df_drop (map fst tf) (document_frequency idx),
              document_length := (document_length idx)(i := None),
              total_length := (case document_length idx i of
                 Some len \<Rightarrow> total_length idx - len | None \<Rightarrow> total_length idx),
              document_count := document_count idx - 1\<rparr>)"

fun count_tokens :: "string list \<Rightarrow> (string, nat) hash_map \<Rightarrow> nat \<Rightarrow> (string, nat) hash_map \<times> nat" where
  "count_tokens [] tf len = (tf, len)"
| "count_tokens (t # ts) tf len =
     count_tokens ts (hm_insert t (or_zero (hm_get tf t) + 1) tf) (len + 1)"

fun df_add :: "string list \<Rightarrow> (string \<rightharpoonup> nat) \<Rightarrow> (string \<rightharpoonup> nat)" where
  "df_add [] df = df"
| "df_add (t # ts) df = df_add ts (df(t \<mapsto> or_zero (df t) + 1))"

definition bm25_insert :: "(string \<Rightarrow> string) \<Rightarrow> entry_id \<Rightarrow> string \<Rightarrow> bm25_index \<Rightarrow> bm25_index" where
  "bm25_insert lower i text idx0 =
     (let idx = bm25_remove i idx0;
          (tf, len) = count_tokens (tokenize lower text) [] 0
      in idx\<lparr>document_frequency := df_add (map fst tf) (document_frequency idx),
             total_length := total_length idx + len,
             document_length := (document_length idx)(i \<mapsto> len),
             term_frequency := (term_frequency idx)(i \<mapsto> tf),
             document_count := document_count idx + 1\<rparr>)"

definition index_context :: "(string \<Rightarrow> string) \<Rightarrow> vector_entry \<Rightarrow> bm25_index \<Rightarrow> bm25_index" where
  "index_context lower entry idx =
     (case ve_context entry of
        Some c \<Rightarrow> bm25_insert lower (ve_id entry) (ctx_str c) idx
      | None \<Rightarrow> idx)"

definition bm25_idf :: "(f32 \<Rightarrow> f32) \<Rightarrow> bm25_index \<Rightarrow> string \<Rightarrow> f32" where
  "bm25_idf f32_ln idx t =
     (let n = f32_of_nat (document_count idx);
          df = f32_of_nat (or_zero (document_frequency idx t));
          half = F32 0x3F000000
      in f32_ln (f32_add f32_one (f32_div (f32_add (f32_sub n df) half) (f32_add df half))))"

text \<open>One round of the loop of \<open>score\<close>: the numerator and the upper bound so far.\<close>

definition bm25_round ::
  "(f32 \<Rightarrow> f32) \<Rightarrow> bm25_index \<Rightarrow> (string, nat) hash_map \<Rightarrow> f32 \<Rightarrow> f32 \<Rightarrow> f32 \<times> f32 \<Rightarrow> string
   \<Rightarrow> f32 \<times> f32" where
  "bm25_round f32_ln idx tfs len average acc t =
     (let (numerator, upper_bound) = acc;
          idf = bm25_idf f32_ln idx t;
          upper_bound' = f32_add upper_bound (f32_mul idf (f32_add DEFAULT_BM25_K1 f32_one));
          tf = f32_of_nat (or_zero (hm_get tfs t))
      in if f32_lt f32_zero tf then
           let denominator = f32_add tf (f32_mul DEFAULT_BM25_K1
                 (f32_add (f32_sub f32_one DEFAULT_BM25_B)
                   (f32_div (f32_mul DEFAULT_BM25_B len) average)))
           in (f32_add numerator
                 (f32_div (f32_mul idf (f32_mul tf (f32_add DEFAULT_BM25_K1 f32_one))) denominator),
               upper_bound')
         else (numerator, upper_bound'))"

definition bm25_score ::
  "(f32 \<Rightarrow> f32) \<Rightarrow> (string \<Rightarrow> nat) \<Rightarrow> bm25_index \<Rightarrow> entry_id \<Rightarrow> string list \<Rightarrow> f32" where
  "bm25_score f32_ln term_order idx i query_terms =
     (if document_count idx = 0 \<or> query_terms = [] then f32_zero
      else case term_frequency idx i of
             None \<Rightarrow> f32_zero
           | Some tfs \<Rightarrow>
               let len = f32_of_nat (or_zero (document_length idx i));
                   average = f32_div (f32_of_nat (total_length idx)) (f32_of_nat (document_count idx));
                   (numerator, upper_bound) =
                     foldl (bm25_round f32_ln idx tfs len average) (f32_zero, f32_zero)
                       (hs_iter term_order query_terms)
               in if f32_le upper_bound f32_zero then f32_zero
                  else f32_clamp f32_zero f32_one (f32_div numerator upper_bound))"

section \<open>The store\<close>

record shard =
  shard_dim :: dim
  shard_entries :: "(entry_id, vector_entry) hash_map"
  shard_bm25 :: bm25_index

record memory_store =
  shards :: "namespace \<rightharpoonup> shard"

definition memory_new :: memory_store where
  "memory_new = \<lparr>shards = Map.empty\<rparr>"

definition memory_upsert ::
  "(string \<Rightarrow> string) \<Rightarrow> namespace \<Rightarrow> vector_entry \<Rightarrow> memory_store \<Rightarrow> unit res \<times> memory_store" where
  "memory_upsert lower ns entry s =
     (let dim = emb_dim (ve_vector entry) in
      case shards s ns of
        Some shard \<Rightarrow>
          if dim \<noteq> shard_dim shard
          then (Inl (DimMismatch (dim_get dim) (dim_get (shard_dim shard))), s)
          else (Inr (), s\<lparr>shards := (shards s)(ns \<mapsto>
                  shard\<lparr>shard_bm25 := index_context lower entry (shard_bm25 shard),
                        shard_entries := hm_insert (ve_id entry) entry (shard_entries shard)\<rparr>)\<rparr>)
      | None \<Rightarrow>
          (Inr (), s\<lparr>shards := (shards s)(ns \<mapsto>
             \<lparr>shard_dim = dim, shard_entries = hm_insert (ve_id entry) entry [],
              shard_bm25 = index_context lower entry bm25_new\<rparr>)\<rparr>))"

definition memory_hit ::
  "(f32 \<Rightarrow> f32) \<Rightarrow> (string \<Rightarrow> nat) \<Rightarrow> shard \<Rightarrow> string list option \<Rightarrow> vector_entry \<Rightarrow> f32 \<Rightarrow> scored_hit" where
  "memory_hit f32_ln term_order shard context_terms entry dense =
     \<lparr>hit_id = ve_id entry, dense_score = dense,
      sparse_score = (case context_terms of
          Some terms \<Rightarrow> bm25_score f32_ln term_order (shard_bm25 shard) (ve_id entry) terms
        | None \<Rightarrow> f32_zero),
      hit_entities = ve_entities entry, hit_context = ve_context entry\<rparr>"

fun memory_scan ::
  "(f32 \<Rightarrow> f32) \<Rightarrow> (string \<Rightarrow> nat) \<Rightarrow> shard \<Rightarrow> embedding \<Rightarrow> string list option \<Rightarrow> filter_spec
   \<Rightarrow> vector_entry list \<Rightarrow> scored_hit list \<Rightarrow> scored_hit list res" where
  "memory_scan f32_ln term_order shard vec terms f [] hits = Inr hits"
| "memory_scan f32_ln term_order shard vec terms f (entry # es) hits =
     (if \<not> btree_is_subset (keys_all f) (ve_keys entry)
      then memory_scan f32_ln term_order shard vec terms f es hits
      else if entities_any f \<noteq> [] \<and> btree_is_disjoint (entities_any f) (ve_entities entry)
      then memory_scan f32_ln term_order shard vec terms f es hits
      else try_bind (embedding_dot vec (ve_vector entry)) (\<lambda>dense.
             memory_scan f32_ln term_order shard vec terms f es
               (hits @ [memory_hit f32_ln term_order shard terms entry dense])))"

text \<open>\<open>sort_by(|a, b| b.dense_score.total_cmp(&a.dense_score))\<close>, a stable sort.\<close>

definition sort_by_dense :: "scored_hit list \<Rightarrow> scored_hit list" where
  "sort_by_dense hits = sort_key (\<lambda>h. - f32_total_key (dense_score h)) hits"

definition memory_query ::
  "(string \<Rightarrow> string) \<Rightarrow> (f32 \<Rightarrow> f32) \<Rightarrow> (entry_id \<Rightarrow> nat) \<Rightarrow> (string \<Rightarrow> nat) \<Rightarrow> namespace \<Rightarrow> embedding
   \<Rightarrow> ctx option \<Rightarrow> filter_spec \<Rightarrow> nat \<Rightarrow> memory_store \<Rightarrow> scored_hit list res \<times> memory_store" where
  "memory_query lower f32_ln order term_order ns vec query_context f top_k s =
     (case shards s ns of
        None \<Rightarrow> (Inr [], s)
      | Some shard \<Rightarrow>
          if emb_dim vec \<noteq> shard_dim shard
          then (Inl (DimMismatch (dim_get (emb_dim vec)) (dim_get (shard_dim shard))), s)
          else
            let context_terms = map_option (\<lambda>c. remdups (tokenize lower (ctx_str c))) query_context
            in (try_bind (memory_scan f32_ln term_order shard vec context_terms f
                           (hm_values order (shard_entries shard)) [])
                  (\<lambda>hits. Inr (take top_k (sort_by_dense hits))), s))"

definition memory_delete :: "namespace \<Rightarrow> entry_id \<Rightarrow> memory_store \<Rightarrow> unit res \<times> memory_store" where
  "memory_delete ns i s =
     (case shards s ns of
        Some shard \<Rightarrow>
          (Inr (), s\<lparr>shards := (shards s)(ns \<mapsto>
             shard\<lparr>shard_entries := hm_remove i (shard_entries shard),
                   shard_bm25 := bm25_remove i (shard_bm25 shard)\<rparr>)\<rparr>)
      | None \<Rightarrow> (Inr (), s))"

definition memory_backend ::
  "(string \<Rightarrow> string) \<Rightarrow> (f32 \<Rightarrow> f32) \<Rightarrow> (entry_id \<Rightarrow> nat) \<Rightarrow> (string \<Rightarrow> nat)
   \<Rightarrow> memory_store vector_backend" where
  "memory_backend lower f32_ln order term_order =
     \<lparr>vb_upsert = memory_upsert lower, vb_query = memory_query lower f32_ln order term_order,
      vb_delete = memory_delete\<rparr>"

section \<open>The index holds the statistics of its documents\<close>

text \<open>
  \<open>bm25_repr lower idx docs\<close>: every counter of the index is the statistic it is named after,
  for the documents \<open>docs\<close>.
\<close>

definition doc_terms :: "(string \<Rightarrow> string) \<Rightarrow> (entry_id \<rightharpoonup> string) \<Rightarrow> entry_id \<Rightarrow> string set" where
  "doc_terms lower docs i = (case docs i of None \<Rightarrow> {} | Some d \<Rightarrow> set (tokenize lower d))"

definition docs_with :: "(string \<Rightarrow> string) \<Rightarrow> (entry_id \<rightharpoonup> string) \<Rightarrow> string \<Rightarrow> entry_id set" where
  "docs_with lower docs t = {i. t \<in> doc_terms lower docs i}"

definition bm25_repr :: "(string \<Rightarrow> string) \<Rightarrow> bm25_index \<Rightarrow> (entry_id \<rightharpoonup> string) \<Rightarrow> bool" where
  "bm25_repr lower idx docs \<longleftrightarrow>
     finite (dom docs)
     \<and> (\<forall>t. document_frequency idx t =
          (if docs_with lower docs t = {} then None else Some (card (docs_with lower docs t))))
     \<and> (\<forall>i. term_frequency idx i =
          map_option (\<lambda>d. fst (count_tokens (tokenize lower d) [] 0)) (docs i))
     \<and> (\<forall>i. document_length idx i = map_option (\<lambda>d. length (tokenize lower d)) (docs i))
     \<and> total_length idx = (\<Sum>i \<in> dom docs. length (tokenize lower (the (docs i))))
     \<and> document_count idx = card (dom docs)"

lemma or_zero_simps [simp]: "or_zero None = 0" "or_zero (Some n) = n"
  by (simp_all add: or_zero_def)

lemma count_tokens_length: "snd (count_tokens ts tf len) = len + length ts"
  by (induction ts arbitrary: tf len) auto

lemma count_tokens_keys:
  "hm_ok tf \<Longrightarrow> hm_ok (fst (count_tokens ts tf len))
   \<and> fst ` set (fst (count_tokens ts tf len)) = fst ` set tf \<union> set ts"
proof (induction ts arbitrary: tf len)
  case (Cons t ts)
  have "fst ` set (hm_insert t v tf) = insert t (fst ` set tf)" for v
    by (simp add: hm_insert_def dom_update)
  with Cons show ?case by auto
qed simp

lemma count_tokens_get:
  "or_zero (hm_get (fst (count_tokens ts tf len)) t) = or_zero (hm_get tf t) + count_list ts t"
  by (induction ts arbitrary: tf len) auto

lemma df_add_get:
  "distinct ts \<Longrightarrow> df_add ts df t = (if t \<in> set ts then Some (or_zero (df t) + 1) else df t)"
  by (induction ts arbitrary: df) auto

lemma df_drop_get:
  "distinct ts \<Longrightarrow> df_drop ts df t =
     (if t \<in> set ts then (case df t of Some c \<Rightarrow> if c - 1 = 0 then None else Some (c - 1) | None \<Rightarrow> None)
      else df t)"
  by (induction ts arbitrary: df) (auto split: option.splits)

lemma finite_docs_with: "finite (dom docs) \<Longrightarrow> finite (docs_with lower docs t)"
  by (rule finite_subset[of _ "dom docs"])
    (auto simp: docs_with_def doc_terms_def split: option.splits)

lemma docs_with_del: "docs_with lower (docs(i := None)) t = docs_with lower docs t - {i}"
  by (auto simp: docs_with_def doc_terms_def split: if_splits)

lemma docs_with_add:
  "docs_with lower (docs(i \<mapsto> d)) t =
     (if t \<in> set (tokenize lower d) then insert i (docs_with lower (docs(i := None)) t)
      else docs_with lower (docs(i := None)) t)"
  by (auto simp: docs_with_def doc_terms_def split: if_splits)

lemma bm25_repr_new: "bm25_repr lower bm25_new Map.empty"
  by (simp add: bm25_repr_def bm25_new_def docs_with_def doc_terms_def)

lemma bm25_remove_repr:
  assumes "bm25_repr lower idx docs"
  shows "bm25_repr lower (bm25_remove i idx) (docs(i := None))"
proof (cases "docs i")
  case None
  moreover from this have "docs(i := None) = docs" by auto
  ultimately show ?thesis using assms by (simp add: bm25_repr_def bm25_remove_def)
next
  case (Some d)
  let ?ts = "map fst (fst (count_tokens (tokenize lower d) [] 0))"
  from assms have fin: "finite (dom docs)" by (simp add: bm25_repr_def)
  have ts: "distinct ?ts" "set ?ts = set (tokenize lower d)"
    using count_tokens_keys[of "[]" "tokenize lower d" 0] by (simp_all add: hm_ok_def)
  have df: "df_drop ?ts (document_frequency idx) t =
      (if docs_with lower (docs(i := None)) t = {} then None
       else Some (card (docs_with lower (docs(i := None)) t)))" for t
  proof -
    have "i \<in> docs_with lower docs t \<longleftrightarrow> t \<in> set (tokenize lower d)"
      using Some by (simp add: docs_with_def doc_terms_def)
    moreover have "card (docs_with lower docs t - {i}) = 0 \<longleftrightarrow> docs_with lower docs t - {i} = {}"
      using finite_docs_with[OF fin, of lower t] by simp
    ultimately show ?thesis
      using assms finite_docs_with[OF fin, of lower t] ts
      by (auto simp: bm25_repr_def df_drop_get docs_with_del card_Diff_singleton_if)
  qed
  have "(\<Sum>j \<in> dom docs. length (tokenize lower (the (docs j)))) =
      length (tokenize lower d) + (\<Sum>j \<in> dom docs - {i}. length (tokenize lower (the (docs j))))"
    using Some fin by (subst sum.remove[of _ i]) auto
  then have total: "total_length idx - length (tokenize lower d) =
      (\<Sum>j \<in> dom docs - {i}. length (tokenize lower (the ((docs(i := None)) j))))"
    using assms by (simp add: bm25_repr_def)
  have tf: "term_frequency idx i = Some (fst (count_tokens (tokenize lower d) [] 0))"
    and len: "document_length idx i = Some (length (tokenize lower d))"
    using assms Some by (simp_all add: bm25_repr_def)
  show ?thesis
    using assms Some fin total df unfolding bm25_repr_def bm25_remove_def tf len
    by (simp add: card_Diff_singleton domIff)
qed

lemma bm25_remove_absent: "term_frequency (bm25_remove i idx) i = None"
  by (simp add: bm25_remove_def split: option.splits)

lemma bm25_insert_repr:
  assumes "bm25_repr lower idx docs"
  shows "bm25_repr lower (bm25_insert lower i d idx) (docs(i \<mapsto> d))"
proof -
  let ?docs = "docs(i := None)" and ?idx = "bm25_remove i idx"
  obtain tf len where count: "count_tokens (tokenize lower d) [] 0 = (tf, len)" by fastforce
  have repr: "bm25_repr lower ?idx ?docs" by (rule bm25_remove_repr[OF assms])
  then have fin: "finite (dom ?docs)" by (simp add: bm25_repr_def)
  have ts: "distinct (map fst tf)" "set (map fst tf) = set (tokenize lower d)"
    using count_tokens_keys[of "[]" "tokenize lower d" 0] count by (simp_all add: hm_ok_def)
  have len: "len = length (tokenize lower d)"
    using count_tokens_length[of "tokenize lower d" "[]" 0] count by simp
  have "i \<notin> docs_with lower ?docs t" for t by (simp add: docs_with_def doc_terms_def)
  then have df: "df_add (map fst tf) (document_frequency ?idx) t =
      (if docs_with lower (docs(i \<mapsto> d)) t = {} then None
       else Some (card (docs_with lower (docs(i \<mapsto> d)) t)))" for t
    using repr ts finite_docs_with[OF fin, of lower t]
    unfolding bm25_repr_def docs_with_add df_add_get[OF ts(1)] ts(2) by simp
  have dom: "dom (docs(i \<mapsto> d)) = insert i (dom ?docs)" by auto
  have total: "(\<Sum>j \<in> dom (docs(i \<mapsto> d)). length (tokenize lower (the ((docs(i \<mapsto> d)) j)))) =
      (\<Sum>j \<in> dom ?docs. length (tokenize lower (the (?docs j)))) + length (tokenize lower d)"
    using fin unfolding dom by (subst sum.insert) (auto intro: sum.cong)
  have "card (dom (docs(i \<mapsto> d))) = card (dom ?docs) + 1"
    using fin unfolding dom by (simp add: card.insert_remove)
  with repr df total fin len count show ?thesis
    unfolding bm25_insert_def bm25_repr_def Let_def
    by (simp add: domIff count)
qed


section \<open>The store meets the contract\<close>

definition memory_entries :: "memory_store \<Rightarrow> namespace \<Rightarrow> entry_id \<Rightarrow> vector_entry option" where
  "memory_entries s ns i =
     (case shards s ns of None \<Rightarrow> None | Some shard \<Rightarrow> hm_get (shard_entries shard) i)"

text \<open>The index may hold more than the current contexts only for entries whose context was dropped
  by a later upsert under the same id; the index never holds an id that is not stored.\<close>

definition shard_ok :: "(string \<Rightarrow> string) \<Rightarrow> shard \<Rightarrow> bool" where
  "shard_ok lower shard \<longleftrightarrow>
     hm_ok (shard_entries shard)
     \<and> (\<forall>i e. hm_get (shard_entries shard) i = Some e \<longrightarrow>
          ve_id e = i \<and> emb_dim (ve_vector e) = shard_dim shard)
     \<and> (\<exists>docs. bm25_repr lower (shard_bm25 shard) docs
          \<and> (\<forall>i d. docs i = Some d \<longrightarrow> hm_get (shard_entries shard) i \<noteq> None)
          \<and> (\<forall>i e c. hm_get (shard_entries shard) i = Some e \<longrightarrow> ve_context e = Some c
               \<longrightarrow> docs i = Some (ctx_str c)))"

definition memory_ok :: "(string \<Rightarrow> string) \<Rightarrow> memory_store \<Rightarrow> bool" where
  "memory_ok lower s \<longleftrightarrow> (\<forall>ns shard. shards s ns = Some shard \<longrightarrow> shard_ok lower shard)"

lemma memory_ok_new: "memory_ok lower memory_new"
  by (simp add: memory_ok_def memory_new_def)

lemma memory_okI:
  "memory_ok lower s \<Longrightarrow> shard_ok lower shard \<Longrightarrow> memory_ok lower (s\<lparr>shards := (shards s)(ns \<mapsto> shard)\<rparr>)"
  by (simp add: memory_ok_def)

lemma shard_ok_upsert:
  assumes "shard_ok lower shard" and "emb_dim (ve_vector e) = shard_dim shard"
  shows "shard_ok lower (shard\<lparr>shard_bm25 := index_context lower e (shard_bm25 shard),
           shard_entries := hm_insert (ve_id e) e (shard_entries shard)\<rparr>)"
proof -
  from assms(1) obtain docs where docs: "bm25_repr lower (shard_bm25 shard) docs"
    "\<And>i d. docs i = Some d \<Longrightarrow> hm_get (shard_entries shard) i \<noteq> None"
    "\<And>i e c. hm_get (shard_entries shard) i = Some e \<Longrightarrow> ve_context e = Some c \<Longrightarrow> docs i = Some (ctx_str c)"
    by (auto simp: shard_ok_def)
  let ?docs = "case ve_context e of None \<Rightarrow> docs | Some c \<Rightarrow> docs(ve_id e \<mapsto> ctx_str c)"
  have "bm25_repr lower (index_context lower e (shard_bm25 shard)) ?docs"
    using docs(1) by (auto simp: index_context_def bm25_insert_repr split: option.splits)
  then show ?thesis
    using assms docs(2,3) unfolding shard_ok_def
    by (intro conjI exI[of _ ?docs]) (auto split: option.splits if_splits)
qed

lemma shard_ok_delete:
  assumes "shard_ok lower shard"
  shows "shard_ok lower (shard\<lparr>shard_entries := hm_remove i (shard_entries shard),
           shard_bm25 := bm25_remove i (shard_bm25 shard)\<rparr>)"
proof -
  from assms obtain docs where docs: "bm25_repr lower (shard_bm25 shard) docs"
    "\<And>i d. docs i = Some d \<Longrightarrow> hm_get (shard_entries shard) i \<noteq> None"
    "\<And>i e c. hm_get (shard_entries shard) i = Some e \<Longrightarrow> ve_context e = Some c \<Longrightarrow> docs i = Some (ctx_str c)"
    by (auto simp: shard_ok_def)
  show ?thesis
    using assms docs(2,3) bm25_remove_repr[OF docs(1), of i] unfolding shard_ok_def
    by (intro conjI exI[of _ "docs(i := None)"]) (auto split: if_splits)
qed

lemma shard_ok_empty:
  "shard_ok lower \<lparr>shard_dim = d, shard_entries = [], shard_bm25 = bm25_new\<rparr>"
  using bm25_repr_new[of lower] by (auto simp: shard_ok_def)

lemma shard_ok_single:
  "shard_ok lower \<lparr>shard_dim = emb_dim (ve_vector e), shard_entries = hm_insert (ve_id e) e [],
     shard_bm25 = index_context lower e bm25_new\<rparr>"
  using shard_ok_upsert[OF shard_ok_empty[of lower "emb_dim (ve_vector e)"], of e] by simp

lemma memory_upsert_ok:
  assumes "memory_ok lower s" and "memory_upsert lower ns e s = (r, s')"
  shows "memory_ok lower s'"
  using assms
  by (auto simp: memory_upsert_def Let_def memory_ok_def shard_ok_upsert shard_ok_single
      split: option.splits if_splits)

lemma memory_delete_ok:
  assumes "memory_ok lower s" and "memory_delete ns i s = (r, s')"
  shows "memory_ok lower s'"
  using assms
  by (auto simp: memory_delete_def memory_ok_def shard_ok_delete split: option.splits if_splits)

lemma memory_upsert_dim:
  "memory_upsert lower ns e s = (Inr (), s') \<Longrightarrow>
     \<exists>shard. shards s' ns = Some shard \<and> shard_dim shard = emb_dim (ve_vector e)"
  by (auto simp: memory_upsert_def Let_def split: option.splits if_splits)

text \<open>The scan of a well-formed shard never fails, and keeps exactly the entries the filter passes.\<close>

lemma memory_scan_result:
  assumes "\<forall>e \<in> set es. emb_dim (ve_vector e) = emb_dim vec"
  shows "memory_scan f32_ln term_order shard vec terms f es hits =
    Inr (hits @ map (\<lambda>e. memory_hit f32_ln term_order shard terms e
           (f32_sum (map (\<lambda>(x, y). f32_mul x y) (zip (emb_values vec) (emb_values (ve_vector e))))))
         (filter (passes_filter f) es))"
  using assms
  by (induction es arbitrary: hits)
    (auto simp: embedding_dot_def passes_filter_def)


text \<open>The candidate hits of a query, in iteration order.\<close>

definition memory_candidates ::
  "(string \<Rightarrow> string) \<Rightarrow> (f32 \<Rightarrow> f32) \<Rightarrow> (entry_id \<Rightarrow> nat) \<Rightarrow> (string \<Rightarrow> nat) \<Rightarrow> shard \<Rightarrow> embedding
   \<Rightarrow> ctx option \<Rightarrow> filter_spec \<Rightarrow> scored_hit list" where
  "memory_candidates lower f32_ln order term_order shard vec c f =
     map (\<lambda>e. memory_hit f32_ln term_order shard
              (map_option (\<lambda>c. remdups (tokenize lower (ctx_str c))) c) e
              (f32_sum (map (\<lambda>(x, y). f32_mul x y) (zip (emb_values vec) (emb_values (ve_vector e))))))
       (filter (passes_filter f) (hm_values order (shard_entries shard)))"

lemma set_hm_values:
  "hm_ok m \<Longrightarrow> v \<in> set (hm_values order m) \<longleftrightarrow> (\<exists>k. hm_get m k = Some v)"
  by (auto simp: hm_values_def image_iff hm_in_set_iff[symmetric] Bex_def)

lemma memory_query_result:
  assumes "memory_ok lower s"
  shows "memory_query lower f32_ln order term_order ns vec c f k s =
    (case shards s ns of
       None \<Rightarrow> Inr []
     | Some shard \<Rightarrow>
         if emb_dim vec \<noteq> shard_dim shard
         then Inl (DimMismatch (dim_get (emb_dim vec)) (dim_get (shard_dim shard)))
         else Inr (take k (sort_by_dense
                (memory_candidates lower f32_ln order term_order shard vec c f))), s)"
proof (cases "shards s ns")
  case (Some shard)
  with assms have "shard_ok lower shard" by (simp add: memory_ok_def)
  then have "\<forall>e \<in> set (hm_values order (shard_entries shard)). emb_dim (ve_vector e) = shard_dim shard"
    using set_hm_values[of "shard_entries shard"] by (fastforce simp: shard_ok_def)
  with Some show ?thesis
    by (simp add: memory_query_def memory_scan_result memory_candidates_def Let_def)
qed (simp add: memory_query_def)

lemma memory_candidates_sound:
  assumes "shard_ok lower shard" "emb_dim vec = shard_dim shard"
    and "h \<in> set (memory_candidates lower f32_ln order term_order shard vec c f)"
  shows "\<exists>e. hm_get (shard_entries shard) (hit_id h) = Some e \<and> hit_stands_for h e
    \<and> passes_filter f e \<and> embedding_dot vec (ve_vector e) = Inr (dense_score h)
    \<and> sparse_score h = (case c of
          None \<Rightarrow> f32_zero
        | Some ctx \<Rightarrow> bm25_score f32_ln term_order (shard_bm25 shard) (ve_id e) (remdups (tokenize lower (ctx_str ctx))))"
proof -
  from assms(3) obtain e where e: "e \<in> set (hm_values order (shard_entries shard))" "passes_filter f e"
    and h: "hit_id h = ve_id e" "hit_stands_for h e"
      "dense_score h = f32_sum (map (\<lambda>(x, y). f32_mul x y) (zip (emb_values vec) (emb_values (ve_vector e))))"
      "sparse_score h = (case c of
          None \<Rightarrow> f32_zero
        | Some ctx \<Rightarrow> bm25_score f32_ln term_order (shard_bm25 shard) (ve_id e) (remdups (tokenize lower (ctx_str ctx))))"
    by (cases c) (auto simp: memory_candidates_def memory_hit_def hit_stands_for_def)
  from assms(1) e(1) have "hm_get (shard_entries shard) (ve_id e) = Some e"
    "emb_dim (ve_vector e) = shard_dim shard"
    using set_hm_values[of "shard_entries shard" e order] by (auto simp: shard_ok_def)
  with e(2) h assms(2) show ?thesis by (auto simp: embedding_dot_def)
qed

lemma memory_candidates_complete:
  assumes "shard_ok lower shard" "emb_dim vec = shard_dim shard"
    and "hm_get (shard_entries shard) i = Some e" "passes_filter f e"
  shows "\<exists>h \<in> set (memory_candidates lower f32_ln order term_order shard vec c f).
    hit_id h = i \<and> embedding_dot vec (ve_vector e) = Inr (dense_score h)"
proof -
  have "e \<in> set (hm_values order (shard_entries shard))"
    using assms set_hm_values[of "shard_entries shard"] by (auto simp: shard_ok_def)
  with assms show ?thesis
    by (auto simp: memory_candidates_def memory_hit_def shard_ok_def embedding_dot_def intro!: imageI)
qed

lemma memory_candidates_distinct:
  assumes "shard_ok lower shard"
  shows "distinct (map hit_id (memory_candidates lower f32_ln order term_order shard vec c f))"
proof -
  let ?m = "shard_entries shard"
  from assms have ok: "hm_ok ?m" and ids: "\<And>k e. (k, e) \<in> set ?m \<Longrightarrow> ve_id e = k"
    by (auto simp: shard_ok_def hm_in_set_iff)
  have "map ve_id (hm_values order ?m) = map fst (hm_iter order ?m)"
    by (auto simp: hm_values_def ids)
  then have "distinct (map ve_id (filter (passes_filter f) (hm_values order ?m)))"
    using distinct_hm_iter[OF ok, of order] by (metis distinct_map_filter)
  then show ?thesis by (simp add: memory_candidates_def memory_hit_def comp_def)
qed

lemma sort_by_dense_perm [simp]: "mset (sort_by_dense hits) = mset hits" "set (sort_by_dense hits) = set hits"
  by (simp_all add: sort_by_dense_def)

lemma sort_by_dense_sorted:
  "sorted_wrt (\<lambda>a b. \<not> f32_total_gt (dense_score b) (dense_score a)) (sort_by_dense hits)"
proof -
  have "sorted (map (\<lambda>h. - f32_total_key (dense_score h)) (sort_by_dense hits))"
    by (simp add: sort_by_dense_def)
  then show ?thesis
    by (simp add: sorted_map f32_total_gt_def not_less)
qed

lemma distinct_sort_by_dense: "distinct (map f (sort_by_dense hits)) = distinct (map f hits)"
  by (metis mset_eq_imp_distinct_iff mset_map sort_by_dense_perm(1))

text \<open>The scores of a hit of the entry \<open>e\<close>: the cosine of the query's and the entry's embedding, and the BM25
  score of the entry's context for the terms of the query's context.\<close>

definition memory_scores ::
  "(string \<Rightarrow> string) \<Rightarrow> (f32 \<Rightarrow> f32) \<Rightarrow> (string \<Rightarrow> nat) \<Rightarrow> memory_store \<Rightarrow> namespace \<Rightarrow> embedding \<Rightarrow> ctx option
   \<Rightarrow> vector_entry \<Rightarrow> scored_hit \<Rightarrow> bool" where
  "memory_scores lower f32_ln term_order s ns vec c e h \<longleftrightarrow>
     embedding_dot vec (ve_vector e) = Inr (dense_score h)
     \<and> (\<exists>shard. shards s ns = Some shard \<and> sparse_score h = (case c of
          None \<Rightarrow> f32_zero
        | Some ctx \<Rightarrow> bm25_score f32_ln term_order (shard_bm25 shard) (ve_id e) (remdups (tokenize lower (ctx_str ctx)))))"

lemma memory_query_scores:
  assumes "memory_ok lower s" and "memory_query lower f32_ln order term_order ns vec c f k s = (Inr hits, s')"
    and "h \<in> set hits"
  shows "\<exists>e. memory_entries s ns (hit_id h) = Some e \<and> hit_stands_for h e
    \<and> passes_filter f e \<and> memory_scores lower f32_ln term_order s ns vec c e h"
proof -
  from assms(2,3) obtain shard where sh: "shards s ns = Some shard" "emb_dim vec = shard_dim shard"
    and h: "h \<in> set (memory_candidates lower f32_ln order term_order shard vec c f)"
    by (auto simp: memory_query_result[OF assms(1)] split: option.splits if_splits dest!: in_set_takeD)
  have "shard_ok lower shard" using assms(1) sh(1) by (simp add: memory_ok_def)
  from memory_candidates_sound[OF this sh(2) h] sh(1) show ?thesis
    by (simp add: memory_entries_def memory_scores_def)
qed

lemma memory_query_dense:
  assumes "memory_ok lower s" and "memory_query lower f32_ln order term_order ns vec c f k s = (Inr hits, s')"
    and "h \<in> set hits"
  shows "\<exists>e. memory_entries s ns (hit_id h) = Some e \<and> hit_stands_for h e
    \<and> passes_filter f e \<and> embedding_dot vec (ve_vector e) = Inr (dense_score h)"
  using memory_query_scores[OF assms] unfolding memory_scores_def by blast

lemma take_sort_by_dense_rest:
  assumes "g \<in> set hits" "g \<notin> set (take k (sort_by_dense hits))"
  shows "length (take k (sort_by_dense hits)) = k
    \<and> (\<forall>h \<in> set (take k (sort_by_dense hits)). \<not> f32_total_gt (dense_score g) (dense_score h))"
proof -
  let ?s = "sort_by_dense hits"
  have g: "g \<in> set (drop k ?s)"
    using assms by (metis Un_iff append_take_drop_id set_append sort_by_dense_perm(2))
  then have "k < length ?s" by (cases "k < length ?s") auto
  moreover have "sorted_wrt (\<lambda>a b. \<not> f32_total_gt (dense_score b) (dense_score a)) (take k ?s @ drop k ?s)"
    using sort_by_dense_sorted[of hits] by simp
  then have "\<forall>h \<in> set (take k ?s). \<not> f32_total_gt (dense_score g) (dense_score h)"
    using g unfolding sorted_wrt_append by blast
  ultimately show ?thesis by simp
qed

interpretation mem: vector_store "memory_upsert lower" "memory_query lower f32_ln order term_order"
  memory_delete memory_entries "memory_ok lower" "\<lambda>_. True" ns
  for lower f32_ln order term_order ns
proof
  fix s s' e
  assume "memory_ok lower s" "memory_upsert lower ns e s = (Inr (), s')"
  then show "memory_ok lower s' \<and> memory_entries s' = (memory_entries s)(ns := (memory_entries s ns)(ve_id e \<mapsto> e))"
    using memory_upsert_ok[of lower s ns e]
    by (auto simp: memory_upsert_def Let_def memory_entries_def fun_eq_iff split: option.splits if_splits)
next
  fix s s' i
  assume "memory_ok lower s" "memory_delete ns i s = (Inr (), s')"
  then show "memory_ok lower s' \<and> memory_entries s' = (memory_entries s)(ns := (memory_entries s ns)(i := None))"
    using memory_delete_ok[of lower s ns i]
    by (auto simp: memory_delete_def memory_entries_def fun_eq_iff split: option.splits if_splits)
next
  fix s s' vec c f k hits h
  assume ok: "memory_ok lower s" and q: "memory_query lower f32_ln order term_order ns vec c f k s = (Inr hits, s')"
    and h: "h \<in> set hits"
  from memory_query_dense[OF ok q h]
  show "\<exists>e. memory_entries s ns (hit_id h) = Some e \<and> hit_stands_for h e \<and> passes_filter f e" by blast
next
  fix s s' vec c f k hits
  assume ok: "memory_ok lower s" and q: "memory_query lower f32_ln order term_order ns vec c f k s = (Inr hits, s')"
  then show "distinct (map hit_id hits)"
    by (auto simp: memory_query_result[OF ok] memory_ok_def distinct_sort_by_dense
        memory_candidates_distinct take_map[symmetric] distinct_take split: option.splits if_splits)
next
  fix s s' vec c f k hits
  assume ok: "memory_ok lower s" and q: "memory_query lower f32_ln order term_order ns vec c f k s = (Inr hits, s')"
  then show "length hits \<le> k"
    by (auto simp: memory_query_result[OF ok] split: option.splits if_splits)
next
  fix s s' vec c f k hits i e
  assume ok: "memory_ok lower s" and q: "memory_query lower f32_ln order term_order ns vec c f k s = (Inr hits, s')"
    and e: "memory_entries s ns i = Some e" "passes_filter f e" "i \<notin> hit_id ` set hits"
  from q e obtain shard where sh: "shards s ns = Some shard" "emb_dim vec = shard_dim shard"
    and hits: "hits = take k (sort_by_dense (memory_candidates lower f32_ln order term_order shard vec c f))"
    by (auto simp: memory_query_result[OF ok] memory_entries_def split: option.splits if_splits)
  have "shard_ok lower shard" using ok sh by (simp add: memory_ok_def)
  from memory_candidates_complete[OF this sh(2) _ e(2)] e(1) sh(1)
  obtain g where "g \<in> set (memory_candidates lower f32_ln order term_order shard vec c f)" "hit_id g = i"
    by (fastforce simp: memory_entries_def)
  with e(3) take_sort_by_dense_rest[of g _ k] show "length hits = k" unfolding hits by blast
next
  fix s i e
  assume "memory_ok lower s" "memory_entries s ns i = Some e"
  then show "ve_id e = i"
    by (auto simp: memory_entries_def memory_ok_def shard_ok_def split: option.splits)
qed (auto simp: memory_upsert_def memory_delete_def memory_query_def Let_def split: option.splits if_splits)


section \<open>Properties\<close>

text \<open>
  C18. The BM25 index refines the map of the documents it was given: inserting a document and removing
  one keep every counter (document frequencies, term frequencies, lengths, total length, document
  count) equal to the statistic of the updated documents, so no counter drifts or underflows.
\<close>

theorem bm25_refines_documents:
  assumes "bm25_repr lower idx docs"
  shows "bm25_repr lower (bm25_insert lower i text idx) (docs(i \<mapsto> text))
    \<and> bm25_repr lower (bm25_remove i idx) (docs(i := None))"
  using assms bm25_insert_repr bm25_remove_repr by blast

theorem bm25_refines_documents_witness:
  "bm25_repr ascii_lower bm25_new Map.empty \<and>
   bm25_repr ascii_lower (bm25_insert ascii_lower (EntryId [1]) ''Red red fox'' bm25_new)
     [EntryId [1] \<mapsto> ''Red red fox'']"
  using bm25_repr_new[of ascii_lower]
    bm25_refines_documents[OF bm25_repr_new, of ascii_lower "EntryId [1]" "''Red red fox''"] by simp

text \<open>
  C16. A successful query of the in-memory store returns the best matches of the namespace: at most
  \<open>top_k\<close> hits with different ids, by decreasing dense score, each the cosine of a stored entry
  that passes the filter; a stored entry that passes the filter and is not returned has been pushed
  out by \<open>top_k\<close> hits none of which scores lower. For every iteration order of the hash maps.
\<close>

theorem memory_query_best:
  assumes "memory_ok lower s"
    and "memory_query lower f32_ln order term_order ns vec c f k s = (Inr hits, s')"
  shows "s' = s \<and> length hits \<le> k \<and> distinct (map hit_id hits)
    \<and> sorted_wrt (\<lambda>a b. \<not> f32_total_gt (dense_score b) (dense_score a)) hits
    \<and> (\<forall>h \<in> set hits. \<exists>e. memory_entries s ns (hit_id h) = Some e \<and> hit_stands_for h e
          \<and> passes_filter f e \<and> embedding_dot vec (ve_vector e) = Inr (dense_score h))
    \<and> (\<forall>i e. memory_entries s ns i = Some e \<and> passes_filter f e \<and> i \<notin> hit_id ` set hits \<longrightarrow>
          length hits = k \<and> (\<exists>d. embedding_dot vec (ve_vector e) = Inr d
             \<and> (\<forall>h \<in> set hits. \<not> f32_total_gt d (dense_score h))))"
proof (cases "shards s ns")
  case None
  with assms show ?thesis by (simp add: memory_query_result memory_entries_def)
next
  case (Some shard)
  define cs where "cs = memory_candidates lower f32_ln order term_order shard vec c f"
  from assms Some have ok: "shard_ok lower shard" by (simp add: memory_ok_def)
  from assms Some have dim: "emb_dim vec = shard_dim shard" and hits: "hits = take k (sort_by_dense cs)"
    and s': "s' = s"
    by (auto simp: memory_query_result[OF assms(1)] cs_def split: if_splits)
  have "length hits = k \<and> (\<exists>d. embedding_dot vec (ve_vector e) = Inr d
      \<and> (\<forall>h \<in> set hits. \<not> f32_total_gt d (dense_score h)))"
    if "memory_entries s ns i = Some e" "passes_filter f e" "i \<notin> hit_id ` set hits" for i e
  proof -
    from that Some obtain g where g: "g \<in> set cs" "hit_id g = i"
      "embedding_dot vec (ve_vector e) = Inr (dense_score g)"
      using memory_candidates_complete[OF ok dim] unfolding cs_def memory_entries_def by fastforce
    with that(3) have "g \<notin> set hits" by auto
    with take_sort_by_dense_rest[OF g(1)] g(3) show ?thesis unfolding hits by blast
  qed
  moreover note memory_query_dense[OF assms]
  moreover have "sorted_wrt (\<lambda>a b. \<not> f32_total_gt (dense_score b) (dense_score a)) hits"
    unfolding hits by (rule sorted_wrt_take[OF sort_by_dense_sorted])
  moreover note mem.query_limit[OF assms] mem.query_distinct[OF assms]
  ultimately show ?thesis using s' by blast
qed

definition example_entry :: vector_entry where
  "example_entry = \<lparr>ve_id = EntryId [7], ve_vector = \<lparr>emb_dim = Dim 1, emb_values = [f32_one]\<rparr>,
     ve_keys = [Key ''k''], ve_entities = [Entity ''acme''], ve_context = Some (Context ''q3 report'')\<rparr>"

theorem memory_query_best_witness:
  "\<exists>h. memory_query ascii_lower (\<lambda>x. x) (\<lambda>_. 0) (\<lambda>_. 0) (Namespace ''prod'')
     \<lparr>emb_dim = Dim 1, emb_values = [f32_one]\<rparr> None (filter_new [Key ''k''] []) 3
     (snd (memory_upsert ascii_lower (Namespace ''prod'') example_entry memory_new))
   = (Inr [h], snd (memory_upsert ascii_lower (Namespace ''prod'') example_entry memory_new))
   \<and> hit_id h = EntryId [7]"
proof -
  let ?s = "snd (memory_upsert ascii_lower (Namespace ''prod'') example_entry memory_new)"
  have ok: "memory_ok ascii_lower ?s"
    using memory_upsert_ok[OF memory_ok_new, of ascii_lower] by (metis prod.collapse)
  obtain hits where q: "memory_query ascii_lower (\<lambda>x. x) (\<lambda>_. 0) (\<lambda>_. 0) (Namespace ''prod'')
     \<lparr>emb_dim = Dim 1, emb_values = [f32_one]\<rparr> None (filter_new [Key ''k''] []) 3 ?s = (Inr hits, ?s)"
    and len: "length hits = 1"
    by (simp add: memory_query_def memory_upsert_def memory_new_def example_entry_def filter_new_def
        hm_values_def hm_iter_def hm_insert_def embedding_dot_def sort_by_dense_def)
  from memory_query_best[OF ok q] len show ?thesis
    using q by (auto simp: length_Suc_conv memory_entries_def memory_upsert_def memory_new_def
        example_entry_def split: if_splits)
qed

end
