(* ===== verification/Object_Disk.thy ===== *)
theory Object_Disk
  imports Backends
begin

text \<open>
  \<^verbatim>\<open>src/backends/object_disk.rs\<close>: objects as files, written to a temporary file that is then
  renamed. The file system is a map from paths to contents with a list of directories; its calls may
  fail at any point, as the parameter \<open>fault\<close> decides from the call and the state, and a write
  that fails may leave any prefix of the data behind. The store meets the contract \<open>object_store\<close>
  on namespaces and ids as their constructors produce them, and a put is atomic: up to the final
  rename every object of the store reads as before.
\<close>

section \<open>Paths\<close>

text \<open>\<open>Path::join\<close>: an absolute second path replaces the first, and a separator is inserted
  where it is missing.\<close>

definition path_join :: "string \<Rightarrow> string \<Rightarrow> string" where
  "path_join base seg =
     (if seg \<noteq> [] \<and> hd seg = CHR ''/'' then seg
      else if base = [] \<or> last base = CHR ''/'' then base @ seg
      else base @ ''/'' @ seg)"

definition base_name :: "string \<Rightarrow> string" where
  "base_name p = rev (takeWhile (\<lambda>c. c \<noteq> CHR ''/'') (rev p))"

section \<open>The file system\<close>

record disk =
  files :: "string \<rightharpoonup> bytes"
  dirs :: "string list"
  temp_counter :: nat

datatype fs_call =
    CreateDirAll string
  | WriteFile string string bytes \<comment> \<open>directory, path, contents\<close>
  | Rename string string
  | ReadFile string
  | RemoveFile string

text \<open>A fault is an error of a kind other than not-found, with what an interrupted write leaves
  behind: nothing, or a file with some first bytes of the data.\<close>

type_synonym fault = "fs_call \<Rightarrow> disk \<Rightarrow> (string \<times> nat option) option"

definition not_found :: io_error where
  "not_found = IoError NotFound ''No such file or directory (os error 2)''"

definition io_fault :: "string \<Rightarrow> io_error" where
  "io_fault m = IoError (OtherKind m) m"

definition create_dir_all :: "fault \<Rightarrow> string \<Rightarrow> disk \<Rightarrow> (io_error + unit) \<times> disk" where
  "create_dir_all fault dir d =
     (case fault (CreateDirAll dir) d of
        Some (m, _) \<Rightarrow> (Inl (io_fault m), d)
      | None \<Rightarrow> (Inr (), d\<lparr>dirs := dir # dirs d\<rparr>))"

definition fs_write :: "fault \<Rightarrow> string \<Rightarrow> string \<Rightarrow> bytes \<Rightarrow> disk \<Rightarrow> (io_error + unit) \<times> disk" where
  "fs_write fault dir p v d =
     (if dir \<notin> set (dirs d) then (Inl not_found, d)
      else case fault (WriteFile dir p v) d of
             Some (m, None) \<Rightarrow> (Inl (io_fault m), d)
           | Some (m, Some n) \<Rightarrow> (Inl (io_fault m), d\<lparr>files := (files d)(p \<mapsto> take n v)\<rparr>)
           | None \<Rightarrow> (Inr (), d\<lparr>files := (files d)(p \<mapsto> v)\<rparr>))"

definition fs_rename :: "fault \<Rightarrow> string \<Rightarrow> string \<Rightarrow> disk \<Rightarrow> (io_error + unit) \<times> disk" where
  "fs_rename fault src dst d =
     (case files d src of
        None \<Rightarrow> (Inl not_found, d)
      | Some v \<Rightarrow>
          (case fault (Rename src dst) d of
             Some (m, _) \<Rightarrow> (Inl (io_fault m), d)
           | None \<Rightarrow> (Inr (), d\<lparr>files := (files d)(src := None, dst \<mapsto> v)\<rparr>)))"

definition fs_read :: "fault \<Rightarrow> string \<Rightarrow> disk \<Rightarrow> io_error + bytes" where
  "fs_read fault p d =
     (case files d p of
        None \<Rightarrow> Inl not_found
      | Some v \<Rightarrow> (case fault (ReadFile p) d of Some (m, _) \<Rightarrow> Inl (io_fault m) | None \<Rightarrow> Inr v))"

definition fs_remove_file :: "fault \<Rightarrow> string \<Rightarrow> disk \<Rightarrow> (io_error + unit) \<times> disk" where
  "fs_remove_file fault p d =
     (case files d p of
        None \<Rightarrow> (Inl not_found, d)
      | Some v \<Rightarrow>
          (case fault (RemoveFile p) d of
             Some (m, _) \<Rightarrow> (Inl (io_fault m), d)
           | None \<Rightarrow> (Inr (), d\<lparr>files := (files d)(p := None)\<rparr>)))"

section \<open>The store\<close>

definition PACKAGE_DIR :: string where "PACKAGE_DIR = ''semisweet''"

definition obj_err :: "io_error \<Rightarrow> error" where
  "obj_err e = ObjectStorage (io_error_text e)"

definition with_default_root :: "(string \<Rightarrow> string option) \<Rightarrow> string res" where
  "with_default_root env =
     try_bind (ok_or (MissingEnv ''HOME'') (env ''HOME'')) (\<lambda>home.
       Inr (path_join (path_join home ''.cache'') PACKAGE_DIR))"

definition namespace_dir :: "string \<Rightarrow> namespace \<Rightarrow> string" where
  "namespace_dir root_dir ns = path_join root_dir (namespace_str ns)"

definition object_path :: "string \<Rightarrow> namespace \<Rightarrow> entry_id \<Rightarrow> string" where
  "object_path root_dir ns i = path_join (namespace_dir root_dir ns) (entry_id_to_string i)"

definition temp_path :: "string \<Rightarrow> nat \<Rightarrow> nat \<Rightarrow> namespace \<Rightarrow> entry_id \<Rightarrow> string" where
  "temp_path root_dir pid counter ns i =
     path_join (namespace_dir root_dir ns)
       (entry_id_to_string i @ ''.tmp.'' @ show_nat pid @ ''.'' @ show_nat counter)"

definition lift_fs :: "(disk \<Rightarrow> (io_error + 'a) \<times> disk) \<Rightarrow> disk \<Rightarrow> 'a res \<times> disk" where
  "lift_fs m d = (case m d of (r, d') \<Rightarrow> (map_err obj_err r, d'))"

definition disk_put ::
  "fault \<Rightarrow> nat \<Rightarrow> string \<Rightarrow> namespace \<Rightarrow> entry_id \<Rightarrow> bytes \<Rightarrow> disk \<Rightarrow> unit res \<times> disk" where
  "disk_put fault pid root_dir ns i v =
     (let dir = namespace_dir root_dir ns in
      try_state (lift_fs (create_dir_all fault dir)) (\<lambda>_ d.
        let counter = temp_counter d;
            temp = temp_path root_dir pid counter ns i
        in try_state (lift_fs (fs_write fault dir temp v)) (\<lambda>_.
             try_state (lift_fs (fs_rename fault temp (object_path root_dir ns i))) (\<lambda>_ d'. (Inr (), d')))
           (d\<lparr>temp_counter := (counter + 1) mod 2 ^ 64\<rparr>)))"

definition disk_get :: "fault \<Rightarrow> string \<Rightarrow> namespace \<Rightarrow> entry_id \<Rightarrow> disk \<Rightarrow> bytes option res \<times> disk" where
  "disk_get fault root_dir ns i d =
     (case fs_read fault (object_path root_dir ns i) d of
        Inr v \<Rightarrow> Inr (Some v)
      | Inl e \<Rightarrow> if io_error_kind e = NotFound then Inr None else Inl (obj_err e), d)"

definition disk_delete :: "fault \<Rightarrow> string \<Rightarrow> namespace \<Rightarrow> entry_id \<Rightarrow> disk \<Rightarrow> unit res \<times> disk" where
  "disk_delete fault root_dir ns i d =
     (case fs_remove_file fault (object_path root_dir ns i) d of
        (Inr _, d') \<Rightarrow> (Inr (), d')
      | (Inl e, d') \<Rightarrow> (if io_error_kind e = NotFound then Inr () else Inl (obj_err e), d'))"

definition disk_backend :: "fault \<Rightarrow> nat \<Rightarrow> string \<Rightarrow> disk object_backend" where
  "disk_backend fault pid root_dir =
     \<lparr>ob_put = disk_put fault pid root_dir, ob_get = disk_get fault root_dir, ob_delete = disk_delete fault root_dir\<rparr>"

section \<open>Distinct objects have distinct files\<close>

definition storable :: "namespace \<Rightarrow> entry_id \<Rightarrow> bool" where
  "storable ns i \<longleftrightarrow> namespace_str ns \<noteq> [] \<and> CHR ''/'' \<notin> set (namespace_str ns) \<and> entry_id_ok i"

lemma storable_new: "namespace_new raw = Inr ns \<Longrightarrow> entry_id_ok i \<Longrightarrow> storable ns i"
  using namespace_new_Inr[of raw ns] by (auto simp: storable_def)

lemma base_name_join:
  assumes "CHR ''/'' \<notin> set seg" "seg \<noteq> []"
  shows "base_name (path_join base seg) = seg"
proof -
  have seg: "takeWhile (\<lambda>c. c \<noteq> CHR ''/'') (rev seg @ t) = rev seg @ takeWhile (\<lambda>c. c \<noteq> CHR ''/'') t" for t
    using assms(1) by (subst takeWhile_append2) auto
  have "takeWhile (\<lambda>c. c \<noteq> CHR ''/'') (rev base) = []" if "base = [] \<or> last base = CHR ''/''"
    using that by (cases base rule: rev_cases) auto
  moreover have "hd seg \<noteq> CHR ''/''" using assms by (metis hd_in_set)
  ultimately show ?thesis
    using assms(2) seg seg[of "[]"] by (auto simp: base_name_def path_join_def)
qed

lemma path_join_file:
  assumes "CHR ''/'' \<notin> set seg" "seg \<noteq> []" "CHR ''/'' \<notin> set name" "name \<noteq> []"
  shows "path_join (path_join base seg) name = path_join base seg @ ''/'' @ name"
proof -
  have "hd name \<noteq> CHR ''/''" using assms(3,4) by (metis hd_in_set)
  moreover have "path_join base seg \<noteq> []" "last (path_join base seg) = last seg"
    using assms(2) by (auto simp: path_join_def)
  moreover have "last seg \<noteq> CHR ''/''" using assms(1,2) by (metis last_in_set)
  ultimately show ?thesis by (simp add: path_join_def)
qed

lemma path_join_inj:
  assumes "CHR ''/'' \<notin> set seg" "seg \<noteq> []" "CHR ''/'' \<notin> set seg'" "seg' \<noteq> []"
    and "CHR ''/'' \<notin> set name" "name \<noteq> []" "CHR ''/'' \<notin> set name'" "name' \<noteq> []"
    and "path_join (path_join base seg) name = path_join (path_join base seg') name'"
  shows "seg = seg' \<and> name = name'"
proof -
  have "name = name'" using assms base_name_join by metis
  moreover from this have "path_join base seg = path_join base seg'"
    using assms path_join_file by (metis append_same_eq)
  ultimately show ?thesis using assms base_name_join by metis
qed

lemma slash_not_hex: "CHR ''/'' \<notin> set (entry_id_to_string i)"
proof -
  have slash: "hex_digit n \<noteq> CHR ''/''" if "n < 16" for n
  proof
    assume "hex_digit n = CHR ''/''"
    then have "(of_char (hex_digit n) :: nat) = 47" by simp
    with of_char_hex_digit[OF that] show False by (simp split: if_splits)
  qed
  have "unat b div 16 < 16" for b :: byte
    using unsigned_less[of b, where 'a = nat] by (simp add: less_mult_imp_div_less)
  then have "CHR ''/'' \<notin> set (show_hex_byte b)" for b
    using slash[of "unat b div 16"] slash[of "unat b mod 16"] by (auto simp: show_hex_byte_def)
  then show ?thesis by (simp add: entry_id_to_string_def)
qed

lemma slash_not_show_nat: "CHR ''/'' \<notin> set (show_nat n)"
proof (induction n rule: show_nat.induct)
  case (1 n)
  have "digit_char d \<noteq> CHR ''/''" if "d < 10" for d
  proof
    assume "digit_char d = CHR ''/''"
    then have "(of_char (digit_char d) :: nat) = 47" by simp
    then show False using that by (simp add: digit_char_def of_char_char_of)
  qed
  from this[of n] this[of "n mod 10"] 1 show ?case
    by (subst show_nat.simps) (auto dest: sym)
qed

lemma entry_id_to_string_nonempty: "entry_id_ok i \<Longrightarrow> entry_id_to_string i \<noteq> []"
  using length_entry_id_to_string[of i] by (auto simp: entry_id_ok_def)

lemma object_path_inj:
  assumes "storable ns i" "storable m j" "object_path root_dir ns i = object_path root_dir m j"
  shows "ns = m \<and> i = j"
proof -
  have "entry_id_to_string i \<noteq> []" "entry_id_to_string j \<noteq> []"
    using assms(1,2) by (simp_all add: storable_def entry_id_to_string_nonempty)
  then have "namespace_str ns = namespace_str m \<and> entry_id_to_string i = entry_id_to_string j"
    using assms slash_not_hex unfolding storable_def object_path_def namespace_dir_def
    by (intro path_join_inj) auto
  then show ?thesis by (simp add: entry_id_to_string_inj namespace.expand)
qed

lemma temp_path_not_object:
  assumes "storable m j" "entry_id_ok i"
  shows "object_path root_dir m j \<noteq> temp_path root_dir pid counter ns i"
proof
  let ?temp = "entry_id_to_string i @ ''.tmp.'' @ show_nat pid @ ''.'' @ show_nat counter"
  assume eq: "object_path root_dir m j = temp_path root_dir pid counter ns i"
  have len: "length (entry_id_to_string j) = length (entry_id_to_string i)"
    using assms by (simp add: length_entry_id_to_string storable_def entry_id_ok_def)
  have "CHR ''/'' \<notin> set ?temp" using slash_not_hex slash_not_show_nat by auto
  then have "base_name (temp_path root_dir pid counter ns i) = ?temp"
    unfolding temp_path_def by (intro base_name_join) auto
  moreover have "base_name (object_path root_dir m j) = entry_id_to_string j"
    using assms slash_not_hex unfolding object_path_def
    by (intro base_name_join) (auto simp: storable_def entry_id_to_string_nonempty)
  ultimately have "length (entry_id_to_string j) = length ?temp" using eq by simp
  with len show False by simp
qed


section \<open>The store meets the contract\<close>

definition disk_objects :: "string \<Rightarrow> disk \<Rightarrow> namespace \<times> entry_id \<Rightarrow> bytes option" where
  "disk_objects root_dir d k = files d (object_path root_dir (fst k) (snd k))"

lemma obj_err_simps [simp]: "io_error_kind not_found = NotFound" "io_error_kind (io_fault m) \<noteq> NotFound"
  by (simp_all add: not_found_def io_fault_def)

lemma lift_fs_Inr: "lift_fs m d = (Inr x, d') \<longleftrightarrow> m d = (Inr x, d')"
  by (auto simp: lift_fs_def map_err_def split: prod.splits sum.splits)

lemma create_dir_all_files: "create_dir_all fault dir d = (r, d') \<Longrightarrow> files d' = files d"
  by (auto simp: create_dir_all_def split: option.splits)

lemma fs_write_files: "fs_write fault dir p v d = (r, d') \<Longrightarrow> q \<noteq> p \<Longrightarrow> files d' q = files d q"
  by (auto simp: fs_write_def split: option.splits if_splits)

lemma fs_rename_files:
  "fs_rename fault src dst d = (r, d') \<Longrightarrow>
     (case r of Inl e \<Rightarrow> d' = d
      | Inr _ \<Rightarrow> \<exists>v. files d src = Some v \<and> files d' = (files d)(src := None, dst \<mapsto> v))"
  by (auto simp: fs_rename_def split: option.splits)

text \<open>A put leaves every other object alone, and binds its own only when it succeeds.\<close>

lemma disk_put_files:
  assumes "storable ns i" and "disk_put fault pid root_dir ns i v d = (r, d')"
    and "storable m j"
  shows "files d' (object_path root_dir m j) =
    (if (m, j) = (ns, i) \<and> r = Inr () then Some v else files d (object_path root_dir m j))"
proof -
  let ?o = "object_path root_dir" and ?dir = "namespace_dir root_dir ns"
  obtain r1 d1 where s1: "create_dir_all fault ?dir d = (r1, d1)" by fastforce
  let ?t = "temp_path root_dir pid (temp_counter d1) ns i"
    and ?d2 = "d1\<lparr>temp_counter := (temp_counter d1 + 1) mod 2 ^ 64\<rparr>"
  obtain r2 d3 where s2: "fs_write fault ?dir ?t v ?d2 = (r2, d3)" by fastforce
  obtain r3 d4 where s3: "fs_rename fault ?t (?o ns i) d3 = (r3, d4)" by fastforce
  have temp: "?o m j \<noteq> ?t" "?o ns i \<noteq> ?t"
    using assms temp_path_not_object by (auto simp: storable_def)
  have inj: "?o m j = ?o ns i \<longleftrightarrow> (m, j) = (ns, i)"
    using object_path_inj[OF assms(3,1)] by auto
  have f1: "files d1 = files d" by (rule create_dir_all_files[OF s1])
  have f2: "files d3 (?o m j) = files d (?o m j)"
    using fs_write_files[OF s2 temp(1)] f1 by simp
  have v: "files d3 ?t = Some v" if "r2 = Inr ()"
    using s2 that by (auto simp: fs_write_def split: option.splits if_splits)
  note f3 = fs_rename_files[OF s3]
  show ?thesis
  proof (cases r1)
    case (Inl e)
    with assms(2) s1 f1 show ?thesis by (auto simp: disk_put_def Let_def try_state_def lift_fs_def)
  next
    case r1: (Inr u)
    show ?thesis
    proof (cases r2)
      case (Inl e)
      with assms(2) s1 s2 r1 f2 show ?thesis
        by (auto simp: disk_put_def Let_def try_state_def lift_fs_def)
    next
      case (Inr w)
      with assms(2) s1 s2 s3 r1 v f2 f3 temp inj show ?thesis
        by (auto simp: disk_put_def Let_def try_state_def lift_fs_def split: sum.splits)
    qed
  qed
qed

lemma disk_delete_files:
  assumes "storable ns i" and "disk_delete fault root_dir ns i d = (r, d')" and "storable m j"
  shows "files d' (object_path root_dir m j) =
    (if (m, j) = (ns, i) \<and> r = Inr () then None else files d (object_path root_dir m j))"
proof (cases "files d (object_path root_dir ns i)")
  case None
  with assms show ?thesis by (auto simp: disk_delete_def fs_remove_file_def)
next
  case (Some v)
  have "(m, j) \<noteq> (ns, i) \<Longrightarrow> object_path root_dir m j \<noteq> object_path root_dir ns i"
    using object_path_inj[OF assms(3,1)] by auto
  with Some assms(2) show ?thesis
    by (auto simp: disk_delete_def fs_remove_file_def split: option.splits)
qed

interpretation disk: object_store "disk_put fault pid root_dir" "disk_get fault root_dir"
  "disk_delete fault root_dir" "disk_objects root_dir" "\<lambda>_. True" storable
  for fault pid root_dir
proof
  fix d d' ns i v
  assume "storable ns i" "disk_put fault pid root_dir ns i v d = (Inr (), d')"
  then show "True \<and> disk_objects root_dir d' (ns, i) = Some v
      \<and> (\<forall>m j. storable m j \<and> (m, j) \<noteq> (ns, i) \<longrightarrow> disk_objects root_dir d' (m, j) = disk_objects root_dir d (m, j))"
    using disk_put_files by (simp add: disk_objects_def)
next
  fix d d' ns i v e
  assume "storable ns i" "disk_put fault pid root_dir ns i v d = (Inl e, d')"
  then show "True \<and> (disk_objects root_dir d' (ns, i) = disk_objects root_dir d (ns, i) \<or> disk_objects root_dir d' (ns, i) = Some v)
      \<and> (\<forall>m j. storable m j \<and> (m, j) \<noteq> (ns, i) \<longrightarrow> disk_objects root_dir d' (m, j) = disk_objects root_dir d (m, j))"
    using disk_put_files by (fastforce simp: disk_objects_def)
next
  fix d d' ns i out
  assume "disk_get fault root_dir ns i d = (out, d')"
  then show "d' = d" by (simp add: disk_get_def)
next
  fix d d' ns i r
  assume "disk_get fault root_dir ns i d = (Inr r, d')"
  then show "r = disk_objects root_dir d (ns, i)"
    by (auto simp: disk_get_def fs_read_def disk_objects_def split: option.splits)
next
  fix d d' ns i
  assume "storable ns i" "disk_delete fault root_dir ns i d = (Inr (), d')"
  then show "True \<and> disk_objects root_dir d' (ns, i) = None
      \<and> (\<forall>m j. storable m j \<and> (m, j) \<noteq> (ns, i) \<longrightarrow> disk_objects root_dir d' (m, j) = disk_objects root_dir d (m, j))"
    using disk_delete_files by (simp add: disk_objects_def)
next
  fix d d' ns i e
  assume "storable ns i" "disk_delete fault root_dir ns i d = (Inl e, d')"
  then show "True \<and> (disk_objects root_dir d' (ns, i) = disk_objects root_dir d (ns, i) \<or> disk_objects root_dir d' (ns, i) = None)
      \<and> (\<forall>m j. storable m j \<and> (m, j) \<noteq> (ns, i) \<longrightarrow> disk_objects root_dir d' (m, j) = disk_objects root_dir d (m, j))"
    using disk_delete_files by (fastforce simp: disk_objects_def)
qed


section \<open>Properties\<close>

text \<open>The file-system calls of a put, in order: what a crash cuts short is a prefix of them.\<close>

definition put_prefix ::
  "nat \<Rightarrow> fault \<Rightarrow> nat \<Rightarrow> string \<Rightarrow> namespace \<Rightarrow> entry_id \<Rightarrow> bytes \<Rightarrow> disk \<Rightarrow> disk" where
  "put_prefix n fault pid root_dir ns i v d =
     (let dir = namespace_dir root_dir ns;
          d1 = snd (create_dir_all fault dir d);
          temp = temp_path root_dir pid (temp_counter d1) ns i;
          d2 = snd (fs_write fault dir temp v (d1\<lparr>temp_counter := (temp_counter d1 + 1) mod 2 ^ 64\<rparr>))
      in if n = 0 then d else if n = 1 then d1 else d2)"

text \<open>
  C17. A put on disk is atomic for readers: while it has made only its first calls (the directory, the
  temporary file), cut short at any of them and with whatever part of the temporary file written,
  every object of the store holds what it held before; when it reports success the object holds
  exactly the new value and every other object is unchanged; when it reports an error every object is
  unchanged.
\<close>

theorem disk_put_atomic:
  assumes "storable ns i" and "disk_put fault pid root_dir ns i v d = (r, d')" and "storable m j"
  shows "disk_objects root_dir (put_prefix n fault pid root_dir ns i v d) (m, j) = disk_objects root_dir d (m, j)
    \<and> disk_objects root_dir d' (m, j) =
        (if r = Inr () \<and> (m, j) = (ns, i) then Some v else disk_objects root_dir d (m, j))"
proof -
  let ?dir = "namespace_dir root_dir ns"
  let ?d1 = "snd (create_dir_all fault ?dir d)"
  let ?t = "temp_path root_dir pid (temp_counter ?d1) ns i"
  have f1: "files ?d1 = files d"
    using create_dir_all_files[of fault ?dir d "fst (create_dir_all fault ?dir d)" ?d1] by simp
  have "object_path root_dir m j \<noteq> ?t"
    using assms temp_path_not_object by (simp add: storable_def)
  then have "files (snd (fs_write fault ?dir ?t v d1)) (object_path root_dir m j) =
      files d1 (object_path root_dir m j)" for d1
    by (intro fs_write_files[of fault ?dir ?t v d1 "fst (fs_write fault ?dir ?t v d1)"]) simp_all
  with f1 show ?thesis
    using disk_put_files[OF assms] by (auto simp: put_prefix_def Let_def disk_objects_def)
qed

definition empty_disk :: disk where
  "empty_disk = \<lparr>files = Map.empty, dirs = [], temp_counter = 0\<rparr>"

definition example_id :: entry_id where
  "example_id = EntryId (replicate 16 7)"

theorem disk_put_atomic_witness:
  "storable (Namespace ''prod'') example_id \<and>
   disk_objects ''/var'' (snd (disk_put (\<lambda>_ _. None) 42 ''/var'' (Namespace ''prod'') example_id [1, 2] empty_disk))
     (Namespace ''prod'', example_id) = Some [1, 2]"
proof -
  have st: "storable (Namespace ''prod'') example_id"
    by (simp add: storable_def example_id_def entry_id_ok_def)
  obtain d' where "disk_put (\<lambda>_ _. None) 42 ''/var'' (Namespace ''prod'') example_id [1, 2] empty_disk = (Inr (), d')"
    by (simp add: disk_put_def Let_def try_state_def lift_fs_def create_dir_all_def fs_write_def
        fs_rename_def empty_disk_def)
  with disk_put_atomic[OF st this st] st show ?thesis by simp
qed

end
