(* ===== verification/Compression.thy ===== *)
theory Compression
  imports Object_Disk
begin

text \<open>
  \<^verbatim>\<open>src/compression.rs\<close>: the wrapper that compresses values at the object-store boundary. The
  zstd library is a pair of parameters; what the wrapper relies on is the named hypothesis
  \<open>zstd_round_trip\<close>, that decoding an encoded frame gives the value back. Under it the wrapper
  turns any store that meets the contract \<open>object_store\<close> into one that meets it again.
\<close>

definition COMPRESSION_LEVEL :: int where "COMPRESSION_LEVEL = 19"

definition compression_err :: "io_error \<Rightarrow> error" where
  "compression_err e = Compression (io_error_text e)"

record zstd =
  encode_all :: "bytes \<Rightarrow> int \<Rightarrow> io_error + bytes"
  decode_all :: "bytes \<Rightarrow> io_error + bytes"

definition zstd_round_trip :: "zstd \<Rightarrow> bool" where
  "zstd_round_trip z \<longleftrightarrow> (\<forall>v level frame. encode_all z v level = Inr frame \<longrightarrow> decode_all z frame = Inr v)"

definition compress :: "zstd \<Rightarrow> bytes \<Rightarrow> bytes res" where
  "compress z v = map_err compression_err (encode_all z v COMPRESSION_LEVEL)"

definition decompress :: "zstd \<Rightarrow> bytes \<Rightarrow> bytes res" where
  "decompress z v = map_err compression_err (decode_all z v)"

definition compressed_put ::
  "zstd \<Rightarrow> 'o object_backend \<Rightarrow> namespace \<Rightarrow> entry_id \<Rightarrow> bytes \<Rightarrow> 'o \<Rightarrow> unit res \<times> 'o" where
  "compressed_put z inner ns i v s =
     (case compress z v of Inl e \<Rightarrow> (Inl e, s) | Inr compressed \<Rightarrow> ob_put inner ns i compressed s)"

definition compressed_get ::
  "zstd \<Rightarrow> 'o object_backend \<Rightarrow> namespace \<Rightarrow> entry_id \<Rightarrow> 'o \<Rightarrow> bytes option res \<times> 'o" where
  "compressed_get z inner ns i =
     try_state (ob_get inner ns i) (\<lambda>found s.
       (case found of Some v \<Rightarrow> try_bind (decompress z v) (\<lambda>w. Inr (Some w)) | None \<Rightarrow> Inr None, s))"

definition compressed_delete ::
  "'o object_backend \<Rightarrow> namespace \<Rightarrow> entry_id \<Rightarrow> 'o \<Rightarrow> unit res \<times> 'o" where
  "compressed_delete inner = ob_delete inner"

definition compressed_store :: "zstd \<Rightarrow> 'o object_backend \<Rightarrow> 'o object_backend" where
  "compressed_store z inner = \<lparr>ob_put = compressed_put z inner, ob_get = compressed_get z inner,
     ob_delete = compressed_delete inner\<rparr>"

text \<open>What the wrapper shows of the frames the inner store holds.\<close>

definition decoded ::
  "zstd \<Rightarrow> ('o \<Rightarrow> namespace \<times> entry_id \<Rightarrow> bytes option) \<Rightarrow> 'o \<Rightarrow> namespace \<times> entry_id \<Rightarrow> bytes option" where
  "decoded z objects s k =
     (case objects s k of
        None \<Rightarrow> None
      | Some frame \<Rightarrow> (case decode_all z frame of Inl _ \<Rightarrow> None | Inr v \<Rightarrow> Some v))"

lemma compress_decompress: "zstd_round_trip z \<Longrightarrow> compress z v = Inr w \<Longrightarrow> decompress z w = Inr v"
  by (auto simp: compress_def decompress_def zstd_round_trip_def map_err_def split: sum.splits)

lemma compressed_object_store:
  assumes "object_store (ob_put inner) (ob_get inner) (ob_delete inner) objects invar usable"
    and "zstd_round_trip z"
  shows "object_store (compressed_put z inner) (compressed_get z inner) (compressed_delete inner)
    (decoded z objects) invar usable"
proof -
  note os = object_store.put_ok[OF assms(1)] object_store.put_err[OF assms(1)]
    object_store.get_frame[OF assms(1)] object_store.get_ok[OF assms(1)]
    object_store.delete_ok[OF assms(1)] object_store.delete_err[OF assms(1)]
  have frame: "decode_all z w = Inr v" if "compress z v = Inr w" for v w
    using compress_decompress[OF assms(2) that]
    by (auto simp: decompress_def map_err_def split: sum.splits)
  show ?thesis
  proof
    fix s s' ns i v
    assume "invar s" "usable ns i" "compressed_put z inner ns i v s = (Inr (), s')"
    then obtain w where "compress z v = Inr w" "ob_put inner ns i w s = (Inr (), s')"
      by (auto simp: compressed_put_def split: sum.splits)
    with os(1)[of s ns i w s'] frame \<open>invar s\<close> \<open>usable ns i\<close>
    show "invar s' \<and> decoded z objects s' (ns, i) = Some v
        \<and> (\<forall>m j. usable m j \<and> (m, j) \<noteq> (ns, i) \<longrightarrow> decoded z objects s' (m, j) = decoded z objects s (m, j))"
      by (simp add: decoded_def)
  next
    fix s s' ns i v e
    assume "invar s" "usable ns i" "compressed_put z inner ns i v s = (Inl e, s')"
    then show "invar s' \<and> (decoded z objects s' (ns, i) = decoded z objects s (ns, i) \<or> decoded z objects s' (ns, i) = Some v)
        \<and> (\<forall>m j. usable m j \<and> (m, j) \<noteq> (ns, i) \<longrightarrow> decoded z objects s' (m, j) = decoded z objects s (m, j))"
      using os(2)[of s ns i _ e s'] frame by (fastforce simp: compressed_put_def decoded_def split: sum.splits)
  next
    fix s s' ns i out
    assume "compressed_get z inner ns i s = (out, s')"
    moreover obtain r0 s0 where g: "ob_get inner ns i s = (r0, s0)" by fastforce
    moreover from os(3)[OF g] have "s0 = s" .
    ultimately show "s' = s"
      by (cases r0) (simp_all add: compressed_get_def try_state_def)
  next
    fix s s' ns i r
    assume "invar s" "usable ns i" "compressed_get z inner ns i s = (Inr r, s')"
    then obtain found where g: "ob_get inner ns i s = (Inr found, s')"
      and r: "(case found of Some v \<Rightarrow> try_bind (decompress z v) (\<lambda>w. Inr (Some w)) | None \<Rightarrow> Inr None) = Inr r"
      by (auto simp: compressed_get_def try_state_Inr_iff)
    have "found = objects s (ns, i)" using os(4)[OF \<open>invar s\<close> \<open>usable ns i\<close> g] .
    with r show "r = decoded z objects s (ns, i)"
      by (auto simp: decoded_def decompress_def map_err_def try_bind_def split: option.splits sum.splits)
  next
    fix s s' ns i
    assume "invar s" "usable ns i" "compressed_delete inner ns i s = (Inr (), s')"
    then show "invar s' \<and> decoded z objects s' (ns, i) = None
        \<and> (\<forall>m j. usable m j \<and> (m, j) \<noteq> (ns, i) \<longrightarrow> decoded z objects s' (m, j) = decoded z objects s (m, j))"
      using os(5)[of s ns i s'] by (simp add: compressed_delete_def decoded_def)
  next
    fix s s' ns i e
    assume "invar s" "usable ns i" "compressed_delete inner ns i s = (Inl e, s')"
    then show "invar s' \<and> (decoded z objects s' (ns, i) = decoded z objects s (ns, i) \<or> decoded z objects s' (ns, i) = None)
        \<and> (\<forall>m j. usable m j \<and> (m, j) \<noteq> (ns, i) \<longrightarrow> decoded z objects s' (m, j) = decoded z objects s (m, j))"
      using os(6)[of s ns i e s'] by (auto simp: compressed_delete_def decoded_def)
  qed
qed

text \<open>The store the registry builds for a disk backend.\<close>

lemma compressed_disk_store:
  assumes "zstd_round_trip z"
  shows "object_store (compressed_put z (disk_backend fault pid root_dir))
    (compressed_get z (disk_backend fault pid root_dir)) (compressed_delete (disk_backend fault pid root_dir))
    (decoded z (disk_objects root_dir)) (\<lambda>_. True) storable"
  by (rule compressed_object_store[OF _ assms]) (simp add: disk_backend_def disk.object_store_axioms)

section \<open>Properties\<close>

text \<open>
  Compression is transparent: on the compressed disk store, a get that succeeds after a successful
  put of the same namespace and id returns exactly the bytes that were put.
\<close>

theorem compressed_put_get:
  assumes "zstd_round_trip z" and "storable ns i"
    and "compressed_put z (disk_backend fault pid root_dir) ns i v d = (Inr (), d1)"
    and "compressed_get z (disk_backend fault pid root_dir) ns i d1 = (Inr r, d2)"
  shows "r = Some v"
  by (rule object_store.put_then_get[OF compressed_disk_store[OF assms(1)] TrueI assms(2-4)])

definition example_zstd :: zstd where
  "example_zstd = \<lparr>encode_all = (\<lambda>v level. Inr (0xFD # v)), decode_all = (\<lambda>f. Inr (tl f))\<rparr>"

lemma example_zstd_round_trip: "zstd_round_trip example_zstd"
  by (auto simp: zstd_round_trip_def example_zstd_def)

theorem compressed_put_get_witness:
  "\<exists>d1 d2 r. compressed_put example_zstd (disk_backend (\<lambda>_ _. None) 42 ''/var'') (Namespace ''prod'')
       example_id [1, 2] empty_disk = (Inr (), d1)
     \<and> compressed_get example_zstd (disk_backend (\<lambda>_ _. None) 42 ''/var'') (Namespace ''prod'')
       example_id d1 = (Inr r, d2) \<and> r = Some [1, 2]"
proof -
  have st: "storable (Namespace ''prod'') example_id"
    by (simp add: storable_def example_id_def entry_id_ok_def)
  have run: "\<exists>d1 d2 r. compressed_put example_zstd (disk_backend (\<lambda>_ _. None) 42 ''/var'') (Namespace ''prod'')
       example_id [1, 2] empty_disk = (Inr (), d1)
     \<and> compressed_get example_zstd (disk_backend (\<lambda>_ _. None) 42 ''/var'') (Namespace ''prod'')
       example_id d1 = (Inr r, d2)"
    by (simp add: compressed_put_def compressed_get_def compress_def decompress_def example_zstd_def
        disk_backend_def disk_put_def disk_get_def fs_read_def Let_def try_state_def lift_fs_def
        create_dir_all_def fs_write_def fs_rename_def empty_disk_def)
  then show ?thesis using compressed_put_get[OF example_zstd_round_trip st] by blast
qed

end
