(* ===== verification/Model_Backends.thy ===== *)
theory Model_Backends
  imports Backends
begin

text \<open>
  The backends around a model: the Voyage and local embedders
  (\<^verbatim>\<open>src/backends/embed_voyage.rs\<close>, \<^verbatim>\<open>src/backends/embed_local.rs\<close>) and the keyword and GLiNER
  entity extractors (\<^verbatim>\<open>src/backends/entity_keyword.rs\<close>, \<^verbatim>\<open>src/backends/entity_gliner.rs\<close>). The
  libraries they call (the HTTP client and its JSON decoder, fastembed, YAKE, GLiNER, the model hub)
  are parameters; \<open>env\<close> is the process environment.
\<close>

type_synonym env = "string \<Rightarrow> string option"

section \<open>Voyage embeddings\<close>

datatype voyage_error = VoyageHttp nat string | VoyageEmptyData

fun voyage_error_text :: "voyage_error \<Rightarrow> string" where
  "voyage_error_text (VoyageHttp status body) =
     ''voyage embeddings api returned status '' @ show_nat status @ '': '' @ body"
| "voyage_error_text VoyageEmptyData = ''voyage embeddings response contained no data''"

record embedding_request =
  er_input :: "string list"
  er_model :: string
  er_input_type :: string
  er_output_dimension :: nat
  er_output_dtype :: string

record embedding_data =
  ed_embedding :: "f32 list"
  ed_index :: nat

record http_response =
  resp_status :: nat
  resp_text :: "string + string"
  resp_json :: "string + embedding_data list"

type_synonym http_post = "string \<Rightarrow> string \<Rightarrow> embedding_request \<Rightarrow> string + http_response"

record voyage_embedding =
  vo_api_key :: string
  vo_model :: string
  vo_dim :: dim
  vo_base_url :: string

definition voyage_new :: "env \<Rightarrow> (string + unit) \<Rightarrow> string \<Rightarrow> nat \<Rightarrow> voyage_embedding res" where
  "voyage_new env client model output_dimension =
     try_bind (ok_or (MissingEnv ''VOYAGE_API_KEY'') (env ''VOYAGE_API_KEY'')) (\<lambda>api_key.
       let base_url = (case env ''VOYAGE_API_BASE'' of
             Some url \<Rightarrow> url | None \<Rightarrow> ''https://api.voyageai.com/v1/embeddings'') in
       try_bind (map_err EmbeddingFailed client) (\<lambda>_.
       try_bind (dim_new output_dimension) (\<lambda>dim.
         Inr \<lparr>vo_api_key = api_key, vo_model = model, vo_dim = dim, vo_base_url = base_url\<rparr>)))"

definition voyage_embed :: "http_post \<Rightarrow> voyage_embedding \<Rightarrow> string \<Rightarrow> embedding res" where
  "voyage_embed post v text =
     (let request = \<lparr>er_input = [text], er_model = vo_model v, er_input_type = ''query'',
            er_output_dimension = dim_get (vo_dim v), er_output_dtype = ''float''\<rparr>
      in try_bind (map_err EmbeddingFailed (post (vo_base_url v) (vo_api_key v) request)) (\<lambda>response.
           if \<not> (200 \<le> resp_status response \<and> resp_status response \<le> 299) then
             try_bind (map_err EmbeddingFailed (resp_text response)) (\<lambda>body.
               Inl (EmbeddingFailed (voyage_error_text (VoyageHttp (resp_status response) body))))
           else
             try_bind (map_err EmbeddingFailed (resp_json response)) (\<lambda>parsed.
               case sort_key ed_index parsed of
                 [] \<Rightarrow> Inl (EmbeddingFailed (voyage_error_text VoyageEmptyData))
               | first # _ \<Rightarrow> embedding_new (ed_embedding first))))"

definition voyage_backend :: "http_post \<Rightarrow> voyage_embedding \<Rightarrow> embedding_backend" where
  "voyage_backend post v = \<lparr>eb_dim = vo_dim v, eb_embed_query = voyage_embed post v\<rparr>"

section \<open>Local embeddings\<close>

definition MODEL_DIM :: nat where "MODEL_DIM = 384"

definition QUERY_INSTRUCTION :: string where
  "QUERY_INSTRUCTION = ''Represent this sentence for searching relevant passages: ''"

record 'm model_info =
  model_code :: string
  info_model :: 'm
  info_dim :: nat

record ('m, 't) fastembed =
  bge_small :: 'm
  list_supported_models :: "'m model_info list"
  try_new :: "'m \<Rightarrow> string option \<Rightarrow> string + 't"
  fe_embed :: "'t \<Rightarrow> string list \<Rightarrow> string + f32 list list"

record 't local_embedding =
  lo_model :: 't
  lo_dim :: dim
  lo_query_instruction :: string

definition local_new :: "('m, 't) fastembed \<Rightarrow> env \<Rightarrow> string option \<Rightarrow> 't local_embedding res" where
  "local_new lib env model =
     try_bind
       (case model of
          None \<Rightarrow> Inr (bge_small lib, MODEL_DIM, QUERY_INSTRUCTION)
        | Some code \<Rightarrow>
            try_bind (ok_or (InvalidConfig (''unknown local embedding model `'' @ code @ ''`''))
                (find (\<lambda>info. eq_ignore_ascii_case (model_code info) code) (list_supported_models lib)))
              (\<lambda>info. Inr (info_model info, info_dim info, '''')))
       (\<lambda>(name, dim, instruction).
          try_bind (map_err EmbeddingFailed (try_new lib name (env ''SEMISWEET_MODEL_CACHE''))) (\<lambda>model.
          try_bind (dim_new dim) (\<lambda>d.
            Inr \<lparr>lo_model = model, lo_dim = d, lo_query_instruction = instruction\<rparr>)))"

definition embed_one :: "('m, 't) fastembed \<Rightarrow> 't local_embedding \<Rightarrow> string \<Rightarrow> embedding res" where
  "embed_one lib e text =
     try_bind (map_err EmbeddingFailed (fe_embed lib (lo_model e) [text])) (\<lambda>outputs.
     try_bind (ok_or (EmbeddingFailed ''fastembed returned no embedding'')
         (if outputs = [] then None else Some (last outputs))) embedding_new)"

definition local_embed_query :: "('m, 't) fastembed \<Rightarrow> 't local_embedding \<Rightarrow> string \<Rightarrow> embedding res" where
  "local_embed_query lib e text = embed_one lib e (lo_query_instruction e @ text)"

definition local_backend :: "('m, 't) fastembed \<Rightarrow> 't local_embedding \<Rightarrow> embedding_backend" where
  "local_backend lib e = \<lparr>eb_dim = lo_dim e, eb_embed_query = local_embed_query lib e\<rparr>"

section \<open>Keyword entities\<close>

definition DEFAULT_LANGUAGE :: string where "DEFAULT_LANGUAGE = ''en''"
definition FULL_N :: nat where "FULL_N = 20"
definition FAST_M :: nat where "FAST_M = 5"

definition keyword_with_language :: "(string \<Rightarrow> 'sw option) \<Rightarrow> string \<Rightarrow> 'sw res" where
  "keyword_with_language predefined language =
     ok_or (EntityExtraction (''no stopwords for language `'' @ language @ ''`'')) (predefined language)"

definition keyword_new :: "(string \<Rightarrow> 'sw option) \<Rightarrow> 'sw res" where
  "keyword_new predefined = keyword_with_language predefined DEFAULT_LANGUAGE"

definition keyword_extract ::
  "(string \<Rightarrow> string) \<Rightarrow> (nat \<Rightarrow> string \<Rightarrow> 'sw \<Rightarrow> string list) \<Rightarrow> 'sw \<Rightarrow> string \<Rightarrow> bool
   \<Rightarrow> entity btree_set res" where
  "keyword_extract lower get_n_best stop_words text fast =
     (if trim text = [] then Inr []
      else let ranked = get_n_best FULL_N text stop_words
           in Inr (btree_collect
                (List.map_filter (entity_normalize lower) (take (if fast then FAST_M else FULL_N) ranked))))"

definition keyword_backend ::
  "(string \<Rightarrow> string) \<Rightarrow> (nat \<Rightarrow> string \<Rightarrow> 'sw \<Rightarrow> string list) \<Rightarrow> 'sw \<Rightarrow> entity_backend" where
  "keyword_backend lower get_n_best stop_words =
     \<lparr>en_extract = keyword_extract lower get_n_best stop_words\<rparr>"

section \<open>GLiNER entities\<close>

definition DEFAULT_REPO :: string where "DEFAULT_REPO = ''onnx-community/gliner_small-v2.1''"
definition MODEL_FILE :: string where "MODEL_FILE = ''onnx/model.onnx''"
definition TOKENIZER_FILE :: string where "TOKENIZER_FILE = ''tokenizer.json''"
definition FULL_THRESHOLD :: f32 where "FULL_THRESHOLD = F32 0x3F000000"
definition FAST_CUTOFF :: f32 where "FAST_CUTOFF = F32 0x3F59999A"

definition entities_from_spans :: "(string \<Rightarrow> string) \<Rightarrow> (string \<times> f32) list \<Rightarrow> f32 \<Rightarrow> entity btree_set" where
  "entities_from_spans lower spans cutoff =
     btree_collect (List.map_filter (\<lambda>(text, _). entity_normalize lower text)
       (filter (\<lambda>(_, score). f32_le cutoff score) spans))"

record ('i, 'g) gliner_lib =
  hub_get :: "string option \<Rightarrow> string \<Rightarrow> string \<Rightarrow> string + string"
  gliner_model_new :: "f32 \<Rightarrow> string \<Rightarrow> string \<Rightarrow> string + 'g"
  text_input_new :: "string list \<Rightarrow> string list \<Rightarrow> string + 'i"
  inference :: "'g \<Rightarrow> 'i \<Rightarrow> string + (string \<times> f32) list list"

record 'g gliner_entities =
  gl_model :: 'g
  gl_labels :: "string list"

definition download :: "('i, 'g) gliner_lib \<Rightarrow> env \<Rightarrow> string \<Rightarrow> string \<Rightarrow> string res" where
  "download lib env repo file =
     map_err EntityExtraction (hub_get lib (env ''SEMISWEET_MODEL_CACHE'') repo file)"

definition gliner_new ::
  "('i, 'g) gliner_lib \<Rightarrow> env \<Rightarrow> string list \<Rightarrow> string option \<Rightarrow> string option \<Rightarrow> string option
   \<Rightarrow> 'g gliner_entities res" where
  "gliner_new lib env labels repo model tokenizer =
     (let repo' = (case repo of Some r \<Rightarrow> r | None \<Rightarrow> DEFAULT_REPO) in
      try_bind (case tokenizer of Some p \<Rightarrow> Inr p | None \<Rightarrow> download lib env repo' TOKENIZER_FILE)
        (\<lambda>tokenizer_path.
      try_bind (case model of Some p \<Rightarrow> Inr p | None \<Rightarrow> download lib env repo' MODEL_FILE) (\<lambda>model_path.
      try_bind (map_err EntityExtraction (gliner_model_new lib FULL_THRESHOLD tokenizer_path model_path))
        (\<lambda>m. Inr \<lparr>gl_model = m, gl_labels = labels\<rparr>))))"

definition scored_spans ::
  "('i, 'g) gliner_lib \<Rightarrow> 'g gliner_entities \<Rightarrow> string \<Rightarrow> (string \<times> f32) list res" where
  "scored_spans lib g text =
     try_bind (map_err EntityExtraction (text_input_new lib [text] (gl_labels g))) (\<lambda>input.
     try_bind (map_err EntityExtraction (inference lib (gl_model g) input)) (\<lambda>output. Inr (concat output)))"

definition gliner_extract ::
  "(string \<Rightarrow> string) \<Rightarrow> ('i, 'g) gliner_lib \<Rightarrow> 'g gliner_entities \<Rightarrow> string \<Rightarrow> bool
   \<Rightarrow> entity btree_set res" where
  "gliner_extract lower lib g text fast =
     (let cutoff = (if fast then FAST_CUTOFF else FULL_THRESHOLD) in
      try_bind (scored_spans lib g text) (\<lambda>spans. Inr (entities_from_spans lower spans cutoff)))"

definition gliner_backend ::
  "(string \<Rightarrow> string) \<Rightarrow> ('i, 'g) gliner_lib \<Rightarrow> 'g gliner_entities \<Rightarrow> entity_backend" where
  "gliner_backend lower lib g = \<lparr>en_extract = gliner_extract lower lib g\<rparr>"

section \<open>Lemmas\<close>

lemma set_map_filter: "set (List.map_filter f xs) = {y. \<exists>x \<in> set xs. f x = Some y}"
  by (induction xs) (auto simp: List.map_filter_def split: option.splits)

lemma keyword_fast_subset_full: "fast_subset_full (keyword_backend lower get_n_best stop_words)"
proof -
  have "set (take FAST_M xs) \<subseteq> set (take FULL_N xs)" for xs :: "string list"
    by (simp add: FAST_M_def FULL_N_def set_take_subset_set_take)
  then show ?thesis
    by (fastforce simp: fast_subset_full_def keyword_backend_def keyword_extract_def Let_def set_map_filter
        split: if_splits)
qed

lemma cutoffs_ordered: "f32_le FULL_THRESHOLD FAST_CUTOFF"
  by (simp add: FULL_THRESHOLD_def FAST_CUTOFF_def f32_le_def f32_key_def f32_eval)

lemma gliner_fast_subset_full: "fast_subset_full (gliner_backend lower lib g)"
  using f32_le_trans[OF cutoffs_ordered]
  by (fastforce simp: fast_subset_full_def gliner_backend_def gliner_extract_def entities_from_spans_def
      result_simps set_map_filter Let_def)

text \<open>The keyword extractor finds entities in the fast mode whenever it does in the full mode and the
  best keywords are not blank.\<close>

lemma keyword_same_source:
  assumes "\<And>w. w \<in> set (get_n_best FULL_N text stop_words) \<Longrightarrow> trim w \<noteq> []"
  shows "keyword_extract lower get_n_best stop_words text True = Inr []
    \<longleftrightarrow> keyword_extract lower get_n_best stop_words text False = Inr []"
proof -
  let ?ranked = "get_n_best FULL_N text stop_words"
  have norm: "entity_normalize lower w \<noteq> None" if "trim w \<noteq> []" for w
  proof -
    have "join_with '' '' (split_whitespace w) \<noteq> []"
      using that split_whitespace_of_trim[of w] split_whitespace_nonempty[of _ w]
      by (intro join_with_nonempty) auto
    then show ?thesis by (simp add: entity_normalize_def Let_def)
  qed
  have "btree_collect (List.map_filter (entity_normalize lower) (take n ?ranked)) = [] \<longleftrightarrow> ?ranked = []"
    if "0 < n" for n
  proof -
    have "btree_collect xs = [] \<longleftrightarrow> xs = []" for xs :: "entity list"
      by (metis set_btree_collect set_empty)
    moreover have "List.map_filter (entity_normalize lower) (take n ?ranked) = [] \<longleftrightarrow> take n ?ranked = []"
    proof (cases "take n ?ranked")
      case (Cons w ws)
      then have "w \<in> set ?ranked" by (metis in_set_takeD list.set_intros(1))
      with assms norm obtain y where "entity_normalize lower w = Some y" by blast
      with Cons show ?thesis by (simp add: List.map_filter_def)
    qed (auto simp: List.map_filter_def)
    ultimately show ?thesis using that by simp
  qed
  then show ?thesis by (auto simp: keyword_extract_def Let_def FAST_M_def FULL_N_def)
qed

section \<open>Properties\<close>

text \<open>
  Both entity backends keep the promise of their trait: what they extract in the fast mode they
  extract in the full mode too, whatever the keyword ranking, the recognised spans and their scores.
\<close>

theorem entity_backends_fast_subset_full:
  "fast_subset_full (keyword_backend lower get_n_best stop_words)
   \<and> fast_subset_full (gliner_backend lower lib g)"
  by (simp add: keyword_fast_subset_full gliner_fast_subset_full)

text \<open>
  Of a successful Voyage response the embedder uses the vector of least index, in whatever order
  the service lists them.
\<close>

theorem voyage_embed_least_index:
  assumes "post (vo_base_url v) (vo_api_key v) \<lparr>er_input = [text], er_model = vo_model v,
      er_input_type = ''query'', er_output_dimension = dim_get (vo_dim v), er_output_dtype = ''float''\<rparr> = Inr response"
    and "200 \<le> resp_status response" "resp_status response \<le> 299" "resp_json response = Inr parsed"
    and "d \<in> set parsed" "\<forall>d' \<in> set parsed. d' \<noteq> d \<longrightarrow> ed_index d < ed_index d'"
  shows "voyage_embed post v text = embedding_new (ed_embedding d)"
proof -
  obtain x xs where s: "sort_key ed_index parsed = x # xs"
    using assms(5) by (metis list.exhaust list.set(1) empty_iff set_sort)
  have "d \<in> set (x # xs)" "x \<in> set parsed" using s assms(5) by (metis set_sort list.set_intros(1))+
  moreover have "sorted (map ed_index (x # xs))" using s by (metis sorted_sort_key)
  ultimately have "x = d" using assms(6) by fastforce
  with s assms(1-4) show ?thesis by (simp add: voyage_embed_def Let_def)
qed

theorem voyage_embed_least_index_witness:
  "voyage_embed (\<lambda>_ _ _. Inr \<lparr>resp_status = 200, resp_text = Inr [],
       resp_json = Inr [\<lparr>ed_embedding = [f32_zero, f32_one], ed_index = 1\<rparr>,
                        \<lparr>ed_embedding = [f32_one, f32_zero], ed_index = 0\<rparr>]\<rparr>)
     \<lparr>vo_api_key = ''k'', vo_model = ''m'', vo_dim = Dim 2, vo_base_url = ''u''\<rparr> ''hello''
   = embedding_new [f32_one, f32_zero]"
  by (subst voyage_embed_least_index[where d = "\<lparr>ed_embedding = [f32_one, f32_zero], ed_index = 0\<rparr>"]) auto

end
