(* ===== verification/Cache.thy ===== *)
theory Cache
  imports Scoring Vector_Memory Compression Model_Backends
begin

text \<open>
  \<^verbatim>\<open>src/cache.rs\<close>: the cache of one namespace, composed of an entity backend, an embedding
  backend, a vector store and an object store. The stores are stateful, so every operation takes and
  returns their two states. Client lemmas are proved once in the locale \<open>cache_contract\<close>, whose
  laws are the contracts of the two stores; it is interpreted on the in-memory vector store with the
  on-disk object store. The parameter \<open>new_v5\<close> is the UUID library's hash.
\<close>

section \<open>Operations\<close>

record ('v, 'o) cache =
  cache_namespace :: namespace
  cache_entity :: entity_backend
  cache_embedding :: embedding_backend
  cache_vector :: "'v vector_backend"
  cache_object :: "'o object_backend"
  cache_scoring :: scoring_config

definition cache_new ::
  "namespace \<Rightarrow> entity_backend \<Rightarrow> embedding_backend \<Rightarrow> 'v vector_backend \<Rightarrow> 'o object_backend
   \<Rightarrow> scoring_config \<Rightarrow> ('v, 'o) cache" where
  "cache_new ns entity embedding vector object scoring =
     \<lparr>cache_namespace = ns, cache_entity = entity, cache_embedding = embedding,
      cache_vector = vector, cache_object = object, cache_scoring = scoring\<rparr>"

definition extract_entities ::
  "('v, 'o) cache \<Rightarrow> query_text \<Rightarrow> ctx option \<Rightarrow> bool \<Rightarrow> entity btree_set res" where
  "extract_entities c q context_opt fast =
     try_bind (en_extract (cache_entity c) (query_str q) fast) (\<lambda>entities.
       case context_opt of
         Some ctx \<Rightarrow>
           if entities = [] then en_extract (cache_entity c) (ctx_str ctx) fast else Inr entities
       | None \<Rightarrow> Inr entities)"

definition find_match ::
  "('v, 'o) cache \<Rightarrow> query_text \<Rightarrow> key btree_set \<Rightarrow> ctx option \<Rightarrow> 'v \<Rightarrow> scored_hit option res \<times> 'v" where
  "find_match c q keys context_opt v =
     (case extract_entities c q context_opt True of
        Inl e \<Rightarrow> (Inl e, v)
      | Inr entities \<Rightarrow>
          (case eb_embed_query (cache_embedding c) (query_str q) of
             Inl e \<Rightarrow> (Inl e, v)
           | Inr embedding \<Rightarrow>
               let f = \<lparr>keys_all = keys,
                        entities_any = (if entity_filter (cache_scoring c) then entities else [])\<rparr>
               in try_state
                    (vb_query (cache_vector c) (cache_namespace c) embedding context_opt f
                       (top_k (cache_scoring c)))
                    (\<lambda>hits v'. (select (cache_scoring c) entities context_opt hits, v')) v))"

definition cache_get ::
  "('v, 'o) cache \<Rightarrow> query_text \<Rightarrow> key btree_set \<Rightarrow> ctx option \<Rightarrow> 'v \<times> 'o
   \<Rightarrow> bytes option res \<times> ('v \<times> 'o)" where
  "cache_get c q keys context_opt s =
     (case find_match c q keys context_opt (fst s) of
        (Inl e, v') \<Rightarrow> (Inl e, (v', snd s))
      | (Inr (Some hit), v') \<Rightarrow>
          (case ob_get (cache_object c) (cache_namespace c) (hit_id hit) (snd s) of
             (r, o') \<Rightarrow> (r, (v', o')))
      | (Inr None, v') \<Rightarrow> (Inr None, (v', snd s)))"

definition cache_prepare ::
  "(bytes \<Rightarrow> bytes \<Rightarrow> bytes) \<Rightarrow> ('v, 'o) cache \<Rightarrow> query_text \<Rightarrow> key btree_set \<Rightarrow> ctx option
   \<Rightarrow> vector_entry res" where
  "cache_prepare new_v5 c q keys context_opt =
     try_bind (extract_entities c q context_opt False) (\<lambda>entities.
     try_bind (eb_embed_query (cache_embedding c) (query_str q)) (\<lambda>embedding.
       Inr \<lparr>ve_id = entry_id_derive new_v5 q keys context_opt, ve_vector = embedding,
            ve_keys = keys, ve_entities = entities, ve_context = context_opt\<rparr>))"

definition cache_commit ::
  "('v, 'o) cache \<Rightarrow> vector_entry \<Rightarrow> bytes \<Rightarrow> 'v \<times> 'o \<Rightarrow> unit res \<times> ('v \<times> 'o)" where
  "cache_commit c entry v s =
     (case ob_put (cache_object c) (cache_namespace c) (ve_id entry) v (snd s) of
        (Inl e, o') \<Rightarrow> (Inl e, (fst s, o'))
      | (Inr _, o') \<Rightarrow>
          (case vb_upsert (cache_vector c) (cache_namespace c) entry (fst s) of
             (r, v') \<Rightarrow> (r, (v', o'))))"

definition cache_set ::
  "(bytes \<Rightarrow> bytes \<Rightarrow> bytes) \<Rightarrow> ('v, 'o) cache \<Rightarrow> query_text \<Rightarrow> key btree_set \<Rightarrow> ctx option \<Rightarrow> bytes
   \<Rightarrow> 'v \<times> 'o \<Rightarrow> unit res \<times> ('v \<times> 'o)" where
  "cache_set new_v5 c q keys context_opt v s =
     (case cache_prepare new_v5 c q keys context_opt of
        Inl e \<Rightarrow> (Inl e, s)
      | Inr entry \<Rightarrow> cache_commit c entry v s)"

definition cache_delete ::
  "('v, 'o) cache \<Rightarrow> query_text \<Rightarrow> key btree_set \<Rightarrow> ctx option \<Rightarrow> 'v \<times> 'o \<Rightarrow> bool res \<times> ('v \<times> 'o)" where
  "cache_delete c q keys context_opt s =
     (case find_match c q keys context_opt (fst s) of
        (Inl e, v') \<Rightarrow> (Inl e, (v', snd s))
      | (Inr (Some hit), v') \<Rightarrow>
          (case vb_delete (cache_vector c) (cache_namespace c) (hit_id hit) v' of
             (Inl e, v'') \<Rightarrow> (Inl e, (v'', snd s))
           | (Inr _, v'') \<Rightarrow>
               (case ob_delete (cache_object c) (cache_namespace c) (hit_id hit) (snd s) of
                  (Inl e, o') \<Rightarrow> (Inl e, (v'', o'))
                | (Inr _, o') \<Rightarrow> (Inr True, (v'', o'))))
      | (Inr None, v') \<Rightarrow> (Inr False, (v', snd s)))"

section \<open>Sequences of operations\<close>

datatype cache_op =
    OpGet query_text "key btree_set" "ctx option"
  | OpSet query_text "key btree_set" "ctx option" bytes
  | OpDelete query_text "key btree_set" "ctx option"

fun cache_step ::
  "(bytes \<Rightarrow> bytes \<Rightarrow> bytes) \<Rightarrow> ('v, 'o) cache \<Rightarrow> cache_op \<Rightarrow> 'v \<times> 'o \<Rightarrow> 'v \<times> 'o" where
  "cache_step new_v5 c (OpGet q keys context_opt) s = snd (cache_get c q keys context_opt s)"
| "cache_step new_v5 c (OpSet q keys context_opt v) s = snd (cache_set new_v5 c q keys context_opt v s)"
| "cache_step new_v5 c (OpDelete q keys context_opt) s = snd (cache_delete c q keys context_opt s)"

text \<open>What a set writes can be stored: the id it derives and the entry it prepares.\<close>

definition set_storable ::
  "(bytes \<Rightarrow> bytes \<Rightarrow> bytes) \<Rightarrow> ('v, 'o) cache \<Rightarrow> (namespace \<Rightarrow> entry_id \<Rightarrow> bool) \<Rightarrow> (vector_entry \<Rightarrow> bool)
   \<Rightarrow> query_text \<Rightarrow> key btree_set \<Rightarrow> ctx option \<Rightarrow> bool" where
  "set_storable new_v5 c usable accepts q keys context_opt \<longleftrightarrow>
     usable (cache_namespace c) (entry_id_derive new_v5 q keys context_opt)
     \<and> (\<forall>e. cache_prepare new_v5 c q keys context_opt = Inr e \<longrightarrow> accepts e)"

fun op_storable ::
  "(bytes \<Rightarrow> bytes \<Rightarrow> bytes) \<Rightarrow> ('v, 'o) cache \<Rightarrow> (namespace \<Rightarrow> entry_id \<Rightarrow> bool) \<Rightarrow> (vector_entry \<Rightarrow> bool)
   \<Rightarrow> cache_op \<Rightarrow> bool" where
  "op_storable new_v5 c usable accepts (OpSet q keys context_opt v) = set_storable new_v5 c usable accepts q keys context_opt"
| "op_storable new_v5 c usable accepts _ = True"

definition ids_usable ::
  "(bytes \<Rightarrow> bytes \<Rightarrow> bytes) \<Rightarrow> ('v, 'o) cache \<Rightarrow> (namespace \<Rightarrow> entry_id \<Rightarrow> bool) \<Rightarrow> (vector_entry \<Rightarrow> bool) \<Rightarrow> bool" where
  "ids_usable new_v5 c usable accepts \<longleftrightarrow> (\<forall>q keys context_opt. set_storable new_v5 c usable accepts q keys context_opt)"

lemma ids_usable_ops: "ids_usable new_v5 c usable accepts \<Longrightarrow> op_storable new_v5 c usable accepts opr"
  by (cases opr) (simp_all add: ids_usable_def)

section \<open>The contract of the backends and its consequences\<close>

locale cache_contract =
  fixes c :: "('v, 'o) cache"
    and entries :: "'v \<Rightarrow> namespace \<Rightarrow> entry_id \<Rightarrow> vector_entry option"
    and vinvar :: "'v \<Rightarrow> bool"
    and objects :: "'o \<Rightarrow> namespace \<times> entry_id \<Rightarrow> bytes option"
    and oinvar :: "'o \<Rightarrow> bool"
    and usable :: "namespace \<Rightarrow> entry_id \<Rightarrow> bool"
    and accepts :: "vector_entry \<Rightarrow> bool"
  assumes vector: "vector_sound (vb_upsert (cache_vector c)) (vb_query (cache_vector c))
      (vb_delete (cache_vector c)) entries vinvar accepts (cache_namespace c)"
    and object: "object_store (ob_put (cache_object c)) (ob_get (cache_object c))
      (ob_delete (cache_object c)) objects oinvar usable"

sublocale cache_contract \<subseteq> vs: vector_sound "vb_upsert (cache_vector c)" "vb_query (cache_vector c)"
  "vb_delete (cache_vector c)" entries vinvar accepts "cache_namespace c"
  by (rule vector)

sublocale cache_contract \<subseteq> os: object_store "ob_put (cache_object c)" "ob_get (cache_object c)"
  "ob_delete (cache_object c)" objects oinvar usable
  by (rule object)

text \<open>The hits that the vector store returns to the lookup of an operation, for the embedding of the query, the
  keys asked for and the entities of the query; their scores are those the store computed.\<close>

definition lookup_hit ::
  "('v, 'o) cache \<Rightarrow> query_text \<Rightarrow> key btree_set \<Rightarrow> ctx option \<Rightarrow> 'v \<Rightarrow> entity btree_set \<Rightarrow> embedding \<Rightarrow> scored_hit \<Rightarrow> bool" where
  "lookup_hit c q keys context_opt v es emb hit \<longleftrightarrow>
     extract_entities c q context_opt True = Inr es
     \<and> eb_embed_query (cache_embedding c) (query_str q) = Inr emb
     \<and> (case fst (vb_query (cache_vector c) (cache_namespace c) emb context_opt
            \<lparr>keys_all = keys, entities_any = (if entity_filter (cache_scoring c) then es else [])\<rparr>
            (top_k (cache_scoring c)) v) of
          Inl _ \<Rightarrow> False
        | Inr hits \<Rightarrow> hit \<in> set hits)"

text \<open>What the lookup of an operation may find: a stored entry with all the keys asked for, for which the store
  returned a hit whose entities and scores pass the gates. A \<open>BTreeSet\<close> is sorted and without duplicates
  by its type, which is the condition \<open>btree_ok\<close>.\<close>

definition semantic_match ::
  "('v, 'o) cache \<Rightarrow> ('v \<Rightarrow> namespace \<Rightarrow> entry_id \<Rightarrow> vector_entry option) \<Rightarrow> query_text
   \<Rightarrow> key btree_set \<Rightarrow> ctx option \<Rightarrow> 'v \<Rightarrow> scored_hit \<Rightarrow> vector_entry \<Rightarrow> bool" where
  "semantic_match c entries q keys context_opt v hit e \<longleftrightarrow>
     entries v (cache_namespace c) (hit_id hit) = Some e
     \<and> ve_id e = hit_id hit \<and> hit_entities hit = ve_entities e
     \<and> set keys \<subseteq> set (ve_keys e)
     \<and> (\<exists>es emb. lookup_hit c q keys context_opt v es emb hit
          \<and> (btree_ok es \<longrightarrow> accepted (cache_scoring c) es context_opt hit))"

definition hit_stands_for_entities :: "scored_hit \<Rightarrow> vector_entry \<Rightarrow> bool" where
  "hit_stands_for_entities hit e \<longleftrightarrow> hit_id hit = ve_id e \<and> hit_entities hit = ve_entities e"

text \<open>The stores agree: every entry of the namespace can be stored and has its object.\<close>

definition no_dangling ::
  "('v, 'o) cache \<Rightarrow> ('v \<Rightarrow> namespace \<Rightarrow> entry_id \<Rightarrow> vector_entry option)
   \<Rightarrow> ('o \<Rightarrow> namespace \<times> entry_id \<Rightarrow> bytes option) \<Rightarrow> (namespace \<Rightarrow> entry_id \<Rightarrow> bool) \<Rightarrow> 'v \<times> 'o \<Rightarrow> bool" where
  "no_dangling c entries objects usable s \<longleftrightarrow>
     (\<forall>i e. entries (fst s) (cache_namespace c) i = Some e \<longrightarrow>
        usable (cache_namespace c) i \<and> objects (snd s) (cache_namespace c, i) \<noteq> None)"

lemma find_match_cases:
  assumes "find_match c q keys context_opt v = (r, v')"
  obtains (failed) e where "r = Inl e" "v' = v"
  | (queried) es emb out where "extract_entities c q context_opt True = Inr es"
      "eb_embed_query (cache_embedding c) (query_str q) = Inr emb"
      "vb_query (cache_vector c) (cache_namespace c) emb context_opt
         \<lparr>keys_all = keys, entities_any = (if entity_filter (cache_scoring c) then es else [])\<rparr>
         (top_k (cache_scoring c)) v = (out, v')"
      "r = try_bind out (select (cache_scoring c) es context_opt)"
  using assms
  by (auto simp: find_match_def Let_def try_state_def split: sum.splits prod.splits)

text \<open>
  Reading back one's own write. The fast extraction of a lookup must not fall back to the context when
  the full extraction of the write did not: \<open>same_source\<close> says that the two modes agree on whether
  the query alone yields entities.
\<close>

definition same_source :: "entity_backend \<Rightarrow> query_text \<Rightarrow> ctx option \<Rightarrow> bool" where
  "same_source b q context_opt \<longleftrightarrow>
     context_opt = None \<or> (en_extract b (query_str q) True = Inr [] \<longleftrightarrow> en_extract b (query_str q) False = Inr [])"

definition extracts_sets :: "entity_backend \<Rightarrow> bool" where
  "extracts_sets b \<longleftrightarrow> (\<forall>t fast es. en_extract b t fast = Inr es \<longrightarrow> btree_ok es)"

lemma extract_entities_ok:
  "extracts_sets (cache_entity c) \<Longrightarrow> extract_entities c q context_opt fast = Inr es \<Longrightarrow> btree_ok es"
  by (auto simp: extract_entities_def extracts_sets_def result_simps split: option.splits if_splits)

lemma extract_entities_subset:
  assumes "fast_subset_full (cache_entity c)" "same_source (cache_entity c) q context_opt"
    and "extract_entities c q context_opt True = Inr es" "extract_entities c q context_opt False = Inr full"
  shows "set es \<subseteq> set full"
proof -
  from assms(3,4) obtain qf qw where q: "en_extract (cache_entity c) (query_str q) True = Inr qf"
    "en_extract (cache_entity c) (query_str q) False = Inr qw"
    by (auto simp: extract_entities_def result_simps)
  have sub: "en_extract (cache_entity c) t True = Inr a \<Longrightarrow> en_extract (cache_entity c) t False = Inr b
      \<Longrightarrow> set a \<subseteq> set b" for t a b
    using assms(1) by (auto simp: fast_subset_full_def)
  show ?thesis
  proof (cases context_opt)
    case None
    with assms(3,4) q sub show ?thesis by (auto simp: extract_entities_def)
  next
    case (Some ctx)
    with assms(2) q have "qf = [] \<longleftrightarrow> qw = []" by (simp add: same_source_def)
    with Some assms(3,4) q sub[OF q] show ?thesis
      using sub[of "ctx_str ctx" es full] by (cases "qf = []") (auto simp: extract_entities_def)
  qed
qed

lemma singleton_by_id:
  assumes "hits \<noteq> []" "distinct (map hit_id hits)" "\<And>h. h \<in> set hits \<Longrightarrow> hit_id h = i"
  obtains h where "hits = [h]"
proof -
  from assms(1) obtain h t where ht: "hits = h # t" by (cases hits) auto
  have "t = []"
  proof (cases t)
    case (Cons g u)
    with ht assms(3)[of h] assms(3)[of g] have "hit_id h = hit_id g" by simp
    with ht Cons assms(2) show ?thesis by simp
  qed simp
  with ht that show thesis by blast
qed

lemma own_entity_gate:
  "set es \<subseteq> set (hit_entities h) \<Longrightarrow> entity_gate es h"
proof (cases "es = []")
  case False
  assume "set es \<subseteq> set (hit_entities h)"
  then have "set es \<inter> set (hit_entities h) = set es" by auto
  moreover have "1 \<le> card (set es)" using False by (simp add: Suc_le_eq card_gt_0_iff)
  ultimately show ?thesis by (simp add: entity_gate_def)
qed (simp add: entity_gate_def)

context cache_contract
begin

lemma find_match_frame: "vinvar v \<Longrightarrow> find_match c q keys context_opt v = (r, v') \<Longrightarrow> v' = v"
  by (erule find_match_cases) (auto dest: vs.query_frame)

lemma find_match_sound:
  assumes "vinvar v" and "find_match c q keys context_opt v = (Inr (Some hit), v')"
  shows "\<exists>e. semantic_match c entries q keys context_opt v hit e"
  using assms(2)
proof (cases rule: find_match_cases)
  case (queried es emb out)
  from queried(4)[symmetric] obtain hits
    where hits: "out = Inr hits" "select (cache_scoring c) es context_opt hits = Inr (Some hit)"
    by (auto simp: try_bind_Inr_iff)
  from hits(2) have "hit \<in> set hits"
    by (auto simp: select_def dest: select_loop_mem)
  with vs.query_sound[OF assms(1) queried(3)[unfolded hits(1)]]
  obtain e where "entries v (cache_namespace c) (hit_id hit) = Some e" "hit_stands_for hit e"
    "set keys \<subseteq> set (ve_keys e)" by (fastforce simp: passes_filter_def)
  moreover have "lookup_hit c q keys context_opt v es emb hit"
    using queried(1-3) hits(1) \<open>hit \<in> set hits\<close> by (simp add: lookup_hit_def)
  ultimately show ?thesis
    using select_Some[OF _ hits(2)] unfolding semantic_match_def hit_stands_for_def by metis
qed simp

lemma cache_get_sound:
  assumes "vinvar v" "oinvar obs" "no_dangling c entries objects usable (v, obs)"
    and "cache_get c q keys context_opt (v, obs) = (r, s')"
  shows "s' = (v, obs)"
    and "r = Inr (Some val) \<Longrightarrow>
      \<exists>hit e. semantic_match c entries q keys context_opt v hit e
        \<and> objects obs (cache_namespace c, ve_id e) = Some val"
    and "r = Inr None \<Longrightarrow> find_match c q keys context_opt v = (Inr None, v)"
proof -
  obtain m v' where m: "find_match c q keys context_opt v = (m, v')" by fastforce
  have v': "v' = v" by (rule find_match_frame[OF assms(1) m])
  have "s' = (v, obs) \<and> (r = Inr (Some val) \<longrightarrow>
      (\<exists>hit e. semantic_match c entries q keys context_opt v hit e
        \<and> objects obs (cache_namespace c, ve_id e) = Some val))
    \<and> (r = Inr None \<longrightarrow> find_match c q keys context_opt v = (Inr None, v))"
  proof (cases "\<exists>hit. m = Inr (Some hit)")
    case False
    then show ?thesis using assms(4) m v' by (auto simp: cache_get_def split: sum.splits option.splits)
  next
    case True
    then obtain hit where hit: "m = Inr (Some hit)" by blast
    with m find_match_sound[OF assms(1)] obtain e where e: "semantic_match c entries q keys context_opt v hit e"
      by blast
    then have ent: "entries v (cache_namespace c) (hit_id hit) = Some e" "ve_id e = hit_id hit"
      by (auto simp: semantic_match_def)
    with assms(3) have us: "usable (cache_namespace c) (hit_id hit)"
      and some: "objects obs (cache_namespace c, hit_id hit) \<noteq> None"
      by (auto simp: no_dangling_def)
    obtain out o' where g: "ob_get (cache_object c) (cache_namespace c) (hit_id hit) obs = (out, o')"
      by fastforce
    have "o' = obs" by (rule os.get_frame[OF g])
    moreover have "out = Inr x \<Longrightarrow> x = objects obs (cache_namespace c, hit_id hit)" for x
      using os.get_ok[OF assms(2) us] g by blast
    ultimately show ?thesis
      using assms(4) m hit v' g e ent some
      by (auto simp: cache_get_def intro!: exI[of _ hit] exI[of _ e])
  qed
  then show "s' = (v, obs)"
    and "r = Inr (Some val) \<Longrightarrow> \<exists>hit e. semantic_match c entries q keys context_opt v hit e
        \<and> objects obs (cache_namespace c, ve_id e) = Some val"
    and "r = Inr None \<Longrightarrow> find_match c q keys context_opt v = (Inr None, v)" by blast+
qed

lemma cache_commit_effect:
  assumes "vinvar v" "oinvar obs" "usable (cache_namespace c) (ve_id entry)"
    and "cache_commit c entry val (v, obs) = (r, (v', obs'))" and "accepts entry"
  shows "vinvar v'" "oinvar obs'"
    and "r = Inr () \<Longrightarrow> entries v' (cache_namespace c) = (entries v (cache_namespace c))(ve_id entry \<mapsto> entry)
      \<and> objects obs' (cache_namespace c, ve_id entry) = Some val"
    and "r \<noteq> Inr () \<Longrightarrow> entries v' = entries v
      \<or> entries v' (cache_namespace c) = (entries v (cache_namespace c))(ve_id entry \<mapsto> entry)
         \<and> objects obs' (cache_namespace c, ve_id entry) = Some val"
    and "m \<noteq> cache_namespace c \<Longrightarrow> entries v' m = entries v m"
    and "usable m j \<Longrightarrow> (m, j) \<noteq> (cache_namespace c, ve_id entry) \<Longrightarrow> objects obs' (m, j) = objects obs (m, j)"
    and "objects obs (cache_namespace c, ve_id entry) \<noteq> None \<Longrightarrow> objects obs' (cache_namespace c, ve_id entry) \<noteq> None"
proof -
  let ?ns = "cache_namespace c"
  obtain r1 o1 where put: "ob_put (cache_object c) ?ns (ve_id entry) val obs = (r1, o1)" by fastforce
  obtain r2 v2 where ups: "vb_upsert (cache_vector c) ?ns entry v = (r2, v2)" by fastforce
  have run: "(r, v', obs') = (case r1 of Inl e \<Rightarrow> (Inl e, v, o1) | Inr _ \<Rightarrow> (r2, v2, o1))"
    using assms(4) put ups by (auto simp: cache_commit_def split: sum.splits)
  then have o1: "obs' = o1" by (auto split: sum.splits)
  note putI = os.put_invar[OF assms(2,3) put] and upsI = vs.upsert_invar[OF assms(1,5) ups]
  have ok: "objects o1 (?ns, ve_id entry) = Some val" if "r1 = Inr ()"
    using os.put_ok[OF assms(2,3) put[unfolded that]] by blast
  have frame: "objects o1 (m, j) = objects obs (m, j)"
    if "usable m j" "(m, j) \<noteq> (?ns, ve_id entry)" for m j
    using put os.put_ok[OF assms(2,3)] os.put_err[OF assms(2,3)] that by (cases r1) auto
  show "oinvar obs'" using putI o1 by simp
  show "vinvar v'" using run upsI assms(1) by (auto split: sum.splits)
  show "entries v' ?ns = (entries v ?ns)(ve_id entry \<mapsto> entry) \<and> objects obs' (?ns, ve_id entry) = Some val"
    if "r = Inr ()"
    using run that ok o1 ups vs.upsert_ok[OF assms(1,5)] by (cases r1) auto
  show "entries v' = entries v \<or> entries v' ?ns = (entries v ?ns)(ve_id entry \<mapsto> entry)
      \<and> objects obs' (?ns, ve_id entry) = Some val" if err: "r \<noteq> Inr ()"
  proof (cases r1)
    case (Inr u)
    then obtain e where "r2 = Inl e" using run err by (cases r2) auto
    with run Inr ups vs.upsert_err[OF assms(1,5)] ok o1 show ?thesis by fastforce
  qed (use run in simp)
  show "entries v' m = entries v m" if "m \<noteq> ?ns"
    using run vs.upsert_frame[OF assms(1,5) ups that] by (cases r1) auto
  show "objects obs' (m, j) = objects obs (m, j)" if "usable m j" "(m, j) \<noteq> (?ns, ve_id entry)"
    using frame[OF that] o1 by simp
  show "objects obs' (?ns, ve_id entry) \<noteq> None" if "objects obs (?ns, ve_id entry) \<noteq> None"
    using put os.put_err[OF assms(2,3)] ok that o1 assms(3) by (cases r1) fastforce+
qed

lemma cache_commit_no_dangling:
  assumes "vinvar v" "oinvar obs" "usable (cache_namespace c) (ve_id entry)"
    and "cache_commit c entry val (v, obs) = (r, s')"
    and "no_dangling c entries objects usable (v, obs)" "accepts entry"
  shows "no_dangling c entries objects usable s'"
proof -
  obtain v' obs' where s': "s' = (v', obs')" by fastforce
  note eff = cache_commit_effect[OF assms(1-3) assms(4)[unfolded s'] assms(6)]
  have objs: "objects obs' (cache_namespace c, i) \<noteq> None"
    if "entries v (cache_namespace c) i = Some e" for i e
    using that assms(5) eff(6)[of "cache_namespace c" i] eff(7)
    by (cases "i = ve_id entry") (auto simp: no_dangling_def)
  have "entries v' = entries v \<or> entries v' (cache_namespace c) = (entries v (cache_namespace c))(ve_id entry \<mapsto> entry)
      \<and> objects obs' (cache_namespace c, ve_id entry) = Some val"
    using eff(3,4) by (cases "r = Inr ()") simp_all
  then show ?thesis
  proof
    assume "entries v' = entries v"
    with objs assms(5) s' show ?thesis by (auto simp: no_dangling_def)
  next
    assume "entries v' (cache_namespace c) = (entries v (cache_namespace c))(ve_id entry \<mapsto> entry)
      \<and> objects obs' (cache_namespace c, ve_id entry) = Some val"
    with objs assms(3,5) s' show ?thesis by (auto simp: no_dangling_def split: if_splits)
  qed
qed

lemma cache_set_no_dangling:
  assumes "vinvar v" "oinvar obs" "set_storable new_v5 c usable accepts q keys context_opt"
    and "cache_set new_v5 c q keys context_opt val (v, obs) = (r, s')"
    and "no_dangling c entries objects usable (v, obs)"
  shows "no_dangling c entries objects usable s' \<and> vinvar (fst s') \<and> oinvar (snd s')"
proof (cases "cache_prepare new_v5 c q keys context_opt")
  case (Inl e)
  with assms show ?thesis by (auto simp: cache_set_def)
next
  case (Inr entry)
  then have i: "ve_id entry = entry_id_derive new_v5 q keys context_opt"
    by (auto simp: cache_prepare_def result_simps)
  from Inr assms(4) have commit: "cache_commit c entry val (v, obs) = (r, s')"
    by (simp add: cache_set_def)
  then have "cache_commit c entry val (v, obs) = (r, (fst s', snd s'))" by simp
  moreover have "usable (cache_namespace c) (ve_id entry)" "accepts entry" using assms(3) Inr i by (auto simp: set_storable_def)
  ultimately show ?thesis
    using commit cache_commit_no_dangling[OF assms(1,2) _ commit assms(5)] cache_commit_effect(1,2)[OF assms(1,2)] by blast
qed

lemma cache_delete_cases:
  assumes "vinvar v" "oinvar obs" "no_dangling c entries objects usable (v, obs)"
    and "cache_delete c q keys context_opt (v, obs) = (r, (v', obs'))"
  obtains (unchanged) "v' = v" "obs' = obs" "r \<noteq> Inr True"
    "r = Inr False \<longleftrightarrow> find_match c q keys context_opt v = (Inr None, v)"
  | (undecided) i err where "vb_delete (cache_vector c) (cache_namespace c) i v = (Inl err, v')"
    "obs' = obs" "r = Inl err"
  | (removed) hit e o_res where "semantic_match c entries q keys context_opt v hit e"
    "usable (cache_namespace c) (hit_id hit)"
    "vb_delete (cache_vector c) (cache_namespace c) (hit_id hit) v = (Inr (), v')"
    "ob_delete (cache_object c) (cache_namespace c) (hit_id hit) obs = (o_res, obs')"
    "r = (case o_res of Inl e \<Rightarrow> Inl e | Inr _ \<Rightarrow> Inr True)"
proof -
  obtain m v1 where m: "find_match c q keys context_opt v = (m, v1)" by fastforce
  have v1: "v1 = v" by (rule find_match_frame[OF assms(1) m])
  show thesis
  proof (cases "\<exists>hit. m = Inr (Some hit)")
    case False
    then show thesis
      using unchanged assms(4) m v1 by (auto simp: cache_delete_def split: sum.splits option.splits)
  next
    case True
    then obtain hit where hit: "m = Inr (Some hit)" by blast
    with m find_match_sound[OF assms(1)] obtain e where e: "semantic_match c entries q keys context_opt v hit e"
      by blast
    then have us: "usable (cache_namespace c) (hit_id hit)"
      using assms(3) by (auto simp: no_dangling_def semantic_match_def)
    obtain r1 v2 where d1: "vb_delete (cache_vector c) (cache_namespace c) (hit_id hit) v = (r1, v2)"
      by fastforce
    obtain r2 o2 where d2: "ob_delete (cache_object c) (cache_namespace c) (hit_id hit) obs = (r2, o2)"
      by fastforce
    show thesis
    proof (cases r1)
      case (Inl err)
      with undecided[of "hit_id hit"] assms(4) m hit v1 d1 show thesis by (auto simp: cache_delete_def)
    next
      case (Inr u)
      with removed[OF e us _ _] assms(4) m hit v1 d1 d2 show thesis
        by (cases r2) (auto simp: cache_delete_def)
    qed
  qed
qed

lemma cache_delete_no_dangling:
  assumes "vinvar v" "oinvar obs" "no_dangling c entries objects usable (v, obs)"
    and "cache_delete c q keys context_opt (v, obs) = (r, s')"
  shows "no_dangling c entries objects usable s' \<and> vinvar (fst s') \<and> oinvar (snd s')"
proof -
  obtain v' obs' where s': "s' = (v', obs')" by fastforce
  from assms(1-3) assms(4)[unfolded s'] show ?thesis
  proof (cases rule: cache_delete_cases)
    case unchanged
    with assms(1-3) s' show ?thesis by simp
  next
    case (undecided i err)
    with vs.delete_invar[OF assms(1)] vs.delete_entries[OF assms(1)] assms(2,3) s' show ?thesis
      by (fastforce simp: no_dangling_def split: if_splits)
  next
    case (removed hit e o_res)
    note del = vs.delete_ok[OF assms(1) removed(3)]
    have frame: "objects obs' (cache_namespace c, j) = objects obs (cache_namespace c, j)"
      if "usable (cache_namespace c) j" "j \<noteq> hit_id hit" for j
      using removed(4) os.delete_ok[OF assms(2) removed(2)] os.delete_err[OF assms(2) removed(2)] that
      by (cases o_res) auto
    have "no_dangling c entries objects usable (v', obs')"
      unfolding no_dangling_def
    proof (intro allI impI)
      fix i f
      assume "entries (fst (v', obs')) (cache_namespace c) i = Some f"
      then have "i \<noteq> hit_id hit" "entries v (cache_namespace c) i = Some f"
        using del by (auto split: if_splits)
      with frame[of i] assms(3) show "usable (cache_namespace c) i \<and> objects (snd (v', obs')) (cache_namespace c, i) \<noteq> None"
        by (auto simp: no_dangling_def)
    qed
    moreover have "oinvar obs'"
      using os.delete_invar[OF assms(2) removed(2,4)] .
    ultimately show ?thesis using del s' by simp
  qed
qed

lemma cache_delete_removes:
  assumes "vinvar v" "oinvar obs" "no_dangling c entries objects usable (v, obs)"
    and "cache_delete c q keys context_opt (v, obs) = (Inr True, (v', obs'))"
  shows "\<exists>hit e. semantic_match c entries q keys context_opt v hit e
    \<and> entries v' = (entries v)(cache_namespace c := (entries v (cache_namespace c))(hit_id hit := None))
    \<and> objects obs' (cache_namespace c, hit_id hit) = None"
  using assms
proof (cases rule: cache_delete_cases)
  case (removed hit e o_res)
  then have "o_res = Inr ()" by (auto split: sum.splits)
  with removed(4) os.delete_ok[OF assms(2) removed(2)] vs.delete_ok[OF assms(1) removed(3)] removed(1)
  show ?thesis by blast
qed simp_all

lemma cache_step_no_dangling:
  assumes ids: "op_storable new_v5 c usable accepts opr"
    and inv: "vinvar (fst s)" "oinvar (snd s)" "no_dangling c entries objects usable s"
  shows "vinvar (fst (cache_step new_v5 c opr s)) \<and> oinvar (snd (cache_step new_v5 c opr s))
    \<and> no_dangling c entries objects usable (cache_step new_v5 c opr s)"
proof -
  obtain v obs where s: "s = (v, obs)" by fastforce
  note inv = inv[unfolded s fst_conv snd_conv]
  show ?thesis
  proof (cases opr)
    case (OpGet q keys context_opt)
    then show ?thesis
      using cache_get_sound(1)[OF inv, of q keys context_opt] inv s by (metis cache_step.simps(1) fst_conv snd_conv prod.collapse)
  next
    case (OpSet q keys context_opt val)
    then show ?thesis
      using cache_set_no_dangling[OF inv(1,2) _ _ inv(3)] ids s
      by (metis cache_step.simps(2) op_storable.simps(1) prod.collapse)
  next
    case (OpDelete q keys context_opt)
    then show ?thesis
      using cache_delete_no_dangling[OF inv] s by (metis cache_step.simps(3) prod.collapse)
  qed
qed

lemma cache_run_no_dangling:
  assumes "list_all (op_storable new_v5 c usable accepts) ops" "vinvar (fst s)" "oinvar (snd s)" "no_dangling c entries objects usable s"
  shows "vinvar (fst (fold (cache_step new_v5 c) ops s)) \<and> oinvar (snd (fold (cache_step new_v5 c) ops s))
    \<and> no_dangling c entries objects usable (fold (cache_step new_v5 c) ops s)"
  using assms
proof (induction ops arbitrary: s)
  case (Cons opr ops)
  have "op_storable new_v5 c usable accepts opr" using Cons.prems(1) by simp
  from cache_step_no_dangling[OF this Cons.prems(2-4)] show ?case using Cons.IH Cons.prems(1) by simp
qed simp

end

text \<open>Over an exact vector store a value is read back.\<close>

locale cache_exact = cache_contract +
  assumes exact: "vector_store (vb_upsert (cache_vector c)) (vb_query (cache_vector c))
      (vb_delete (cache_vector c)) entries vinvar accepts (cache_namespace c)"

sublocale cache_exact \<subseteq> ev: vector_store "vb_upsert (cache_vector c)" "vb_query (cache_vector c)"
  "vb_delete (cache_vector c)" entries vinvar accepts "cache_namespace c"
  by (rule exact)

context cache_exact
begin

lemma cache_set_then_get:
  assumes inv: "vinvar v" "oinvar obs"
    and st: "set_storable new_v5 c usable accepts q keys context_opt"
    and ents: "extracts_sets (cache_entity c)" "fast_subset_full (cache_entity c)"
      "same_source (cache_entity c) q context_opt"
    and fresh: "entries v (cache_namespace c) = Map.empty"
    and k: "0 < top_k (cache_scoring c)"
    and set: "cache_set new_v5 c q keys context_opt val (v, obs) = (Inr (), (v', obs'))"
    and get: "cache_get c q keys context_opt (v', obs') = (Inr r, s'')"
    and scores: "\<And>emb f hits w h. eb_embed_query (cache_embedding c) (query_str q) = Inr emb
        \<Longrightarrow> vb_query (cache_vector c) (cache_namespace c) emb context_opt f
        (top_k (cache_scoring c)) v' = (Inr hits, w) \<Longrightarrow> h \<in> set hits
        \<Longrightarrow> score_gate (cache_scoring c) context_opt h"
  shows "r = Some val"
proof -
  let ?i = "entry_id_derive new_v5 q keys context_opt" and ?ns = "cache_namespace c"
  from set obtain entry where prep: "cache_prepare new_v5 c q keys context_opt = Inr entry"
    and commit: "cache_commit c entry val (v, obs) = (Inr (), (v', obs'))"
    by (auto simp: cache_set_def split: sum.splits)
  from prep have e: "ve_id entry = ?i" "ve_keys entry = keys"
    and full: "extract_entities c q context_opt False = Inr (ve_entities entry)"
    by (auto simp: cache_prepare_def result_simps)
  have us: "usable ?ns ?i" and acc: "accepts entry" using st prep by (auto simp: set_storable_def)
  note eff = cache_commit_effect[OF inv us[folded e(1)] commit acc]
  have stored: "entries v' ?ns = [?i \<mapsto> entry]" and obj: "objects obs' (?ns, ?i) = Some val"
    using eff(3) fresh e(1) by auto
  obtain m w where m: "find_match c q keys context_opt v' = (m, w)" by fastforce
  from m show ?thesis
  proof (cases rule: find_match_cases)
    case (failed err)
    with get m show ?thesis by (simp add: cache_get_def)
  next
    case (queried es emb out)
    have sub: "set es \<subseteq> set (ve_entities entry)"
      by (rule extract_entities_subset[OF ents(2,3) queried(1) full])
    let ?f = "\<lparr>keys_all = keys, entities_any = (if entity_filter (cache_scoring c) then es else [])\<rparr>"
    have pass: "passes_filter ?f entry"
      using sub e(2) by (cases es) (auto simp: passes_filter_def)
    show ?thesis
    proof (cases out)
      case (Inl err)
      with queried get m show ?thesis by (simp add: cache_get_def)
    next
      case (Inr hits)
      note q = queried(3)[unfolded Inr]
      have one: "hit_id h = ?i \<and> hit_entities h = ve_entities entry" if "h \<in> set hits" for h
        using vs.query_sound[OF eff(1) q that] stored by (auto simp: hit_stands_for_def split: if_splits)
      have "hits \<noteq> []"
        using ev.query_complete[OF eff(1) q _ pass, of ?i] stored k by auto
      moreover have "distinct (map hit_id hits)" using vs.query_distinct[OF eff(1) q] .
      ultimately obtain h where hits: "hits = [h]" by (rule singleton_by_id[OF _ _ one[THEN conjunct1]])
      have "accepted (cache_scoring c) es context_opt h"
        using own_entity_gate[of es h] sub one[of h] hits scores[OF queried(2) q] by (simp add: accepted_def)
      then have "m = Inr (Some h)"
        using queried(4) Inr hits select_best[OF extract_entities_ok[OF ents(1) queried(1)]]
        by (simp add: best_hit_def f32_total_gt_def)
      then obtain o3 where "ob_get (cache_object c) ?ns ?i obs' = (Inr r, o3)"
        using get m one[of h] hits by (auto simp: cache_get_def split: prod.splits)
      with os.get_ok[OF eff(2) us] obj show ?thesis by simp
    qed
  qed
qed

end

section \<open>The backends the registry builds\<close>

text \<open>The in-memory vector store with files on disk, and the same with compressed files, which is what
  the registry builds.\<close>

interpretation mem_disk: cache_exact
  "cache_new ns entity embedding (memory_backend lower f32_ln order term_order)
     (disk_backend fault pid root_dir) scoring"
  memory_entries "memory_ok lower" "disk_objects root_dir" "\<lambda>_. True" storable "\<lambda>_. True"
  for ns entity embedding lower f32_ln order term_order fault pid root_dir scoring
  by (intro cache_exact.intro cache_contract.intro cache_exact_axioms.intro)
    (simp_all add: cache_new_def memory_backend_def disk_backend_def mem.vector_sound_axioms mem.vector_store_axioms
      disk.object_store_axioms)

definition local_cache ::
  "(string \<Rightarrow> string) \<Rightarrow> (f32 \<Rightarrow> f32) \<Rightarrow> (entry_id \<Rightarrow> nat) \<Rightarrow> (string \<Rightarrow> nat) \<Rightarrow> zstd \<Rightarrow> fault \<Rightarrow> nat
   \<Rightarrow> string \<Rightarrow> namespace \<Rightarrow> entity_backend \<Rightarrow> embedding_backend \<Rightarrow> scoring_config
   \<Rightarrow> (memory_store, disk) cache" where
  "local_cache lower f32_ln order term_order z fault pid root_dir ns entity embedding scoring =
     cache_new ns entity embedding (memory_backend lower f32_ln order term_order)
       (compressed_store z (disk_backend fault pid root_dir)) scoring"

abbreviation consistent ::
  "(string \<Rightarrow> string) \<Rightarrow> zstd \<Rightarrow> string \<Rightarrow> (memory_store, disk) cache \<Rightarrow> memory_store \<times> disk \<Rightarrow> bool" where
  "consistent lower z root_dir c s \<equiv>
     memory_ok lower (fst s) \<and> no_dangling c memory_entries (decoded z (disk_objects root_dir)) storable s"

lemma local_cache_contract:
  assumes "zstd_round_trip z"
  shows "cache_exact (local_cache lower f32_ln order term_order z fault pid root_dir ns entity embedding scoring)
    memory_entries (memory_ok lower) (decoded z (disk_objects root_dir)) (\<lambda>_. True) storable (\<lambda>_. True)"
  by (intro cache_exact.intro cache_contract.intro cache_exact_axioms.intro)
    (simp_all add: local_cache_def cache_new_def memory_backend_def compressed_store_def
      mem.vector_sound_axioms mem.vector_store_axioms compressed_disk_store[OF assms])

lemmas local_cache_sound = cache_exact.axioms(1)[OF local_cache_contract]

lemma consistent_new: "consistent lower z root_dir c (memory_new, d)"
  using memory_ok_new[of lower] by (simp add: no_dangling_def memory_entries_def memory_new_def)

lemma local_cache_namespace [simp]:
  "cache_namespace (local_cache lower f32_ln order term_order z fault pid root_dir ns entity embedding scoring) = ns"
  by (simp add: local_cache_def cache_new_def)

text \<open>The hits of a lookup in the in-memory store have the scores of the entries they stand for.\<close>

lemma local_lookup_scores:
  assumes "c = local_cache lower f32_ln order term_order z fault pid root_dir ns entity embedding scoring"
    and "memory_ok lower v" "lookup_hit c q keys context_opt v es emb hit" "memory_entries v ns (hit_id hit) = Some e"
  shows "memory_scores lower f32_ln term_order v ns emb context_opt e hit"
proof -
  obtain hits f k w where q: "memory_query lower f32_ln order term_order ns emb context_opt f k v = (Inr hits, w)" "hit \<in> set hits"
    using assms(3) by (auto simp: lookup_hit_def assms(1) local_cache_def cache_new_def memory_backend_def split: sum.splits)
      (metis prod.collapse)
  from memory_query_scores[OF assms(2) q] assms(4) show ?thesis by auto
qed

section \<open>Usable ids\<close>

definition uuid_sized :: "(bytes \<Rightarrow> bytes \<Rightarrow> bytes) \<Rightarrow> bool" where
  "uuid_sized new_v5 \<longleftrightarrow> (\<forall>ns buf. length (new_v5 ns buf) = 16)"

lemma derived_storable:
  assumes "namespace_new raw = Inr ns" "uuid_sized new_v5"
  shows "storable ns (entry_id_derive new_v5 q keys context_opt)"
  using assms by (intro storable_new) (auto simp: entry_id_ok_def entry_id_derive_def uuid_sized_def)

lemma local_cache_ids:
  assumes "namespace_new raw = Inr ns" "uuid_sized new_v5"
  shows "ids_usable new_v5 (local_cache lower f32_ln order term_order z fault pid root_dir ns entity embedding scoring) storable (\<lambda>_. True)"
  using derived_storable[OF assms] by (simp add: ids_usable_def set_storable_def)

lemma cache_run_consistent:
  assumes "zstd_round_trip z" "namespace_new raw = Inr ns" "uuid_sized new_v5"
    and c: "c = local_cache lower f32_ln order term_order z fault pid root_dir ns entity embedding scoring"
    and "consistent lower z root_dir c s"
  shows "consistent lower z root_dir c (fold (cache_step new_v5 c) ops s)"
proof -
  have "list_all (op_storable new_v5 c storable (\<lambda>_. True)) ops"
    unfolding list_all_iff c using ids_usable_ops[OF local_cache_ids[OF assms(2,3)]] by blast
  then show ?thesis
    using cache_contract.cache_run_no_dangling[OF local_cache_sound[OF assms(1)]] assms(5) unfolding c by blast
qed

section \<open>Properties\<close>

text \<open>
  C1. A cache never answers with a value it should not: if a get returns a value, then some entry of the
  namespace carries all the keys asked for, and the value is the object stored for exactly that entry;
  the entry shares enough entities with the query, and the cosine of its embedding with the query's
  (and, with a context, the BM25 score of its context) reaches the floors of the configuration. A get
  changes nothing, and it reports a miss only when the lookup found no match.
\<close>

theorem cache_get_no_false_hit:
  assumes "zstd_round_trip z"
    and "c = local_cache lower f32_ln order term_order z fault pid root_dir ns entity embedding scoring"
    and "extracts_sets entity" and "consistent lower z root_dir c s"
    and "cache_get c q keys context_opt s = (r, s')"
  shows "s' = s
    \<and> (\<forall>val. r = Inr (Some val) \<longrightarrow>
         (\<exists>hit e es emb. memory_entries (fst s) ns (hit_id hit) = Some e \<and> set keys \<subseteq> set (ve_keys e)
            \<and> hit_stands_for_entities hit e
            \<and> extract_entities c q context_opt True = Inr es
            \<and> eb_embed_query embedding (query_str q) = Inr emb
            \<and> memory_scores lower f32_ln term_order (fst s) ns emb context_opt e hit
            \<and> accepted scoring es context_opt hit
            \<and> decoded z (disk_objects root_dir) (snd s) (ns, ve_id e) = Some val))
    \<and> (r = Inr None \<longrightarrow> find_match c q keys context_opt (fst s) = (Inr None, fst s))"
proof -
  obtain v d where s: "s = (v, d)" by fastforce
  have con: "cache_contract c memory_entries (memory_ok lower) (decoded z (disk_objects root_dir)) (\<lambda>_. True) storable (\<lambda>_. True)"
    unfolding assms(2) by (rule local_cache_sound[OF assms(1)])
  have inv: "memory_ok lower v" "no_dangling c memory_entries (decoded z (disk_objects root_dir)) storable (v, d)"
    using assms(4) s by auto
  have c: "cache_namespace c = ns" "cache_scoring c = scoring" "cache_entity c = entity" "cache_embedding c = embedding"
    by (simp_all add: assms(2) local_cache_def cache_new_def)
  note sound = cache_contract.cache_get_sound[OF con inv(1) TrueI inv(2) assms(5)[unfolded s]]
  have "\<exists>hit e es emb. memory_entries v ns (hit_id hit) = Some e \<and> set keys \<subseteq> set (ve_keys e)
            \<and> hit_stands_for_entities hit e
            \<and> extract_entities c q context_opt True = Inr es
            \<and> eb_embed_query embedding (query_str q) = Inr emb
            \<and> memory_scores lower f32_ln term_order v ns emb context_opt e hit
            \<and> accepted scoring es context_opt hit
            \<and> decoded z (disk_objects root_dir) d (ns, ve_id e) = Some val" if val: "r = Inr (Some val)" for val
  proof -
    from sound(2)[OF val] obtain hit e where m: "semantic_match c memory_entries q keys context_opt v hit e"
      and obj: "decoded z (disk_objects root_dir) d (ns, ve_id e) = Some val" unfolding c by blast
    then obtain es emb where hit: "lookup_hit c q keys context_opt v es emb hit"
      and acc: "btree_ok es \<longrightarrow> accepted scoring es context_opt hit"
      and e: "memory_entries v ns (hit_id hit) = Some e" "ve_id e = hit_id hit" "hit_entities hit = ve_entities e" "set keys \<subseteq> set (ve_keys e)"
      unfolding semantic_match_def c by blast
    from hit have ext: "extract_entities c q context_opt True = Inr es" "eb_embed_query embedding (query_str q) = Inr emb"
      by (simp_all add: lookup_hit_def c)
    have "memory_scores lower f32_ln term_order v ns emb context_opt e hit"
      by (rule local_lookup_scores[OF assms(2) inv(1) hit e(1)])
    with e ext obj acc extract_entities_ok[of c q context_opt True es] assms(3) show ?thesis
      unfolding hit_stands_for_entities_def c by metis
  qed
  with sound(1,3) show ?thesis unfolding s fst_conv snd_conv by blast
qed

text \<open>An example: one entity, a one-dimensional embedding, no faults.\<close>

definition example_entity :: entity_backend where
  "example_entity = \<lparr>en_extract = (\<lambda>_ _. Inr [Entity ''acme''])\<rparr>"

definition example_embedding :: embedding_backend where
  "example_embedding = \<lparr>eb_dim = Dim 1, eb_embed_query = (\<lambda>_. Inr \<lparr>emb_dim = Dim 1, emb_values = [f32_one]\<rparr>)\<rparr>"

definition example_v5 :: "bytes \<Rightarrow> bytes \<Rightarrow> bytes" where
  "example_v5 ns buf = replicate 16 7"

definition example_cache :: "(memory_store, disk) cache" where
  "example_cache = local_cache ascii_lower (\<lambda>x. x) (\<lambda>_. 0) (\<lambda>_. 0) example_zstd (\<lambda>_ _. None) 42 ''/var''
     (Namespace ''prod'') example_entity example_embedding scoring_default"

definition example_state :: "memory_store \<times> disk" where
  "example_state = snd (cache_set example_v5 example_cache (QueryText ''q'') [] None [1, 2] (memory_new, empty_disk))"

lemmas example_defs = example_cache_def local_cache_def cache_new_def memory_backend_def
  compressed_store_def disk_backend_def example_entity_def example_embedding_def

lemma example_set:
  "cache_set example_v5 example_cache (QueryText ''q'') [] None [1, 2] (memory_new, empty_disk) = (Inr (), example_state)"
proof -
  have "fst (cache_set example_v5 example_cache (QueryText ''q'') [] None [1, 2] (memory_new, empty_disk)) = Inr ()"
    by (simp add: cache_set_def cache_prepare_def extract_entities_def cache_commit_def example_defs
        compressed_put_def compress_def example_zstd_def disk_put_def Let_def try_state_def lift_fs_def
        create_dir_all_def fs_write_def fs_rename_def empty_disk_def memory_upsert_def memory_new_def)
  then show ?thesis unfolding example_state_def by (metis prod.collapse)
qed

lemma example_hit_score: "f32_le DEFAULT_THRESHOLD (f32_sum [f32_mul f32_one f32_one])"
  by (simp add: DEFAULT_THRESHOLD_def f32_le_def f32_key_def f32_sum_def f32_one_def f32_eval)

lemma example_contract:
  "cache_exact example_cache memory_entries (memory_ok ascii_lower)
     (decoded example_zstd (disk_objects ''/var'')) (\<lambda>_. True) storable (\<lambda>_. True)"
  unfolding example_cache_def by (rule local_cache_contract[OF example_zstd_round_trip])

lemma example_get:
  "cache_get example_cache (QueryText ''q'') [] None example_state = (Inr (Some [1, 2]), example_state)"
  by (simp add: example_state_def cache_set_def cache_prepare_def extract_entities_def cache_commit_def
      example_defs compressed_put_def compressed_get_def compress_def decompress_def example_zstd_def
      disk_put_def disk_get_def fs_read_def Let_def try_state_def lift_fs_def
      create_dir_all_def fs_write_def fs_rename_def empty_disk_def memory_upsert_def memory_new_def
      cache_get_def find_match_def memory_query_def hm_values_def hm_iter_def hm_insert_def
      embedding_dot_def sort_by_dense_def memory_hit_def select_def accept_def scoring_default_def
      DEFAULT_TOP_K_def btree_intersection_def example_hit_score)

lemma example_consistent: "consistent ascii_lower example_zstd ''/var'' example_cache example_state"
proof -
  have "namespace_new ''prod'' = Inr (Namespace ''prod'')" by code_simp
  moreover have "uuid_sized example_v5" by (simp add: uuid_sized_def example_v5_def)
  ultimately have "consistent ascii_lower example_zstd ''/var'' example_cache
      (fold (cache_step example_v5 example_cache) [OpSet (QueryText ''q'') [] None [1, 2]] (memory_new, empty_disk))"
    by (intro cache_run_consistent[OF example_zstd_round_trip _ _ example_cache_def consistent_new])
  then show ?thesis by (simp add: example_set)
qed

lemma example_entity_sets: "extracts_sets example_entity"
  by (simp add: extracts_sets_def example_entity_def btree_ok_def)

theorem cache_get_no_false_hit_witness:
  "\<exists>hit e. memory_entries (fst example_state) (Namespace ''prod'') (hit_id hit) = Some e
     \<and> memory_scores ascii_lower (\<lambda>x. x) (\<lambda>_. 0) (fst example_state) (Namespace ''prod'')
         \<lparr>emb_dim = Dim 1, emb_values = [f32_one]\<rparr> None e hit
     \<and> accepted scoring_default [Entity ''acme''] None hit
     \<and> decoded example_zstd (disk_objects ''/var'') (snd example_state) (Namespace ''prod'', ve_id e) = Some [1, 2]"
proof -
  have "extract_entities example_cache (QueryText ''q'') None True = Inr [Entity ''acme'']"
    "eb_embed_query example_embedding ''q'' = Inr \<lparr>emb_dim = Dim 1, emb_values = [f32_one]\<rparr>"
    by (simp_all add: extract_entities_def example_defs)
  with cache_get_no_false_hit[OF example_zstd_round_trip example_cache_def example_entity_sets
      example_consistent example_get, THEN conjunct2, THEN conjunct1, rule_format, OF refl] show ?thesis by auto
qed

text \<open>
  Through every sequence of gets, sets and deletes, whatever operations of the stores fail on the
  way, the two stores stay consistent: every entry the vector store can return has its object in the
  object store, because a set writes the object before the entry and a delete removes the entry before
  the object.
\<close>

theorem cache_stays_consistent:
  assumes "zstd_round_trip z" and "namespace_new raw = Inr ns" and "uuid_sized new_v5"
    and "c = local_cache lower f32_ln order term_order z fault pid root_dir ns entity embedding scoring"
    and "consistent lower z root_dir c s"
  shows "consistent lower z root_dir c (fold (cache_step new_v5 c) ops s)"
  by (rule cache_run_consistent[OF assms])

theorem cache_stays_consistent_witness:
  "consistent ascii_lower example_zstd ''/var'' example_cache
     (fold (cache_step example_v5 example_cache)
       [OpSet (QueryText ''q'') [] None [3], OpDelete (QueryText ''q'') [] None] example_state)"
proof -
  have "namespace_new ''prod'' = Inr (Namespace ''prod'')" by code_simp
  moreover have "uuid_sized example_v5" by (simp add: uuid_sized_def example_v5_def)
  ultimately show ?thesis
    by (rule cache_stays_consistent[OF example_zstd_round_trip _ _ example_cache_def example_consistent])
qed

text \<open>
  C10. A value that was set is read back: in a namespace without entries, a successful set followed by a
  successful get of the same query, keys and context returns exactly the value, provided the entity
  backend keeps its promises, the fast and the full extraction agree on whether the query alone yields
  entities, and the scores of the entry reach the floors of the configuration.
\<close>

theorem cache_read_your_write:
  assumes "zstd_round_trip z" and "namespace_new raw = Inr ns" and "uuid_sized new_v5"
    and "c = local_cache lower f32_ln order term_order z fault pid root_dir ns entity embedding scoring"
    and "memory_ok lower v" and "memory_entries v ns = Map.empty" and "0 < top_k scoring"
    and "extracts_sets entity" "fast_subset_full entity" "same_source entity q context_opt"
    and "cache_set new_v5 c q keys context_opt val (v, d) = (Inr (), (v', d'))"
    and "cache_get c q keys context_opt (v', d') = (Inr r, s'')"
    and "\<forall>emb f hits w h. eb_embed_query embedding (query_str q) = Inr emb \<longrightarrow>
           memory_query lower f32_ln order term_order ns emb context_opt f (top_k scoring) v' = (Inr hits, w) \<longrightarrow>
           h \<in> set hits \<longrightarrow> score_gate scoring context_opt h"
  shows "r = Some val"
proof -
  have con: "cache_exact c memory_entries (memory_ok lower) (decoded z (disk_objects root_dir)) (\<lambda>_. True) storable (\<lambda>_. True)"
    unfolding assms(4) by (rule local_cache_contract[OF assms(1)])
  have c: "cache_namespace c = ns" "cache_scoring c = scoring" "cache_entity c = entity"
    "vb_query (cache_vector c) = memory_query lower f32_ln order term_order" "cache_embedding c = embedding"
    by (simp_all add: assms(4) local_cache_def cache_new_def memory_backend_def)
  have "set_storable new_v5 c storable (\<lambda>_. True) q keys context_opt"
    "extracts_sets (cache_entity c)" "fast_subset_full (cache_entity c)"
    "same_source (cache_entity c) q context_opt" "memory_entries v (cache_namespace c) = Map.empty"
    "0 < top_k (cache_scoring c)"
    using assms(6-10) derived_storable[OF assms(2,3)] by (simp_all add: c set_storable_def)
  note get = cache_exact.cache_set_then_get[OF con assms(5) TrueI this assms(11,12)]
  show ?thesis
  proof (rule get)
    fix emb f hits w h
    assume "eb_embed_query (cache_embedding c) (query_str q) = Inr emb"
      "vb_query (cache_vector c) (cache_namespace c) emb context_opt f (top_k (cache_scoring c)) v' = (Inr hits, w)"
      "h \<in> set hits"
    then show "score_gate (cache_scoring c) context_opt h" using assms(13) unfolding c by blast
  qed
qed

lemma example_scores:
  assumes "memory_query ascii_lower (\<lambda>x. x) (\<lambda>_. 0) (\<lambda>_. 0) (Namespace ''prod'')
      \<lparr>emb_dim = Dim 1, emb_values = [f32_one]\<rparr> None f k (fst example_state) = (Inr hits, w)"
    and "h \<in> set hits"
  shows "score_gate scoring_default None h"
proof -
  let ?e = "\<lparr>ve_id = entry_id_derive example_v5 (QueryText ''q'') [] None,
     ve_vector = \<lparr>emb_dim = Dim 1, emb_values = [f32_one]\<rparr>, ve_keys = [],
     ve_entities = [Entity ''acme''], ve_context = None\<rparr>"
  have entries: "memory_entries (fst example_state) (Namespace ''prod'') = [ve_id ?e \<mapsto> ?e]"
    by (simp add: example_state_def cache_set_def cache_prepare_def extract_entities_def cache_commit_def
      example_defs compressed_put_def compress_def example_zstd_def fun_eq_iff
      disk_put_def Let_def try_state_def lift_fs_def create_dir_all_def fs_write_def fs_rename_def
      empty_disk_def memory_upsert_def memory_new_def memory_entries_def)
  have "memory_ok ascii_lower (fst example_state)" using example_consistent by simp
  from memory_query_dense[OF this assms] obtain e where
    "memory_entries (fst example_state) (Namespace ''prod'') (hit_id h) = Some e"
    and dot: "embedding_dot \<lparr>emb_dim = Dim 1, emb_values = [f32_one]\<rparr> (ve_vector e) = Inr (dense_score h)" by blast
  with entries have "e = ?e" by (simp split: if_splits)
  with dot have "dense_score h = f32_sum [f32_mul f32_one f32_one]" by (simp add: embedding_dot_def)
  then show ?thesis using example_hit_score by (simp add: score_gate_def scoring_default_def)
qed

theorem cache_read_your_write_witness:
  "\<exists>r. fst (cache_get example_cache (QueryText ''q'') [] None example_state) = Inr r \<and> r = Some [1, 2]"
proof -
  obtain v' d' where st: "example_state = (v', d')" by fastforce
  have "namespace_new ''prod'' = Inr (Namespace ''prod'')" by code_simp
  moreover have "uuid_sized example_v5" by (simp add: uuid_sized_def example_v5_def)
  moreover have "memory_entries memory_new (Namespace ''prod'') = Map.empty"
    by (simp add: memory_entries_def memory_new_def fun_eq_iff)
  moreover have "0 < top_k scoring_default" by (simp add: scoring_default_def DEFAULT_TOP_K_def)
  moreover have "fast_subset_full example_entity" "same_source example_entity (QueryText ''q'') None"
    by (simp_all add: fast_subset_full_def same_source_def example_entity_def)
  moreover note example_set[unfolded st] example_get[unfolded st]
  moreover have "\<forall>emb f hits w h. eb_embed_query example_embedding (query_str (QueryText ''q'')) = Inr emb \<longrightarrow>
      memory_query ascii_lower (\<lambda>x. x) (\<lambda>_. 0) (\<lambda>_. 0) (Namespace ''prod'') emb None f (top_k scoring_default) v' = (Inr hits, w) \<longrightarrow>
      h \<in> set hits \<longrightarrow> score_gate scoring_default None h"
  proof (intro allI impI)
    fix emb f hits w h
    assume "eb_embed_query example_embedding (query_str (QueryText ''q'')) = Inr emb"
      and q: "memory_query ascii_lower (\<lambda>x. x) (\<lambda>_. 0) (\<lambda>_. 0) (Namespace ''prod'') emb None f (top_k scoring_default) v' = (Inr hits, w)"
      and h: "h \<in> set hits"
    then have "emb = \<lparr>emb_dim = Dim 1, emb_values = [f32_one]\<rparr>" by (simp add: example_embedding_def)
    with q show "score_gate scoring_default None h"
      using example_scores[unfolded st fst_conv, OF _ h] by blast
  qed
  ultimately have "Some [1, 2] = (Some [1, 2] :: bytes option)"
    by (intro cache_read_your_write[OF example_zstd_round_trip _ _ example_cache_def memory_ok_new _ _ example_entity_sets])
  with example_get show ?thesis by simp
qed

text \<open>
  C20. A delete that reports success has removed one entry that matched the query: the entry is no longer
  in the vector store, its object is gone, and every other entry is still there. A delete that reports
  that there was nothing to delete, or that failed to find out, has changed nothing.
\<close>

theorem cache_delete_correct:
  assumes "zstd_round_trip z"
    and "c = local_cache lower f32_ln order term_order z fault pid root_dir ns entity embedding scoring"
    and "consistent lower z root_dir c (v, d)"
    and "cache_delete c q keys context_opt (v, d) = (r, (v', d'))"
  shows "(r = Inr True \<longrightarrow> (\<exists>hit e. semantic_match c memory_entries q keys context_opt v hit e
        \<and> memory_entries v' = (memory_entries v)(ns := (memory_entries v ns)(hit_id hit := None))
        \<and> decoded z (disk_objects root_dir) d' (ns, hit_id hit) = None))
    \<and> (r = Inr False \<longrightarrow> v' = v \<and> d' = d \<and> find_match c q keys context_opt v = (Inr None, v))"
proof -
  have con: "cache_contract c memory_entries (memory_ok lower) (decoded z (disk_objects root_dir)) (\<lambda>_. True) storable (\<lambda>_. True)"
    unfolding assms(2) by (rule local_cache_sound[OF assms(1)])
  have inv: "memory_ok lower v" "no_dangling c memory_entries (decoded z (disk_objects root_dir)) storable (v, d)"
    using assms(3) by auto
  have ns: "cache_namespace c = ns" by (simp add: assms(2))
  have "v' = v \<and> d' = d \<and> find_match c q keys context_opt v = (Inr None, v)" if "r = Inr False"
    by (rule cache_contract.cache_delete_cases[OF con inv(1) TrueI inv(2) assms(4)])
      (use that in \<open>auto split: sum.splits\<close>)
  moreover have "\<exists>hit e. semantic_match c memory_entries q keys context_opt v hit e
        \<and> memory_entries v' = (memory_entries v)(ns := (memory_entries v ns)(hit_id hit := None))
        \<and> decoded z (disk_objects root_dir) d' (ns, hit_id hit) = None" if "r = Inr True"
    using cache_contract.cache_delete_removes[OF con inv(1) TrueI inv(2) assms(4)[unfolded that]]
    unfolding ns .
  ultimately show ?thesis by blast
qed

theorem cache_delete_correct_witness:
  "\<exists>v' d'. cache_delete example_cache (QueryText ''q'') [] None example_state = (Inr True, (v', d'))
     \<and> (\<exists>hit e. semantic_match example_cache memory_entries (QueryText ''q'') [] None (fst example_state) hit e
          \<and> memory_entries v' (Namespace ''prod'') (hit_id hit) = None)"
proof -
  obtain v d where st: "example_state = (v, d)" by fastforce
  obtain hit where m: "find_match example_cache (QueryText ''q'') [] None v = (Inr (Some hit), v)"
    using example_get unfolding st
    by (cases "find_match example_cache (QueryText ''q'') [] None v")
      (auto simp: cache_get_def split: sum.splits option.splits prod.splits)
  obtain v' where v': "memory_delete (Namespace ''prod'') (hit_id hit) v = (Inr (), v')"
    by (cases "shards v (Namespace ''prod'')") (auto simp: memory_delete_def)
  obtain d' where d': "disk_delete (\<lambda>_ _. None) ''/var'' (Namespace ''prod'') (hit_id hit) d = (Inr (), d')"
    by (cases "files d (object_path ''/var'' (Namespace ''prod'') (hit_id hit))")
      (auto simp: disk_delete_def fs_remove_file_def)
  have run: "cache_delete example_cache (QueryText ''q'') [] None (v, d) = (Inr True, (v', d'))"
    unfolding cache_delete_def fst_conv m
    by (simp add: example_defs compressed_delete_def v' d')
  have "consistent ascii_lower example_zstd ''/var'' example_cache (v, d)" using example_consistent st by simp
  from cache_delete_correct[OF example_zstd_round_trip example_cache_def this run]
  obtain hit' e where "semantic_match example_cache memory_entries (QueryText ''q'') [] None v hit' e"
    "memory_entries v' (Namespace ''prod'') (hit_id hit') = None" by auto
  with run show ?thesis unfolding st fst_conv by blast
qed

definition fallback_spans :: "string \<Rightarrow> (string \<times> f32) list" where
  "fallback_spans text =
     (if text = ''about alpha'' then [(''alpha'', F32 0x3F19999A)] else [(''beta'', F32 0x3F666666)])"

definition fallback_lib :: "(string, unit) gliner_lib" where
  "fallback_lib = \<lparr>hub_get = (\<lambda>_ _ f. Inr f), gliner_model_new = (\<lambda>_ _ _. Inr ()),
     text_input_new = (\<lambda>texts _. Inr (hd texts)), inference = (\<lambda>_ text. Inr [fallback_spans text])\<rparr>"

definition fallback_cache :: "(memory_store, disk) cache" where
  "fallback_cache = local_cache ascii_lower (\<lambda>x. x) (\<lambda>_. 0) (\<lambda>_. 0) example_zstd (\<lambda>_ _. None) 42 ''/var''
     (Namespace ''prod'') (gliner_backend ascii_lower fallback_lib \<lparr>gl_model = (), gl_labels = [''thing'']\<rparr>)
     example_embedding scoring_default"

lemma fallback_entities:
  "gliner_extract ascii_lower fallback_lib g ''about alpha'' True = Inr []"
  "gliner_extract ascii_lower fallback_lib g ''about alpha'' False = Inr [Entity ''alpha'']"
  "gliner_extract ascii_lower fallback_lib g ''in beta'' True = Inr [Entity ''beta'']"
proof -
  have norm: "entity_normalize ascii_lower ''alpha'' = Some (Entity ''alpha'')"
    "entity_normalize ascii_lower ''beta'' = Some (Entity ''beta'')" by code_simp+
  have scores: "\<not> f32_le FAST_CUTOFF (F32 0x3F19999A)" "f32_le FULL_THRESHOLD (F32 0x3F19999A)"
    "f32_le FAST_CUTOFF (F32 0x3F666666)"
    by (simp_all add: FAST_CUTOFF_def FULL_THRESHOLD_def f32_le_def f32_key_def f32_eval)
  show "gliner_extract ascii_lower fallback_lib g ''about alpha'' True = Inr []"
    "gliner_extract ascii_lower fallback_lib g ''about alpha'' False = Inr [Entity ''alpha'']"
    "gliner_extract ascii_lower fallback_lib g ''in beta'' True = Inr [Entity ''beta'']"
    by (simp_all add: gliner_extract_def scored_spans_def fallback_lib_def fallback_spans_def
        entities_from_spans_def scores norm List.map_filter_def btree_collect_def)
qed

text \<open>
  C38. The condition of the read-back property on the two extractions is needed. Suppose that the full
  extraction finds entities in a query, the fast one finds none there, and what the fast one finds in the
  context is disjoint from them. A value that was just set with the query and the context, into a
  namespace without entries, is then reported as a miss by a get of the same query, keys and context,
  whatever the scores: the lookup asks for the entities of the context while the write stored those of the query.
\<close>

theorem context_fallback_misses:
  assumes "zstd_round_trip z" and "namespace_new raw = Inr ns" and "uuid_sized new_v5"
    and c: "c = local_cache lower f32_ln order term_order z fault pid root_dir ns entity embedding scoring"
    and inv: "memory_ok lower v" "memory_entries v ns = Map.empty" and "extracts_sets entity"
    and full: "en_extract entity (query_str q) False = Inr es" "es \<noteq> []"
    and fast: "en_extract entity (query_str q) True = Inr []" "en_extract entity (ctx_str ctx) True = Inr es'"
    and disjoint: "es' \<noteq> []" "set es \<inter> set es' = {}"
    and set: "cache_set new_v5 c q keys (Some ctx) val (v, d) = (Inr (), (v', d'))"
  shows "cache_get c q keys (Some ctx) (v', d') = (Inr None, (v', d'))"
proof -
  have con: "cache_contract c memory_entries (memory_ok lower) (decoded z (disk_objects root_dir)) (\<lambda>_. True) storable (\<lambda>_. True)"
    unfolding c by (rule local_cache_sound[OF assms(1)])
  have ops: "cache_namespace c = ns" "cache_entity c = entity" "cache_embedding c = embedding"
    "vb_query (cache_vector c) = memory_query lower f32_ln order term_order" "vb_upsert (cache_vector c) = memory_upsert lower"
    by (simp_all add: c local_cache_def cache_new_def memory_backend_def)
  from set obtain entry where prep: "cache_prepare new_v5 c q keys (Some ctx) = Inr entry"
    and commit: "cache_commit c entry val (v, d) = (Inr (), (v', d'))"
    by (auto simp: cache_set_def split: sum.splits)
  from prep full have entry: "ve_entities entry = es" "eb_embed_query embedding (query_str q) = Inr (ve_vector entry)"
    "ve_id entry = entry_id_derive new_v5 q keys (Some ctx)"
    by (auto simp: cache_prepare_def extract_entities_def result_simps ops)
  have "storable ns (ve_id entry)" unfolding entry(3) by (rule derived_storable[OF assms(2,3)])
  note eff = cache_contract.cache_commit_effect[OF con inv(1) TrueI this[folded ops(1)] commit TrueI]
  have ok: "memory_ok lower v'" and stored: "memory_entries v' ns = [ve_id entry \<mapsto> entry]"
    using eff(1,3) inv(2) by (simp_all add: ops(1))
  have "memory_upsert lower ns entry v = (Inr (), v')"
    using commit by (auto simp: cache_commit_def ops split: sum.splits prod.splits)
  from memory_upsert_dim[OF this] obtain shard where sh: "shards v' ns = Some shard" "shard_dim shard = emb_dim (ve_vector entry)"
    by blast
  let ?f = "\<lparr>keys_all = keys, entities_any = (if entity_filter (cache_scoring c) then es' else [])\<rparr>"
  obtain hits where q: "memory_query lower f32_ln order term_order ns (ve_vector entry) (Some ctx) ?f (top_k (cache_scoring c)) v' = (Inr hits, v')"
    using sh by (simp add: memory_query_result[OF ok])
  have ext: "extract_entities c q (Some ctx) True = Inr es'" using fast by (simp add: extract_entities_def ops)
  then have bt: "btree_ok es'" by (rule extract_entities_ok[rotated]) (simp add: ops assms(7))
  have "\<not> accepted (cache_scoring c) es' (Some ctx) h" if "h \<in> set hits" for h
  proof -
    from memory_query_scores[OF ok q that] stored entry(1) have "hit_entities h = es"
      by (auto simp: hit_stands_for_def split: if_splits)
    with disjoint have "set es' \<inter> set (hit_entities h) = {}" by blast
    with disjoint(1) show ?thesis by (simp add: accepted_def entity_gate_def)
  qed
  then have "select (cache_scoring c) es' (Some ctx) hits = Inr None"
    using select_best[OF bt] by (simp add: best_hit_None_iff filter_empty_conv)
  with ext entry(2) q show ?thesis
    by (simp add: cache_get_def find_match_def ops try_state_def)
qed

lemma fallback_set:
  "\<exists>s. cache_set example_v5 fallback_cache (QueryText ''about alpha'') [] (Some (Context ''in beta'')) [1, 2]
         (memory_new, empty_disk) = (Inr (), s)"
  by (simp add: cache_set_def cache_prepare_def extract_entities_def cache_commit_def
      fallback_cache_def example_defs compressed_put_def compress_def example_zstd_def
      disk_put_def Let_def try_state_def lift_fs_def
      create_dir_all_def fs_write_def fs_rename_def empty_disk_def memory_upsert_def memory_new_def
      gliner_backend_def fallback_entities)

text \<open>GLiNER is such a backend: its fast cutoff is higher than its full threshold, so the entities of a query may
  score between the two.\<close>

theorem context_fallback_misses_witness:
  "\<exists>s. cache_set example_v5 fallback_cache (QueryText ''about alpha'') [] (Some (Context ''in beta'')) [1, 2]
         (memory_new, empty_disk) = (Inr (), s)
     \<and> cache_get fallback_cache (QueryText ''about alpha'') [] (Some (Context ''in beta'')) s = (Inr None, s)"
proof -
  let ?g = "gliner_backend ascii_lower fallback_lib \<lparr>gl_model = (), gl_labels = [''thing'']\<rparr>"
  obtain v' d' where set: "cache_set example_v5 fallback_cache (QueryText ''about alpha'') [] (Some (Context ''in beta'')) [1, 2]
         (memory_new, empty_disk) = (Inr (), (v', d'))" using fallback_set by auto
  have ns: "namespace_new ''prod'' = Inr (Namespace ''prod'')" by code_simp
  have v5: "uuid_sized example_v5" by (simp add: uuid_sized_def example_v5_def)
  have new: "memory_entries memory_new (Namespace ''prod'') = Map.empty"
    by (simp add: memory_entries_def memory_new_def fun_eq_iff)
  have sets: "extracts_sets ?g"
    by (auto simp: extracts_sets_def gliner_backend_def gliner_extract_def entities_from_spans_def result_simps)
  have ents: "en_extract ?g (query_str (QueryText ''about alpha'')) False = Inr [Entity ''alpha'']"
    "en_extract ?g (query_str (QueryText ''about alpha'')) True = Inr []"
    "en_extract ?g (ctx_str (Context ''in beta'')) True = Inr [Entity ''beta'']"
    by (simp_all add: gliner_backend_def fallback_entities)
  have "cache_get fallback_cache (QueryText ''about alpha'') [] (Some (Context ''in beta'')) (v', d') = (Inr None, (v', d'))"
    by (rule context_fallback_misses[OF example_zstd_round_trip ns v5 fallback_cache_def memory_ok_new new sets ents(1) _ ents(2,3) _ _ set])
      simp_all
  with set show ?thesis by blast
qed

end
