(* ===== verification/Write_Behind.thy ===== *)
theory Write_Behind
  imports Cache
begin

text \<open>
  The write-behind machinery of the daemon: the shadow of in-flight writes
  (\<^verbatim>\<open>src/daemon/state.rs\<close>) and the bounded queue with its workers (\<^verbatim>\<open>src/daemon/writer.rs\<close>). A
  set handlers, the workers, gets and deletes run concurrently; the relation \<open>wb_step\<close> interleaves their
  atomic actions, one per lock acquisition, channel operation, counter update or call of a store (the calls of the
  models have no effect and go with the query that follows them). The
  identity of an \<open>Arc\<close> is an allocation number.
\<close>

section \<open>The shadow\<close>

datatype arc = Arc (arc_ptr: nat) (arc_bytes: bytes)

definition ptr_eq :: "arc \<Rightarrow> arc \<Rightarrow> bool" where
  "ptr_eq a b \<longleftrightarrow> arc_ptr a = arc_ptr b"

record pending_writes =
  pw_entries :: "entry_id \<rightharpoonup> arc"
  pw_poisoned :: bool

definition pending_default :: pending_writes where
  "pending_default = \<lparr>pw_entries = Map.empty, pw_poisoned = False\<rparr>"

definition pending_lock :: "pending_writes \<Rightarrow> (entry_id \<rightharpoonup> arc) res" where
  "pending_lock p = (if pw_poisoned p then Inl (Daemon ''pending-writes lock poisoned'') else Inr (pw_entries p))"

definition pending_insert :: "entry_id \<Rightarrow> arc \<Rightarrow> pending_writes \<Rightarrow> unit res \<times> pending_writes" where
  "pending_insert i v p =
     (case pending_lock p of
        Inl e \<Rightarrow> (Inl e, p)
      | Inr entries \<Rightarrow> (Inr (), p\<lparr>pw_entries := entries(i \<mapsto> v)\<rparr>))"

definition pending_get :: "entry_id \<Rightarrow> pending_writes \<Rightarrow> arc option res" where
  "pending_get i p = try_bind (pending_lock p) (\<lambda>entries. Inr (entries i))"

definition pending_holds :: "entry_id \<Rightarrow> arc \<Rightarrow> pending_writes \<Rightarrow> bool res" where
  "pending_holds i v p =
     try_bind (pending_lock p) (\<lambda>entries.
       Inr (case entries i of Some current \<Rightarrow> ptr_eq current v | None \<Rightarrow> False))"

definition pending_remove :: "entry_id \<Rightarrow> pending_writes \<Rightarrow> bool res \<times> pending_writes" where
  "pending_remove i p =
     (case pending_lock p of
        Inl e \<Rightarrow> (Inl e, p)
      | Inr entries \<Rightarrow> (Inr (entries i \<noteq> None), p\<lparr>pw_entries := entries(i := None)\<rparr>))"

definition pending_remove_if :: "entry_id \<Rightarrow> arc \<Rightarrow> pending_writes \<Rightarrow> bool res \<times> pending_writes" where
  "pending_remove_if i v p =
     (case pending_lock p of
        Inl e \<Rightarrow> (Inl e, p)
      | Inr entries \<Rightarrow>
          if (case entries i of Some current \<Rightarrow> ptr_eq current v | None \<Rightarrow> False)
          then (Inr True, p\<lparr>pw_entries := entries(i := None)\<rparr>)
          else (Inr False, p))"

section \<open>Jobs, queue and workers\<close>

definition WRITE_QUEUE_CAPACITY :: nat where "WRITE_QUEUE_CAPACITY = 1024"
definition WRITE_WORKERS :: nat where "WRITE_WORKERS = 2"

record write_job =
  job_id :: entry_id
  job_query :: query_text
  job_keys :: "key btree_set"
  job_context :: "ctx option"
  job_value :: arc

text \<open>Where a worker is in its loop: waiting for a job; holding one it received, before the in-flight
  guard; and the stages of \<open>WriteJob::run\<close> under the guard, down to dropping it.\<close>

datatype worker =
    Waiting
  | Received write_job
  | Preparing write_job
  | Checking write_job vector_entry
  | Putting write_job vector_entry
  | Upserting write_job vector_entry
  | Cleaning write_job
  | Leaving

text \<open>Where a set handler is between recording the shadow and answering.\<close>

datatype setter = Pushing write_job | Retracting write_job

text \<open>Where the get and the delete of a cache are between their calls of the stores: a get that has found its
  entry and has to fetch the object; a delete that has found its entry, and one that has removed it from
  the vector store and has to delete the object.\<close>

datatype lookup =
    GetFound (lookup_id: entry_id)
  | DelFound (lookup_id: entry_id)
  | DelRemoved (lookup_id: entry_id)

record ('v, 'o) write_behind =
  wb_pending :: pending_writes
  wb_queue :: "write_job list"
  wb_setters :: "setter list"
  wb_workers :: "worker list"
  wb_lookups :: "lookup list"
  wb_in_flight :: nat
  wb_next_arc :: nat
  wb_store :: "'v \<times> 'o"

definition wb_new :: "'v \<times> 'o \<Rightarrow> ('v, 'o) write_behind" where
  "wb_new store = \<lparr>wb_pending = pending_default, wb_queue = [], wb_setters = [],
     wb_workers = replicate WRITE_WORKERS Waiting, wb_lookups = [], wb_in_flight = 0, wb_next_arc = 0, wb_store = store\<rparr>"

text \<open>\<open>try_push\<close>: whether the bounded channel takes the job.\<close>

definition try_push :: "'j \<Rightarrow> 'j list \<Rightarrow> bool \<times> 'j list" where
  "try_push job queue =
     (if length queue < WRITE_QUEUE_CAPACITY then (True, queue @ [job]) else (False, queue))"

definition is_drained :: "('v, 'o) write_behind \<Rightarrow> bool" where
  "is_drained s \<longleftrightarrow> wb_queue s = [] \<and> wb_in_flight s = 0"

definition del_at :: "nat \<Rightarrow> 'a list \<Rightarrow> 'a list" where
  "del_at n xs = take n xs @ drop (Suc n) xs"

definition new_job ::
  "(bytes \<Rightarrow> bytes \<Rightarrow> bytes) \<Rightarrow> nat \<Rightarrow> query_text \<Rightarrow> key btree_set \<Rightarrow> ctx option \<Rightarrow> bytes \<Rightarrow> write_job" where
  "new_job new_v5 n q keys context_opt v =
     \<lparr>job_id = entry_id_derive new_v5 q keys context_opt, job_query = q, job_keys = keys,
      job_context = context_opt, job_value = Arc n v\<rparr>"

section \<open>Interleaved steps\<close>

inductive wb_step ::
  "(bytes \<Rightarrow> bytes \<Rightarrow> bytes) \<Rightarrow> ('v, 'o) cache \<Rightarrow> ('v, 'o) write_behind \<Rightarrow> ('v, 'o) write_behind \<Rightarrow> bool"
  for new_v5 c where
  record_shadow:
    "job = new_job new_v5 (wb_next_arc s) q keys context_opt v \<Longrightarrow>
     pending_insert (job_id job) (job_value job) (wb_pending s) = (Inr (), p) \<Longrightarrow>
     wb_step new_v5 c s (s\<lparr>wb_pending := p, wb_next_arc := wb_next_arc s + 1,
       wb_setters := wb_setters s @ [Pushing job]\<rparr>)"
| enqueue:
    "n < length (wb_setters s) \<Longrightarrow> wb_setters s ! n = Pushing job \<Longrightarrow>
     try_push job (wb_queue s) = (True, queue) \<Longrightarrow>
     wb_step new_v5 c s (s\<lparr>wb_queue := queue, wb_setters := del_at n (wb_setters s)\<rparr>)"
| full:
    "n < length (wb_setters s) \<Longrightarrow> wb_setters s ! n = Pushing job \<Longrightarrow>
     try_push job (wb_queue s) = (False, queue) \<Longrightarrow>
     wb_step new_v5 c s (s\<lparr>wb_setters := (wb_setters s)[n := Retracting job]\<rparr>)"
| retract:
    "n < length (wb_setters s) \<Longrightarrow> wb_setters s ! n = Retracting job \<Longrightarrow>
     pending_remove_if (job_id job) (job_value job) (wb_pending s) = (r, p) \<Longrightarrow>
     wb_step new_v5 c s (s\<lparr>wb_pending := p, wb_setters := del_at n (wb_setters s)\<rparr>)"
| receive:
    "w < length (wb_workers s) \<Longrightarrow> wb_workers s ! w = Waiting \<Longrightarrow> wb_queue s = job # queue \<Longrightarrow>
     wb_step new_v5 c s (s\<lparr>wb_queue := queue, wb_workers := (wb_workers s)[w := Received job]\<rparr>)"
| enter:
    "w < length (wb_workers s) \<Longrightarrow> wb_workers s ! w = Received job \<Longrightarrow>
     wb_step new_v5 c s (s\<lparr>wb_in_flight := wb_in_flight s + 1,
       wb_workers := (wb_workers s)[w := Preparing job]\<rparr>)"
| prepare_failed:
    "w < length (wb_workers s) \<Longrightarrow> wb_workers s ! w = Preparing job \<Longrightarrow>
     cache_prepare new_v5 c (job_query job) (job_keys job) (job_context job) = Inl e \<Longrightarrow>
     wb_step new_v5 c s (s\<lparr>wb_workers := (wb_workers s)[w := Leaving]\<rparr>)"
| prepared:
    "w < length (wb_workers s) \<Longrightarrow> wb_workers s ! w = Preparing job \<Longrightarrow>
     cache_prepare new_v5 c (job_query job) (job_keys job) (job_context job) = Inr entry \<Longrightarrow>
     wb_step new_v5 c s (s\<lparr>wb_workers := (wb_workers s)[w := Checking job entry]\<rparr>)"
| stale:
    "w < length (wb_workers s) \<Longrightarrow> wb_workers s ! w = Checking job entry \<Longrightarrow>
     pending_holds (job_id job) (job_value job) (wb_pending s) \<noteq> Inr True \<Longrightarrow>
     wb_step new_v5 c s (s\<lparr>wb_workers := (wb_workers s)[w := Leaving]\<rparr>)"
| wanted:
    "w < length (wb_workers s) \<Longrightarrow> wb_workers s ! w = Checking job entry \<Longrightarrow>
     pending_holds (job_id job) (job_value job) (wb_pending s) = Inr True \<Longrightarrow>
     wb_step new_v5 c s (s\<lparr>wb_workers := (wb_workers s)[w := Putting job entry]\<rparr>)"
| put_object:
    "w < length (wb_workers s) \<Longrightarrow> wb_workers s ! w = Putting job entry \<Longrightarrow>
     ob_put (cache_object c) (cache_namespace c) (ve_id entry) (arc_bytes (job_value job)) (snd (wb_store s)) = (r, obs) \<Longrightarrow>
     wb_step new_v5 c s (s\<lparr>wb_store := (fst (wb_store s), obs),
       wb_workers := (wb_workers s)[w := (case r of Inl _ \<Rightarrow> Cleaning job | Inr _ \<Rightarrow> Upserting job entry)]\<rparr>)"
| upsert_entry:
    "w < length (wb_workers s) \<Longrightarrow> wb_workers s ! w = Upserting job entry \<Longrightarrow>
     vb_upsert (cache_vector c) (cache_namespace c) entry (fst (wb_store s)) = (r, v) \<Longrightarrow>
     wb_step new_v5 c s (s\<lparr>wb_store := (v, snd (wb_store s)), wb_workers := (wb_workers s)[w := Cleaning job]\<rparr>)"
| clean:
    "w < length (wb_workers s) \<Longrightarrow> wb_workers s ! w = Cleaning job \<Longrightarrow>
     pending_remove_if (job_id job) (job_value job) (wb_pending s) = (r, p) \<Longrightarrow>
     wb_step new_v5 c s (s\<lparr>wb_pending := p, wb_workers := (wb_workers s)[w := Leaving]\<rparr>)"
| leave:
    "w < length (wb_workers s) \<Longrightarrow> wb_workers s ! w = Leaving \<Longrightarrow>
     wb_step new_v5 c s (s\<lparr>wb_in_flight := wb_in_flight s - 1, wb_workers := (wb_workers s)[w := Waiting]\<rparr>)"
| drop_shadow:
    "pending_remove i (wb_pending s) = (r, p) \<Longrightarrow> wb_step new_v5 c s (s\<lparr>wb_pending := p\<rparr>)"
| find_delete:
    "find_match c q keys context_opt (fst (wb_store s)) = (r, v) \<Longrightarrow>
     wb_step new_v5 c s (s\<lparr>wb_store := (v, snd (wb_store s)),
       wb_lookups := wb_lookups s @ (case r of Inr (Some hit) \<Rightarrow> [DelFound (hit_id hit)] | _ \<Rightarrow> [])\<rparr>)"
| delete_entry:
    "n < length (wb_lookups s) \<Longrightarrow> wb_lookups s ! n = DelFound i \<Longrightarrow>
     vb_delete (cache_vector c) (cache_namespace c) i (fst (wb_store s)) = (r, v) \<Longrightarrow>
     wb_step new_v5 c s (s\<lparr>wb_store := (v, snd (wb_store s)),
       wb_lookups := (case r of Inl _ \<Rightarrow> del_at n (wb_lookups s) | Inr _ \<Rightarrow> (wb_lookups s)[n := DelRemoved i])\<rparr>)"
| delete_object:
    "n < length (wb_lookups s) \<Longrightarrow> wb_lookups s ! n = DelRemoved i \<Longrightarrow>
     ob_delete (cache_object c) (cache_namespace c) i (snd (wb_store s)) = (r, obs) \<Longrightarrow>
     wb_step new_v5 c s (s\<lparr>wb_store := (fst (wb_store s), obs), wb_lookups := del_at n (wb_lookups s)\<rparr>)"
| find_get:
    "find_match c q keys context_opt (fst (wb_store s)) = (r, v) \<Longrightarrow>
     wb_step new_v5 c s (s\<lparr>wb_store := (v, snd (wb_store s)),
       wb_lookups := wb_lookups s @ (case r of Inr (Some hit) \<Rightarrow> [GetFound (hit_id hit)] | _ \<Rightarrow> [])\<rparr>)"
| get_object:
    "n < length (wb_lookups s) \<Longrightarrow> wb_lookups s ! n = GetFound i \<Longrightarrow>
     ob_get (cache_object c) (cache_namespace c) i (snd (wb_store s)) = (r, obs) \<Longrightarrow>
     wb_step new_v5 c s (s\<lparr>wb_store := (fst (wb_store s), obs), wb_lookups := del_at n (wb_lookups s)\<rparr>)"

inductive_cases wb_stepE: "wb_step new_v5 c s s'"

abbreviation wb_steps ::
  "(bytes \<Rightarrow> bytes \<Rightarrow> bytes) \<Rightarrow> ('v, 'o) cache \<Rightarrow> ('v, 'o) write_behind \<Rightarrow> ('v, 'o) write_behind \<Rightarrow> bool" where
  "wb_steps new_v5 c \<equiv> (wb_step new_v5 c)\<^sup>*\<^sup>*"

text \<open>The steps of set handlers and workers alone: gets and deletes change the place of neither.\<close>

definition write_step ::
  "(bytes \<Rightarrow> bytes \<Rightarrow> bytes) \<Rightarrow> ('v, 'o) cache \<Rightarrow> ('v, 'o) write_behind \<Rightarrow> ('v, 'o) write_behind \<Rightarrow> bool" where
  "write_step new_v5 c s s' \<longleftrightarrow> wb_step new_v5 c s s' \<and> (wb_setters s' \<noteq> wb_setters s \<or> wb_workers s' \<noteq> wb_workers s)"

abbreviation write_steps ::
  "(bytes \<Rightarrow> bytes \<Rightarrow> bytes) \<Rightarrow> ('v, 'o) cache \<Rightarrow> ('v, 'o) write_behind \<Rightarrow> ('v, 'o) write_behind \<Rightarrow> bool" where
  "write_steps new_v5 c \<equiv> (write_step new_v5 c)\<^sup>*\<^sup>*"

lemma write_steps_wb: "write_steps new_v5 c s s' \<Longrightarrow> wb_steps new_v5 c s s'"
  by (induction rule: rtranclp_induct) (auto simp: write_step_def intro: rtranclp.rtrancl_into_rtrancl)

lemma write_stepI:
  "wb_step new_v5 c s s' \<Longrightarrow> wb_setters s' \<noteq> wb_setters s \<or> wb_workers s' \<noteq> wb_workers s \<Longrightarrow> write_step new_v5 c s s'"
  by (simp add: write_step_def)

lemma list_update_neq: "n < length xs \<Longrightarrow> x \<noteq> y \<Longrightarrow> xs[n := x] \<noteq> xs[n := y]"
  by (metis nth_list_update_eq)

text \<open>Without interference, the steps of a get and of a delete are the operations of the cache.\<close>

lemma del_at_last [simp]: "del_at (length xs) (xs @ [x]) = xs"
  by (simp add: del_at_def)

lemma cache_delete_run:
  assumes "cache_delete c q keys context_opt (wb_store s) = (r, store)"
  shows "wb_steps new_v5 c s (s\<lparr>wb_store := store\<rparr>)"
proof -
  obtain m v where m: "find_match c q keys context_opt (fst (wb_store s)) = (m, v)" by fastforce
  note find = find_delete[OF m, of new_v5]
  show ?thesis
  proof (cases "\<exists>hit. m = Inr (Some hit)")
    case False
    then have "store = (v, snd (wb_store s))" "(case m of Inr (Some hit) \<Rightarrow> [DelFound (hit_id hit)] | _ \<Rightarrow> []) = []"
      using assms m by (auto simp: cache_delete_def split: sum.splits option.splits)
    with find show ?thesis by (cases s) auto
  next
    case True
    then obtain hit where hit: "m = Inr (Some hit)" by blast
    let ?i = "hit_id hit" and ?l = "wb_lookups s"
    let ?s1 = "s\<lparr>wb_store := (v, snd (wb_store s)), wb_lookups := ?l @ [DelFound ?i]\<rparr>"
    have 1: "wb_step new_v5 c s ?s1" using find hit by simp
    obtain r1 v1 where d1: "vb_delete (cache_vector c) (cache_namespace c) ?i v = (r1, v1)" by fastforce
    obtain r2 obs where d2: "ob_delete (cache_object c) (cache_namespace c) ?i (snd (wb_store s)) = (r2, obs)" by fastforce
    note entry = delete_entry[of "length ?l" ?s1 ?i c r1 v1 new_v5]
    show ?thesis
    proof (cases r1)
      case (Inl e)
      with assms m hit d1 have "store = (v1, snd (wb_store s))" by (auto simp: cache_delete_def)
      with 1 entry d1 Inl show ?thesis by (cases s) (simp add: converse_rtranclp_into_rtranclp)
    next
      case (Inr u)
      let ?s2 = "s\<lparr>wb_store := (v1, snd (wb_store s)), wb_lookups := ?l @ [DelRemoved ?i]\<rparr>"
      have 2: "wb_step new_v5 c ?s1 ?s2" using entry d1 Inr by (cases s) simp
      have "store = (v1, obs)" using assms m hit d1 d2 Inr by (auto simp: cache_delete_def split: sum.splits)
      then have "wb_step new_v5 c ?s2 (s\<lparr>wb_store := store\<rparr>)"
        using delete_object[of "length ?l" ?s2 ?i c r2 obs new_v5] d2 by (cases s) simp
      with 1 2 show ?thesis by (meson converse_rtranclp_into_rtranclp r_into_rtranclp)
    qed
  qed
qed

lemma cache_get_run:
  assumes "cache_get c q keys context_opt (wb_store s) = (r, store)"
  shows "wb_steps new_v5 c s (s\<lparr>wb_store := store\<rparr>)"
proof -
  obtain m v where m: "find_match c q keys context_opt (fst (wb_store s)) = (m, v)" by fastforce
  note find = find_get[OF m, of new_v5]
  show ?thesis
  proof (cases "\<exists>hit. m = Inr (Some hit)")
    case False
    then have "store = (v, snd (wb_store s))" "(case m of Inr (Some hit) \<Rightarrow> [GetFound (hit_id hit)] | _ \<Rightarrow> []) = []"
      using assms m by (auto simp: cache_get_def split: sum.splits option.splits)
    with find show ?thesis by (cases s) auto
  next
    case True
    then obtain hit where hit: "m = Inr (Some hit)" by blast
    let ?i = "hit_id hit" and ?l = "wb_lookups s"
    let ?s1 = "s\<lparr>wb_store := (v, snd (wb_store s)), wb_lookups := ?l @ [GetFound ?i]\<rparr>"
    have 1: "wb_step new_v5 c s ?s1" using find hit by simp
    obtain r2 obs where g: "ob_get (cache_object c) (cache_namespace c) ?i (snd (wb_store s)) = (r2, obs)" by fastforce
    have "store = (v, obs)" using assms m hit g by (auto simp: cache_get_def)
    then have "wb_step new_v5 c ?s1 (s\<lparr>wb_store := store\<rparr>)"
      using get_object[of "length ?l" ?s1 ?i c r2 obs new_v5] g by (cases s) simp
    with 1 show ?thesis by (meson converse_rtranclp_into_rtranclp r_into_rtranclp)
  qed
qed

section \<open>Live jobs\<close>

fun worker_job :: "worker \<Rightarrow> write_job option" where
  "worker_job Waiting = None"
| "worker_job (Received j) = Some j"
| "worker_job (Preparing j) = Some j"
| "worker_job (Checking j e) = Some j"
| "worker_job (Putting j e) = Some j"
| "worker_job (Upserting j e) = Some j"
| "worker_job (Cleaning j) = Some j"
| "worker_job Leaving = None"

fun setter_job :: "setter \<Rightarrow> write_job" where
  "setter_job (Pushing j) = j"
| "setter_job (Retracting j) = j"

fun guarded :: "worker \<Rightarrow> bool" where
  "guarded Waiting = False"
| "guarded (Received j) = False"
| "guarded _ = True"

fun committing :: "worker \<Rightarrow> write_job option" where
  "committing (Putting j e) = Some j"
| "committing (Upserting j e) = Some j"
| "committing _ = None"

definition setter_jobs :: "setter list \<Rightarrow> write_job set" where
  "setter_jobs xs = setter_job ` set xs"

definition worker_jobs :: "worker list \<Rightarrow> write_job set" where
  "worker_jobs ws = {j. \<exists>w \<in> set ws. worker_job w = Some j}"

definition live :: "('v, 'o) write_behind \<Rightarrow> write_job set" where
  "live s = setter_jobs (wb_setters s) \<union> set (wb_queue s) \<union> worker_jobs (wb_workers s)"

named_theorems live_simps \<open>how the stages of handlers and workers change the live jobs\<close>

lemma set_del_at: "set (del_at n xs) \<subseteq> set xs"
  using set_take_subset[of n xs] set_drop_subset[of "Suc n" xs] by (auto simp: del_at_def)

lemma set_del_at_keep: "n < length xs \<Longrightarrow> set xs = insert (xs ! n) (set (del_at n xs))"
  unfolding del_at_def by (subst id_take_nth_drop[of n xs]) auto

lemma setter_jobs_append [live_simps]: "setter_jobs (xs @ [x]) = insert (setter_job x) (setter_jobs xs)"
  by (auto simp: setter_jobs_def)

lemma setter_jobs_del:
  "n < length xs \<Longrightarrow> setter_jobs xs = insert (setter_job (xs ! n)) (setter_jobs (del_at n xs))"
  using set_del_at_keep[of n xs] by (auto simp: setter_jobs_def)

lemma set_update_eq:
  assumes "n < length xs"
  shows "insert (xs ! n) (set (xs[n := y])) = insert y (set xs)"
proof -
  have "xs[n := y] = take n xs @ y # drop (Suc n) xs" "xs = take n xs @ xs ! n # drop (Suc n) xs"
    using assms by (rule upd_conv_take_nth_drop, rule id_take_nth_drop)
  then have "set (xs[n := y]) = insert y (set (take n xs) \<union> set (drop (Suc n) xs))"
    "set xs = insert (xs ! n) (set (take n xs) \<union> set (drop (Suc n) xs))"
    by (metis list.simps(15) set_append Un_insert_right)+
  then show ?thesis by auto
qed

lemma setter_jobs_update:
  assumes "n < length xs" "setter_job y = setter_job (xs ! n)"
  shows "setter_jobs (xs[n := y]) = setter_jobs xs"
proof -
  have "setter_job ` insert (xs ! n) (set (xs[n := y])) = setter_job ` insert y (set xs)"
    using set_update_eq[OF assms(1)] by simp
  moreover have "xs ! n \<in> set xs" "y \<in> set (xs[n := y])"
    using assms(1) set_update_memI by (auto simp: set_update_memI)
  ultimately show ?thesis using assms(2) unfolding setter_jobs_def by (metis image_insert insert_absorb image_eqI)
qed

lemma worker_jobs_insert: "{j. \<exists>w \<in> insert x X. worker_job w = Some j} = set_option (worker_job x) \<union> {j. \<exists>w \<in> X. worker_job w = Some j}"
  by auto

lemma worker_jobs_update:
  assumes "w < length ws"
  shows "set_option (worker_job (ws ! w)) \<union> worker_jobs (ws[w := y]) = set_option (worker_job y) \<union> worker_jobs ws"
  using set_update_eq[OF assms, of y] unfolding worker_jobs_def by (metis worker_jobs_insert)

lemma worker_jobs_nth: "w < length ws \<Longrightarrow> set_option (worker_job (ws ! w)) \<subseteq> worker_jobs ws"
  using nth_mem[of w ws] by (auto simp: worker_jobs_def)

lemma worker_jobs_set: "w < length ws \<Longrightarrow> set_option (worker_job y) \<subseteq> worker_jobs (ws[w := y])"
  using set_update_memI[of w ws y] by (auto simp: worker_jobs_def)

lemma worker_jobs_same:
  assumes "w < length ws" "worker_job y = worker_job (ws ! w)"
  shows "worker_jobs (ws[w := y]) = worker_jobs ws"
  using worker_jobs_update[OF assms(1), of y] worker_jobs_nth[OF assms(1)] worker_jobs_set[OF assms(1), of y]
  unfolding assms(2) by blast

lemma worker_jobs_done:
  assumes "w < length ws" "worker_job (ws ! w) = Some j" "worker_job y = None"
  shows "worker_jobs ws = insert j (worker_jobs (ws[w := y]))"
  using worker_jobs_update[OF assms(1), of y] assms(2,3) by simp

lemma worker_jobs_start:
  assumes "w < length ws" "worker_job (ws ! w) = None" "worker_job y = Some j"
  shows "worker_jobs (ws[w := y]) = insert j (worker_jobs ws)"
  using worker_jobs_update[OF assms(1), of y] assms(2,3) by simp

section \<open>Pending operations on an unpoisoned shadow\<close>

lemma pending_ops:
  assumes "\<not> pw_poisoned p"
  shows "pending_insert i v p = (Inr (), p\<lparr>pw_entries := (pw_entries p)(i \<mapsto> v)\<rparr>)"
    "pending_get i p = Inr (pw_entries p i)"
    "pending_holds i v p = Inr (\<exists>a. pw_entries p i = Some a \<and> ptr_eq a v)"
    "pending_remove i p = (Inr (pw_entries p i \<noteq> None), p\<lparr>pw_entries := (pw_entries p)(i := None)\<rparr>)"
    "pending_remove_if i v p =
       (if \<exists>a. pw_entries p i = Some a \<and> ptr_eq a v
        then (Inr True, p\<lparr>pw_entries := (pw_entries p)(i := None)\<rparr>) else (Inr False, p))"
  using assms
  by (auto simp: pending_insert_def pending_get_def pending_holds_def pending_remove_def
      pending_remove_if_def pending_lock_def split: option.splits)

definition shadow :: "('v, 'o) write_behind \<Rightarrow> entry_id \<rightharpoonup> arc" where
  "shadow s = pw_entries (wb_pending s)"

text \<open>What every step does to the shadow and the live jobs: it records one new job, or it only drops
  shadows and jobs.\<close>

lemma wb_step_effect:
  assumes "wb_step new_v5 c s s'" and "\<not> pw_poisoned (wb_pending s)"
  shows "\<not> pw_poisoned (wb_pending s') \<and>
    ((\<exists>job. arc_ptr (job_value job) = wb_next_arc s \<and> shadow s' = (shadow s)(job_id job \<mapsto> job_value job)
        \<and> live s' = insert job (live s) \<and> wb_next_arc s' = wb_next_arc s + 1
        \<and> wb_workers s' = wb_workers s)
     \<or> (shadow s' \<subseteq>\<^sub>m shadow s \<and> live s' \<subseteq> live s \<and> wb_next_arc s' = wb_next_arc s))"
  using assms
proof (induction rule: wb_step.induct)
  case (record_shadow job s q keys context_opt v p)
  then show ?case
    by (auto simp: pending_ops shadow_def live_def new_job_def live_simps intro!: exI[of _ job])
next
  case (enqueue n s job queue)
  then have "setter_jobs (wb_setters s) = insert job (setter_jobs (del_at n (wb_setters s)))"
    using setter_jobs_del[OF enqueue(1)] by simp
  moreover have "queue = wb_queue s @ [job]" using enqueue(3) by (simp add: try_push_def split: if_splits)
  ultimately show ?case using enqueue(4) by (simp add: shadow_def live_def)
next
  case (full n s job queue)
  then show ?case
    using setter_jobs_update[OF full(1), of "Retracting job"] by (auto simp: shadow_def live_def)
next
  case (retract n s job r p)
  then have "setter_jobs (wb_setters s) = insert job (setter_jobs (del_at n (wb_setters s)))"
    using setter_jobs_del[OF retract(1)] by simp
  with retract show ?case
    by (auto simp: shadow_def live_def pending_ops map_le_def split: if_splits)
next
  case (receive w s job queue)
  then show ?case
    using worker_jobs_start[OF receive(1), of "Received job" job] by (auto simp: shadow_def live_def)
next
  case (enter w s job)
  then show ?case
    using worker_jobs_same[OF enter(1), of "Preparing job"] by (auto simp: shadow_def live_def)
next
  case (prepare_failed w s job e)
  then show ?case
    using worker_jobs_done[OF prepare_failed(1), of job Leaving] by (auto simp: shadow_def live_def)
next
  case (prepared w s job entry)
  then show ?case
    using worker_jobs_same[OF prepared(1), of "Checking job entry"] by (auto simp: shadow_def live_def)
next
  case (stale w s job entry)
  then show ?case
    using worker_jobs_done[OF stale(1), of job Leaving] by (auto simp: shadow_def live_def)
next
  case (wanted w s job entry)
  then show ?case
    using worker_jobs_same[OF wanted(1), of "Putting job entry"] by (auto simp: shadow_def live_def)
next
  case (put_object w s job entry r obs)
  then show ?case
    using worker_jobs_same[OF put_object(1), of "case r of Inl _ \<Rightarrow> Cleaning job | Inr _ \<Rightarrow> Upserting job entry"]
    by (cases r) (auto simp: shadow_def live_def)
next
  case (upsert_entry w s job entry r v)
  then show ?case
    using worker_jobs_same[OF upsert_entry(1), of "Cleaning job"] by (auto simp: shadow_def live_def)
next
  case (clean w s job r p)
  then show ?case
    using worker_jobs_done[OF clean(1), of job Leaving]
    by (auto simp: shadow_def live_def pending_ops map_le_def split: if_splits)
next
  case (leave w s)
  then show ?case
    using worker_jobs_same[OF leave(1), of Waiting] by (auto simp: shadow_def live_def)
qed (auto simp: shadow_def live_def pending_ops map_le_def)

section \<open>Invariants\<close>

definition wb_ok :: "('v, 'o) write_behind \<Rightarrow> bool" where
  "wb_ok s \<longleftrightarrow> \<not> pw_poisoned (wb_pending s)
     \<and> (\<forall>i a. shadow s i = Some a \<longrightarrow> arc_ptr a < wb_next_arc s)
     \<and> (\<forall>j \<in> live s. arc_ptr (job_value j) < wb_next_arc s)
     \<and> (\<forall>i a. \<forall>j \<in> live s. shadow s i = Some a \<longrightarrow> ptr_eq a (job_value j) \<longrightarrow> job_id j = i)"

definition jobs_distinct :: "('v, 'o) write_behind \<Rightarrow> bool" where
  "jobs_distinct s \<longleftrightarrow> (\<forall>j \<in> live s. \<forall>k \<in> live s. ptr_eq (job_value j) (job_value k) \<longrightarrow> j = k)"

lemma wb_ok_new: "wb_ok (wb_new store)"
  by (auto simp: wb_ok_def wb_new_def pending_default_def shadow_def live_def setter_jobs_def worker_jobs_def)

lemma wb_step_ok:
  assumes "wb_step new_v5 c s s'" and ok: "wb_ok s"
  shows "wb_ok s'"
proof -
  have np: "\<not> pw_poisoned (wb_pending s)" using ok by (simp add: wb_ok_def)
  from wb_step_effect[OF assms(1) np] consider
    (new) job where "\<not> pw_poisoned (wb_pending s')" "arc_ptr (job_value job) = wb_next_arc s"
      "shadow s' = (shadow s)(job_id job \<mapsto> job_value job)" "live s' = insert job (live s)"
      "wb_next_arc s' = wb_next_arc s + 1"
    | (less) "\<not> pw_poisoned (wb_pending s')" "shadow s' \<subseteq>\<^sub>m shadow s" "live s' \<subseteq> live s"
      "wb_next_arc s' = wb_next_arc s" by blast
  then show ?thesis
  proof cases
    case new
    with ok show ?thesis
      by (fastforce simp: wb_ok_def ptr_eq_def split: if_splits)
  next
    case less
    then have "shadow s' i = Some a \<Longrightarrow> shadow s i = Some a" for i a
      by (metis domI map_le_def)
    with less ok show ?thesis unfolding wb_ok_def by (metis subsetD)
  qed
qed

lemma wb_steps_ok: "wb_steps new_v5 c s s' \<Longrightarrow> wb_ok s \<Longrightarrow> wb_ok s'"
  by (induction rule: rtranclp_induct) (auto intro: wb_step_ok)

lemma wb_step_distinct:
  assumes "wb_step new_v5 c s s'" and ok: "wb_ok s" and d: "jobs_distinct s"
  shows "jobs_distinct s'"
proof -
  have np: "\<not> pw_poisoned (wb_pending s)" using ok by (simp add: wb_ok_def)
  have lt: "arc_ptr (job_value j) < wb_next_arc s" if "j \<in> live s" for j using ok that by (simp add: wb_ok_def)
  from wb_step_effect[OF assms(1) np] consider
    (new) job where "arc_ptr (job_value job) = wb_next_arc s" "live s' = insert job (live s)"
    | (less) "live s' \<subseteq> live s" by blast
  then show ?thesis
  proof cases
    case new
    with d show ?thesis unfolding jobs_distinct_def ptr_eq_def by (metis insertE lt less_irrefl)
  next
    case less
    with d show ?thesis unfolding jobs_distinct_def by blast
  qed
qed

lemma wb_steps_distinct: "wb_steps new_v5 c s s' \<Longrightarrow> wb_ok s \<Longrightarrow> jobs_distinct s \<Longrightarrow> wb_ok s' \<and> jobs_distinct s'"
  by (induction rule: rtranclp_induct) (auto intro: wb_step_ok wb_step_distinct)

lemma jobs_distinct_new: "jobs_distinct (wb_new store)"
  by (simp add: jobs_distinct_def wb_new_def live_def setter_jobs_def worker_jobs_def)

text \<open>The bound of the queue and the in-flight count.\<close>

definition wb_counts :: "('v, 'o) write_behind \<Rightarrow> bool" where
  "wb_counts s \<longleftrightarrow> length (wb_queue s) \<le> WRITE_QUEUE_CAPACITY
     \<and> wb_in_flight s = length (filter guarded (wb_workers s)) \<and> length (wb_workers s) \<le> WRITE_WORKERS"

lemma length_filter_update:
  assumes "n < length xs"
  shows "length (filter P (xs[n := y])) + (if P (xs ! n) then 1 else 0) = length (filter P xs) + (if P y then 1 else 0)"
proof -
  have 1: "xs[n := y] = take n xs @ y # drop (Suc n) xs" using assms by (rule upd_conv_take_nth_drop)
  have 2: "xs = take n xs @ xs ! n # drop (Suc n) xs" using assms by (rule id_take_nth_drop)
  have "length (filter P xs) = length (filter P (take n xs @ xs ! n # drop (Suc n) xs))"
    using 2 by simp
  then show ?thesis unfolding 1 by simp
qed

lemma wb_step_counts: "wb_step new_v5 c s s' \<Longrightarrow> wb_counts s \<Longrightarrow> wb_counts s'"
proof (induction rule: wb_step.induct)
  case (put_object w s job entry r obs)
  then show ?case
    using length_filter_update[of w "wb_workers s" guarded "Cleaning job"]
      length_filter_update[of w "wb_workers s" guarded "Upserting job entry"]
    by (auto simp: wb_counts_def split: sum.splits)
next
  case (receive w s job queue)
  then show ?case
    using length_filter_update[of w "wb_workers s" guarded "Received job"] by (simp add: wb_counts_def)
next
  case (enter w s job)
  then show ?case
    using length_filter_update[of w "wb_workers s" guarded "Preparing job"] by (simp add: wb_counts_def)
next
  case (leave w s)
  then show ?case
    using length_filter_update[of w "wb_workers s" guarded Waiting] by (simp add: wb_counts_def)
next
  case (prepare_failed w s job e)
  then show ?case
    using length_filter_update[of w "wb_workers s" guarded Leaving] by (simp add: wb_counts_def)
next
  case (prepared w s job entry)
  then show ?case
    using length_filter_update[of w "wb_workers s" guarded "Checking job entry"] by (simp add: wb_counts_def)
next
  case (stale w s job entry)
  then show ?case
    using length_filter_update[of w "wb_workers s" guarded Leaving] by (simp add: wb_counts_def)
next
  case (wanted w s job entry)
  then show ?case
    using length_filter_update[of w "wb_workers s" guarded "Putting job entry"] by (simp add: wb_counts_def)
next
  case (upsert_entry w s job entry r v)
  then show ?case
    using length_filter_update[of w "wb_workers s" guarded "Cleaning job"] by (simp add: wb_counts_def)
next
  case (clean w s job r p)
  then show ?case
    using length_filter_update[of w "wb_workers s" guarded Leaving] by (simp add: wb_counts_def)
qed (auto simp: wb_counts_def try_push_def split: if_splits)

lemma wb_steps_counts: "wb_steps new_v5 c s s' \<Longrightarrow> wb_counts s \<Longrightarrow> wb_counts s'"
  by (induction rule: rtranclp_induct) (auto intro: wb_step_counts)

lemma wb_counts_new: "wb_counts (wb_new store)"
  by (simp add: wb_counts_def wb_new_def)

text \<open>If no preparation fails, a shadow is dropped together with the job it belongs to.\<close>

definition owned :: "('v, 'o) write_behind \<Rightarrow> bool" where
  "owned s \<longleftrightarrow> (\<forall>i a. shadow s i = Some a \<longrightarrow> (\<exists>j \<in> live s. job_id j = i \<and> job_value j = a))"

definition prepares :: "(bytes \<Rightarrow> bytes \<Rightarrow> bytes) \<Rightarrow> ('v, 'o) cache \<Rightarrow> bool" where
  "prepares new_v5 c \<longleftrightarrow> (\<forall>q keys context_opt. \<exists>e. cache_prepare new_v5 c q keys context_opt = Inr e)"

lemma remove_if_gone:
  assumes "wb_ok s" "job \<in> live s"
    and "pending_remove_if (job_id job) (job_value job) (wb_pending s) = (r, p)" "pw_entries p i = Some a"
  shows "\<not> ptr_eq a (job_value job)"
proof
  assume eq: "ptr_eq a (job_value job)"
  have np: "\<not> pw_poisoned (wb_pending s)" using assms(1) by (simp add: wb_ok_def)
  have "shadow s i = Some a"
    using assms(3,4) by (auto simp: pending_ops[OF np] shadow_def split: if_splits)
  with assms(1,2) eq have "i = job_id job" unfolding wb_ok_def by metis
  with \<open>shadow s i = Some a\<close> eq assms(3,4) show False
    by (auto simp: pending_ops[OF np] shadow_def split: if_splits)
qed

text \<open>A job that is no longer live after a step has no shadow left.\<close>

lemma wb_step_gone:
  assumes "wb_step new_v5 c s s'" and "wb_ok s" and "prepares new_v5 c"
    and "j \<in> live s" and "j \<notin> live s'" and "shadow s' i = Some a"
  shows "\<not> ptr_eq a (job_value j)"
  using assms
proof (induction rule: wb_step.induct)
  case (retract n s job r p)
  from retract(1,2,6,7) have j: "j = job"
    using setter_jobs_del[OF retract(1)] by (auto simp: live_def)
  then show ?case
    using remove_if_gone[OF retract(4) _ retract(3)] retract(6,8) by (simp add: shadow_def)
next
  case (enqueue n s job queue)
  have "setter_jobs (wb_setters s) = insert job (setter_jobs (del_at n (wb_setters s)))"
    using setter_jobs_del[OF enqueue(1)] enqueue(2) by simp
  moreover have "queue = wb_queue s @ [job]" using enqueue(3) by (simp add: try_push_def split: if_splits)
  ultimately show ?case using enqueue(6,7) by (simp add: live_def)
next
  case (full n s job queue)
  then show ?case
    using setter_jobs_update[OF full(1), of "Retracting job"] by (auto simp: live_def)
next
  case (receive w s job queue)
  then show ?case
    using worker_jobs_start[OF receive(1), of "Received job" job] by (auto simp: live_def)
next
  case (enter w s job)
  then show ?case using worker_jobs_same[OF enter(1), of "Preparing job"] by (auto simp: live_def)
next
  case (prepare_failed w s job e)
  then show ?case by (metis Inr_Inl_False prepares_def)
next
  case (prepared w s job entry)
  then show ?case using worker_jobs_same[OF prepared(1), of "Checking job entry"] by (auto simp: live_def)
next
  case (stale w s job entry)
  from stale(1,2,6,7) have j: "j = job"
    using worker_jobs_done[OF stale(1), of job Leaving] by (auto simp: live_def)
  have np: "\<not> pw_poisoned (wb_pending s)" using stale(4) by (simp add: wb_ok_def)
  show ?case
  proof
    assume eq: "ptr_eq a (job_value j)"
    have sh: "shadow s i = Some a" using stale(8) by (simp add: shadow_def)
    with stale(4,6) eq have "job_id j = i" unfolding wb_ok_def by metis
    with sh eq j stale(3) show False by (simp add: pending_ops[OF np] shadow_def)
  qed
next
  case (wanted w s job entry)
  then show ?case using worker_jobs_same[OF wanted(1), of "Putting job entry"] by (auto simp: live_def)
next
  case (put_object w s job entry r obs)
  then show ?case
    using worker_jobs_same[OF put_object(1), of "case r of Inl _ \<Rightarrow> Cleaning job | Inr _ \<Rightarrow> Upserting job entry"]
    by (cases r) (auto simp: live_def)
next
  case (upsert_entry w s job entry r v)
  then show ?case using worker_jobs_same[OF upsert_entry(1), of "Cleaning job"] by (auto simp: live_def)
next
  case (clean w s job r p)
  from clean(1,2,6,7) have j: "j = job"
    using worker_jobs_done[OF clean(1), of job Leaving] by (auto simp: live_def)
  then show ?case
    using remove_if_gone[OF clean(4) _ clean(3)] clean(6,8) by (simp add: shadow_def)
next
  case (leave w s)
  then show ?case using worker_jobs_same[OF leave(1), of Waiting] by (auto simp: live_def)
qed (auto simp: live_def live_simps)

lemma wb_step_owned:
  assumes step: "wb_step new_v5 c s s'" and ok: "wb_ok s" and "prepares new_v5 c" and own: "owned s"
  shows "owned s'"
  unfolding owned_def
proof (intro allI impI)
  fix i a
  assume sh: "shadow s' i = Some a"
  have np: "\<not> pw_poisoned (wb_pending s)" using ok by (simp add: wb_ok_def)
  from wb_step_effect[OF step np] consider
    (new) job where "shadow s' = (shadow s)(job_id job \<mapsto> job_value job)" "live s' = insert job (live s)"
    | (less) "shadow s' \<subseteq>\<^sub>m shadow s" by blast
  then show "\<exists>j \<in> live s'. job_id j = i \<and> job_value j = a"
  proof cases
    case new
    with sh own show ?thesis by (cases "i = job_id job") (auto simp: owned_def)
  next
    case less
    with sh have "shadow s i = Some a" by (metis domI map_le_def)
    with own obtain j where j: "j \<in> live s" "job_id j = i" "job_value j = a" by (auto simp: owned_def)
    have "j \<in> live s'"
    proof (rule ccontr)
      assume "j \<notin> live s'"
      from wb_step_gone[OF step ok assms(3) j(1) this sh] j(3) show False by (simp add: ptr_eq_def)
    qed
    with j show ?thesis by blast
  qed
qed

lemma wb_steps_owned:
  "wb_steps new_v5 c s s' \<Longrightarrow> wb_ok s \<Longrightarrow> prepares new_v5 c \<Longrightarrow> owned s \<Longrightarrow> wb_ok s' \<and> owned s'"
  by (induction rule: rtranclp_induct) (auto intro: wb_step_ok wb_step_owned)

text \<open>A job whose shadow is gone before it passed its check.\<close>

definition overtaken :: "('v, 'o) write_behind \<Rightarrow> nat \<Rightarrow> bool" where
  "overtaken s n \<longleftrightarrow> n < wb_next_arc s \<and> (\<forall>i a. shadow s i = Some a \<longrightarrow> arc_ptr a \<noteq> n)
     \<and> (\<forall>w \<in> set (wb_workers s). \<forall>j. committing w = Some j \<longrightarrow> arc_ptr (job_value j) \<noteq> n)"

lemma committing_update:
  assumes "x \<in> set (ws[n := y])" "committing x = Some j"
  shows "committing y = Some j \<or> (\<exists>z \<in> set ws. committing z = Some j)"
  using set_update_subset_insert[of ws n y] assms by blast

lemma wb_step_committing:
  assumes "wb_step new_v5 c s s'" "\<not> pw_poisoned (wb_pending s)"
    and "w \<in> set (wb_workers s')" "committing w = Some j"
  shows "(\<exists>x \<in> set (wb_workers s). committing x = Some j)
    \<or> (\<exists>a. shadow s (job_id j) = Some a \<and> ptr_eq a (job_value j))"
  using assms
proof (induction rule: wb_step.induct)
  case (wanted v s job entry)
  from committing_update[of w "wb_workers s" v "Putting job entry" j] wanted(3-6) show ?case
    by (auto simp: pending_ops shadow_def)
next
  case (put_object v s job entry r obs)
  have "committing (wb_workers s ! v) = Some job" using put_object(2) by simp
  then have ex: "\<exists>x \<in> set (wb_workers s). committing x = Some job" using nth_mem[OF put_object(1)] by metis
  from put_object(5,6) committing_update[of w "wb_workers s" v _ j]
  have "committing (case r of Inl _ \<Rightarrow> Cleaning job | Inr _ \<Rightarrow> Upserting job entry) = Some j
    \<or> (\<exists>x \<in> set (wb_workers s). committing x = Some j)" by simp
  with ex show ?case by (cases r) auto
qed (auto dest: committing_update)

lemma wb_step_overtaken:
  assumes "wb_step new_v5 c s s'" and "wb_ok s" and over: "overtaken s n"
  shows "overtaken s' n"
proof -
  have np: "\<not> pw_poisoned (wb_pending s)" using assms(2) by (simp add: wb_ok_def)
  have com: "arc_ptr (job_value j) \<noteq> n" if "w \<in> set (wb_workers s')" "committing w = Some j" for w j
    using wb_step_committing[OF assms(1) np that] over by (auto simp: overtaken_def ptr_eq_def)
  from wb_step_effect[OF assms(1) np] consider
    (new) job :: write_job where "arc_ptr (job_value job) = wb_next_arc s"
      "shadow s' = (shadow s)(job_id job \<mapsto> job_value job)" "wb_next_arc s' = wb_next_arc s + 1"
    | (less) "shadow s' \<subseteq>\<^sub>m shadow s" "wb_next_arc s' = wb_next_arc s" by blast
  then show ?thesis
  proof cases
    case new
    with over com show ?thesis by (auto simp: overtaken_def split: if_splits)
  next
    case less
    then have "shadow s' i = Some a \<Longrightarrow> shadow s i = Some a" for i a by (metis domI map_le_def)
    with less(2) over com show ?thesis unfolding overtaken_def by metis
  qed
qed

lemma wb_steps_overtaken:
  "wb_steps new_v5 c s s' \<Longrightarrow> wb_ok s \<Longrightarrow> overtaken s n \<Longrightarrow> wb_ok s' \<and> overtaken s' n"
  by (induction rule: rtranclp_induct) (auto intro: wb_step_ok wb_step_overtaken)

section \<open>Whole writes\<close>

text \<open>The steps of one uncontended set up to its check, and those of a worker from there on.\<close>

lemma wb_start:
  assumes "wb_setters s = []" "wb_queue s = []" "\<not> pw_poisoned (wb_pending s)"
    and w: "w < length (wb_workers s)" "wb_workers s ! w = Waiting"
    and job: "job = new_job new_v5 (wb_next_arc s) q keys context_opt v"
    and prep: "cache_prepare new_v5 c q keys context_opt = Inr entry"
  shows "write_steps new_v5 c s (s\<lparr>
    wb_pending := (wb_pending s)\<lparr>pw_entries := (shadow s)(job_id job \<mapsto> job_value job)\<rparr>,
    wb_workers := (wb_workers s)[w := Putting job entry], wb_in_flight := wb_in_flight s + 1,
    wb_next_arc := wb_next_arc s + 1\<rparr>)"
proof -
  let ?p = "(wb_pending s)\<lparr>pw_entries := (shadow s)(job_id job \<mapsto> job_value job)\<rparr>"
  let ?at = "\<lambda>n x. s\<lparr>wb_pending := ?p, wb_workers := (wb_workers s)[w := x],
    wb_in_flight := n, wb_next_arc := wb_next_arc s + 1\<rparr>"
  let ?s1 = "s\<lparr>wb_pending := ?p, wb_next_arc := wb_next_arc s + 1, wb_setters := [Pushing job]\<rparr>"
  let ?s2 = "s\<lparr>wb_pending := ?p, wb_next_arc := wb_next_arc s + 1, wb_setters := [], wb_queue := [job]\<rparr>"
  have "write_step new_v5 c s ?s1"
    using record_shadow[of job new_v5 s q keys context_opt v ?p c] assms
    by (cases s) (simp add: write_step_def pending_ops shadow_def)
  moreover have "write_step new_v5 c ?s1 ?s2"
    using enqueue[of 0 ?s1 job "[job]" new_v5 c] assms(2)
    by (cases s) (simp add: write_step_def try_push_def WRITE_QUEUE_CAPACITY_def del_at_def)
  moreover have "write_step new_v5 c ?s2 (?at (wb_in_flight s) (Received job))"
    using receive[of w ?s2 job "[]" new_v5 c] assms(1,2) w by (cases s) (simp add: write_step_def list_update_neq list_update_same_conv)
  moreover have "write_step new_v5 c (?at (wb_in_flight s) (Received job)) (?at (wb_in_flight s + 1) (Preparing job))"
    using enter[of w "?at (wb_in_flight s) (Received job)" job new_v5 c] w by (cases s) (simp add: write_step_def list_update_neq list_update_same_conv)
  moreover have "write_step new_v5 c (?at (wb_in_flight s + 1) (Preparing job)) (?at (wb_in_flight s + 1) (Checking job entry))"
    using prepared[of w "?at (wb_in_flight s + 1) (Preparing job)" job new_v5 c entry] w prep job
    by (cases s) (simp add: write_step_def list_update_neq new_job_def)
  moreover have "write_step new_v5 c (?at (wb_in_flight s + 1) (Checking job entry)) (?at (wb_in_flight s + 1) (Putting job entry))"
    using wanted[of w "?at (wb_in_flight s + 1) (Checking job entry)" job entry new_v5 c] w assms(3)
    by (cases s) (simp add: write_step_def list_update_neq pending_ops ptr_eq_def)
  ultimately show ?thesis by (meson converse_rtranclp_into_rtranclp rtranclp.rtrancl_refl)
qed

lemma wb_finish:
  assumes "\<not> pw_poisoned (wb_pending s)"
    and w: "w < length (wb_workers s)" "wb_workers s ! w = Putting job entry"
    and put: "ob_put (cache_object c) (cache_namespace c) (ve_id entry) (arc_bytes (job_value job)) (snd (wb_store s)) = (Inr (), obs)"
    and ups: "vb_upsert (cache_vector c) (cache_namespace c) entry (fst (wb_store s)) = (Inr (), v)"
    and p: "pending_remove_if (job_id job) (job_value job) (wb_pending s) = (r, p)"
  shows "write_steps new_v5 c s (s\<lparr>wb_pending := p, wb_workers := (wb_workers s)[w := Waiting],
    wb_in_flight := wb_in_flight s - 1, wb_store := (v, obs)\<rparr>)"
proof -
  let ?at = "\<lambda>x st. s\<lparr>wb_workers := (wb_workers s)[w := x], wb_store := st\<rparr>"
  have "write_step new_v5 c s (?at (Upserting job entry) (fst (wb_store s), obs))"
    using put_object[of w s job entry c "Inr ()" obs new_v5] w put by (cases s) (simp add: write_step_def list_update_neq list_update_same_conv)
  moreover have "write_step new_v5 c (?at (Upserting job entry) (fst (wb_store s), obs)) (?at (Cleaning job) (v, obs))"
    using upsert_entry[of w "?at (Upserting job entry) (fst (wb_store s), obs)" job entry c "Inr ()" v new_v5] w ups
    by (cases s) (simp add: write_step_def list_update_neq list_update_same_conv)
  moreover have "write_step new_v5 c (?at (Cleaning job) (v, obs)) ((?at Leaving (v, obs))\<lparr>wb_pending := p\<rparr>)"
    using clean[of w "?at (Cleaning job) (v, obs)" job r p new_v5 c] w p by (cases s) (simp add: write_step_def list_update_neq list_update_same_conv)
  moreover have "write_step new_v5 c ((?at Leaving (v, obs))\<lparr>wb_pending := p\<rparr>)
      (s\<lparr>wb_pending := p, wb_workers := (wb_workers s)[w := Waiting], wb_in_flight := wb_in_flight s - 1,
        wb_store := (v, obs)\<rparr>)"
    using leave[of w "(?at Leaving (v, obs))\<lparr>wb_pending := p\<rparr>" new_v5 c] w by (cases s) (simp add: write_step_def list_update_neq list_update_same_conv)
  ultimately show ?thesis by (meson converse_rtranclp_into_rtranclp rtranclp.rtrancl_refl)
qed

section \<open>What the write-behind guarantees\<close>

lemma overtakenI:
  assumes ok: "wb_ok s" and d: "jobs_distinct s" and j: "j \<in> live s" and no: "pending_holds (job_id j) (job_value j) (wb_pending s) = Inr False"
    and com: "\<forall>w \<in> set (wb_workers s). committing w \<noteq> Some j"
  shows "overtaken s (arc_ptr (job_value j))"
proof -
  have "arc_ptr a \<noteq> arc_ptr (job_value j)" if "shadow s i = Some a" for i a
  proof
    assume "arc_ptr a = arc_ptr (job_value j)"
    then have eq: "ptr_eq a (job_value j)" by (simp add: ptr_eq_def)
    with ok j that have "job_id j = i" unfolding wb_ok_def by metis
    with no that eq ok show False by (auto simp: pending_ops shadow_def wb_ok_def)
  qed
  moreover have "arc_ptr (job_value k) \<noteq> arc_ptr (job_value j)"
    if "w \<in> set (wb_workers s)" "committing w = Some k" for w k
  proof
    assume eq: "arc_ptr (job_value k) = arc_ptr (job_value j)"
    have "worker_job w = Some k" using that(2) by (cases w) auto
    with that(1) have "k \<in> live s" by (auto simp: live_def worker_jobs_def)
    with d j eq have "k = j" unfolding jobs_distinct_def ptr_eq_def by metis
    with com that show False by blast
  qed
  moreover have "arc_ptr (job_value j) < wb_next_arc s" using ok j by (simp add: wb_ok_def)
  ultimately show ?thesis by (simp add: overtaken_def)
qed

text \<open>
  C12. The shadow only holds in-flight writes: if no preparation fails, then in every state the
  handlers, workers and deletes can reach, each recorded value belongs to a job that a handler, the
  queue or a worker still holds.
\<close>
theorem shadow_only_in_flight:
  assumes "prepares new_v5 c" and "wb_steps new_v5 c (wb_new store) s" and "shadow s i = Some a"
  shows "\<exists>j \<in> live s. job_id j = i \<and> job_value j = a"
proof -
  have "owned (wb_new store)" by (simp add: owned_def shadow_def wb_new_def pending_default_def)
  with wb_steps_owned[OF assms(2) wb_ok_new assms(1)] assms(3) show ?thesis by (simp add: owned_def)
qed

definition example_write_entry :: vector_entry where
  "example_write_entry = \<lparr>ve_id = entry_id_derive example_v5 (QueryText ''q'') [] None,
     ve_vector = \<lparr>emb_dim = Dim 1, emb_values = [f32_one]\<rparr>, ve_keys = [], ve_entities = [Entity ''acme''],
     ve_context = None\<rparr>"

definition example_job :: "nat \<Rightarrow> bytes \<Rightarrow> write_job" where
  "example_job n v = new_job example_v5 n (QueryText ''q'') [] None v"

definition example_started :: "(memory_store, disk) write_behind" where
  "example_started = (wb_new (memory_new, empty_disk))\<lparr>
     wb_pending := pending_default\<lparr>pw_entries := [job_id (example_job 0 [1]) \<mapsto> Arc 0 [1]]\<rparr>,
     wb_workers := [Putting (example_job 0 [1]) example_write_entry, Waiting], wb_in_flight := 1, wb_next_arc := 1\<rparr>"

lemma example_prepares: "prepares example_v5 example_cache"
  by (simp add: prepares_def cache_prepare_def extract_entities_def example_defs Let_def split: option.split)

lemma example_prepared: "cache_prepare example_v5 example_cache (QueryText ''q'') [] None = Inr example_write_entry"
  by (simp add: cache_prepare_def extract_entities_def example_defs Let_def example_write_entry_def)

lemma example_started_steps: "write_steps example_v5 example_cache (wb_new (memory_new, empty_disk)) example_started"
  using wb_start[of "wb_new (memory_new, empty_disk)" 0 "example_job 0 [1]" example_v5 "QueryText ''q''" "[]" None
      "[1]" example_cache example_write_entry] example_prepared
  by (simp add: example_started_def wb_new_def WRITE_WORKERS_def numeral_2_eq_2 pending_default_def shadow_def
      example_job_def new_job_def)

theorem shadow_only_in_flight_witness:
  "\<exists>j \<in> live example_started. job_id j = job_id (example_job 0 [1]) \<and> job_value j = Arc 0 [1]"
  by (rule shadow_only_in_flight[OF example_prepares write_steps_wb[OF example_started_steps]])
    (simp add: example_started_def shadow_def pending_default_def)

text \<open>
  C13. A write whose shadow was replaced by a newer set or dropped by a delete before its check is
  never committed: from then on no worker reaches the backend calls with it.
\<close>
theorem superseded_write_skips:
  assumes "wb_steps new_v5 c (wb_new store) s" and "j \<in> live s"
    and "pending_holds (job_id j) (job_value j) (wb_pending s) = Inr False"
    and "\<forall>w \<in> set (wb_workers s). committing w \<noteq> Some j"
    and "wb_steps new_v5 c s s'"
  shows "\<forall>w \<in> set (wb_workers s'). committing w \<noteq> Some j"
proof -
  have ok: "wb_ok s" "jobs_distinct s"
    using wb_steps_distinct[OF assms(1) wb_ok_new jobs_distinct_new] by blast+
  have "overtaken s' (arc_ptr (job_value j))"
    using wb_steps_overtaken[OF assms(5) ok(1) overtakenI[OF ok assms(2-4)]] by blast
  then show ?thesis by (auto simp: overtaken_def)
qed

definition example_superseded :: "(memory_store, disk) write_behind" where
  "example_superseded = (wb_new (memory_new, empty_disk))\<lparr>
     wb_pending := pending_default\<lparr>pw_entries := [job_id (example_job 1 [2]) \<mapsto> Arc 1 [2]]\<rparr>,
     wb_setters := [Pushing (example_job 0 [1]), Pushing (example_job 1 [2])], wb_next_arc := 2\<rparr>"

lemma example_job_simps [simp]:
  "job_id (example_job n v) = entry_id_derive example_v5 (QueryText ''q'') [] None"
  "job_value (example_job n v) = Arc n v"
  by (simp_all add: example_job_def new_job_def)

lemma example_superseded_steps:
  "wb_steps example_v5 example_cache (wb_new (memory_new, empty_disk)) example_superseded"
proof -
  let ?i = "job_id (example_job 0 [1])"
  let ?s0 = "wb_new (memory_new, empty_disk) :: (memory_store, disk) write_behind"
  let ?s1 = "?s0\<lparr>wb_pending := pending_default\<lparr>pw_entries := [?i \<mapsto> Arc 0 [1]]\<rparr>,
    wb_next_arc := 1, wb_setters := [Pushing (example_job 0 [1])]\<rparr>"
  have "wb_step example_v5 example_cache ?s0 ?s1"
    using record_shadow[of "example_job 0 [1]" example_v5 ?s0 "QueryText ''q''" "[]" None "[1]"
        "pending_default\<lparr>pw_entries := [?i \<mapsto> Arc 0 [1]]\<rparr>" example_cache]
    by (simp add: wb_new_def pending_ops pending_default_def example_job_def[symmetric])
  moreover have "wb_step example_v5 example_cache ?s1 example_superseded"
    using record_shadow[of "example_job 1 [2]" example_v5 ?s1 "QueryText ''q''" "[]" None "[2]"
        "pending_default\<lparr>pw_entries := [?i \<mapsto> Arc 1 [2]]\<rparr>" example_cache]
    by (simp add: wb_new_def pending_ops pending_default_def example_superseded_def example_job_def[symmetric] numeral_2_eq_2)
  ultimately show ?thesis by (meson converse_rtranclp_into_rtranclp rtranclp.rtrancl_refl)
qed

theorem superseded_write_skips_witness:
  "list_all (\<lambda>w. committing w \<noteq> Some (example_job 0 [1])) (wb_workers example_superseded)"
  unfolding list_all_iff
  by (rule superseded_write_skips[OF example_superseded_steps, of "example_job 0 [1]"])
    (simp_all add: example_superseded_def live_def setter_jobs_def pending_ops pending_default_def ptr_eq_def
      wb_new_def)

text \<open>
  C34. The queue never holds more than its capacity, the in-flight count is the number of workers
  inside their guard, and when the queue reports that it is drained no job is queued or under a
  guard.
\<close>
theorem write_queue_counts:
  assumes "wb_steps new_v5 c (wb_new store) s"
  shows "length (wb_queue s) \<le> WRITE_QUEUE_CAPACITY
    \<and> wb_in_flight s = length (filter guarded (wb_workers s))
    \<and> (is_drained s \<longrightarrow> wb_queue s = [] \<and> (\<forall>w \<in> set (wb_workers s). \<not> guarded w))"
  using wb_steps_counts[OF assms wb_counts_new] by (auto simp: wb_counts_def is_drained_def filter_empty_conv)

theorem write_queue_counts_witness:
  "wb_in_flight example_started = length (filter guarded (wb_workers example_started)) \<and> wb_in_flight example_started = 1"
  using write_queue_counts[OF write_steps_wb[OF example_started_steps]] by (simp add: example_started_def)

text \<open>
  The drained report can come too early: a worker that has received a job and has not yet
  entered its guard is counted nowhere, so the queue reports drained while an accepted write is still
  to be done.
\<close>
theorem drained_before_guard:
  "\<exists>s j. wb_steps new_v5 c (wb_new store) s \<and> is_drained s \<and> j \<in> live s \<and> wb_setters s = []
     \<and> job_value j = Arc 0 v \<and> shadow s (entry_id_derive new_v5 q keys context_opt) = Some (Arc 0 v)"
proof -
  let ?j = "new_job new_v5 0 q keys context_opt v"
  let ?s0 = "wb_new store"
  let ?p = "pending_default\<lparr>pw_entries := [job_id ?j \<mapsto> job_value ?j]\<rparr>"
  let ?s1 = "?s0\<lparr>wb_pending := ?p, wb_next_arc := 1, wb_setters := [Pushing ?j]\<rparr>"
  let ?s2 = "?s0\<lparr>wb_pending := ?p, wb_next_arc := 1, wb_queue := [?j]\<rparr>"
  let ?s3 = "?s0\<lparr>wb_pending := ?p, wb_next_arc := 1, wb_workers := [Received ?j, Waiting]\<rparr>"
  have "wb_step new_v5 c ?s0 ?s1"
    using record_shadow[OF refl, of new_v5 ?s0 q keys context_opt v ?p c]
    by (simp add: wb_new_def pending_ops pending_default_def)
  moreover have "wb_step new_v5 c ?s1 ?s2"
    using enqueue[of 0 ?s1 ?j "[?j]" new_v5 c]
    by (simp add: wb_new_def try_push_def WRITE_QUEUE_CAPACITY_def del_at_def)
  moreover have "wb_step new_v5 c ?s2 ?s3"
    using receive[of 0 ?s2 ?j "[]" new_v5 c] by (simp add: wb_new_def WRITE_WORKERS_def numeral_2_eq_2)
  ultimately have "wb_steps new_v5 c ?s0 ?s3" by (meson converse_rtranclp_into_rtranclp rtranclp.rtrancl_refl)
  then show ?thesis
    by (intro exI[of _ ?s3] exI[of _ ?j])
      (simp add: is_drained_def live_def worker_jobs_def wb_new_def shadow_def pending_default_def new_job_def)
qed

text \<open>
  A failed preparation leaks its shadow: when the entity or embedding backend fails for a
  query, the write behind can come to rest, drained and with no job left, with the value still in the
  shadow, where every later get of that query finds it although it was never stored.
\<close>
theorem failed_prepare_leaks_shadow:
  assumes fails: "cache_prepare new_v5 c q keys context_opt = Inl e"
  shows "\<exists>s. wb_steps new_v5 c (wb_new store) s \<and> is_drained s \<and> live s = {} \<and> wb_store s = store
    \<and> pending_get (entry_id_derive new_v5 q keys context_opt) (wb_pending s) = Inr (Some (Arc 0 v))"
proof -
  let ?j = "new_job new_v5 0 q keys context_opt v"
  let ?s0 = "wb_new store"
  let ?p = "pending_default\<lparr>pw_entries := [job_id ?j \<mapsto> job_value ?j]\<rparr>"
  let ?s1 = "?s0\<lparr>wb_pending := ?p, wb_next_arc := 1, wb_setters := [Pushing ?j]\<rparr>"
  let ?s2 = "?s0\<lparr>wb_pending := ?p, wb_next_arc := 1, wb_queue := [?j]\<rparr>"
  let ?at = "\<lambda>x n. ?s0\<lparr>wb_pending := ?p, wb_next_arc := 1, wb_workers := [x, Waiting], wb_in_flight := n\<rparr>"
  note w2 = WRITE_WORKERS_def numeral_2_eq_2 wb_new_def
  have "wb_step new_v5 c ?s0 ?s1"
    using record_shadow[OF refl, of new_v5 ?s0 q keys context_opt v ?p c]
    by (simp add: wb_new_def pending_ops pending_default_def)
  moreover have "wb_step new_v5 c ?s1 ?s2"
    using enqueue[of 0 ?s1 ?j "[?j]" new_v5 c]
    by (simp add: wb_new_def try_push_def WRITE_QUEUE_CAPACITY_def del_at_def)
  moreover have "wb_step new_v5 c ?s2 (?at (Received ?j) 0)"
    using receive[of 0 ?s2 ?j "[]" new_v5 c] by (simp add: w2)
  moreover have "wb_step new_v5 c (?at (Received ?j) 0) (?at (Preparing ?j) 1)"
    using enter[of 0 "?at (Received ?j) 0" ?j new_v5 c] by (simp add: w2)
  moreover have "wb_step new_v5 c (?at (Preparing ?j) 1) (?at Leaving 1)"
    using prepare_failed[of 0 "?at (Preparing ?j) 1" ?j new_v5 c e] fails by (simp add: w2 new_job_def)
  moreover have "wb_step new_v5 c (?at Leaving 1) (?at Waiting 0)"
    using leave[of 0 "?at Leaving 1" new_v5 c] by (simp add: w2)
  ultimately have "wb_steps new_v5 c ?s0 (?at Waiting 0)"
    by (meson converse_rtranclp_into_rtranclp rtranclp.rtrancl_refl)
  then show ?thesis
    by (intro exI[of _ "?at Waiting 0"])
      (simp add: is_drained_def live_def worker_jobs_def setter_jobs_def wb_new_def pending_ops pending_default_def
        new_job_def)
qed

definition example_down :: "(memory_store, disk) cache" where
  "example_down = example_cache\<lparr>cache_embedding := \<lparr>eb_dim = Dim 1, eb_embed_query = (\<lambda>_. Inl (EmbeddingFailed ''down''))\<rparr>\<rparr>"

lemma example_down_fails: "cache_prepare example_v5 example_down (QueryText ''q'') [] None = Inl (EmbeddingFailed ''down'')"
  by (simp add: example_down_def cache_prepare_def extract_entities_def example_defs Let_def)

theorem failed_prepare_leaks_shadow_witness:
  "\<exists>s. wb_steps example_v5 example_down (wb_new (memory_new, empty_disk)) s \<and> is_drained s \<and> live s = {}
    \<and> wb_store s = (memory_new, empty_disk)
    \<and> pending_get (entry_id_derive example_v5 (QueryText ''q'') [] None) (wb_pending s) = Inr (Some (Arc 0 [1]))"
  by (rule failed_prepare_leaks_shadow[OF example_down_fails])

definition example_put :: "bytes \<Rightarrow> memory_store \<times> disk \<Rightarrow> memory_store \<times> disk" where
  "example_put v st = (snd (vb_upsert (cache_vector example_cache) (cache_namespace example_cache) example_write_entry (fst st)),
     snd (ob_put (cache_object example_cache) (cache_namespace example_cache) (ve_id example_write_entry) v (snd st)))"

lemmas example_eval = example_put_def example_write_entry_def example_defs compressed_put_def compressed_get_def
  compress_def decompress_def example_zstd_def disk_put_def disk_get_def fs_read_def Let_def try_state_def lift_fs_def
  create_dir_all_def fs_write_def fs_rename_def empty_disk_def memory_upsert_def memory_new_def

lemma example_backends_succeed:
  "ob_put (cache_object example_cache) (cache_namespace example_cache) (ve_id example_write_entry) [2] empty_disk
     = (Inr (), snd (example_put [2] (memory_new, empty_disk)))"
  "ob_put (cache_object example_cache) (cache_namespace example_cache) (ve_id example_write_entry) [1]
       (snd (example_put [2] (memory_new, empty_disk)))
     = (Inr (), snd (example_put [1] (example_put [2] (memory_new, empty_disk))))"
  "vb_upsert (cache_vector example_cache) (cache_namespace example_cache) example_write_entry memory_new
     = (Inr (), fst (example_put [2] (memory_new, empty_disk)))"
  "vb_upsert (cache_vector example_cache) (cache_namespace example_cache) example_write_entry
       (fst (example_put [2] (memory_new, empty_disk)))
     = (Inr (), fst (example_put [1] (example_put [2] (memory_new, empty_disk))))"
  by (simp_all add: example_eval)

lemma example_overwritten:
  "fst (cache_get example_cache (QueryText ''q'') [] None (example_put [1] (example_put [2] (memory_new, empty_disk))))
     = Inr (Some [1])"
  by (simp add: example_eval extract_entities_def cache_get_def find_match_def memory_query_def hm_values_def hm_iter_def hm_insert_def
      embedding_dot_def sort_by_dense_def memory_hit_def select_def accept_def scoring_default_def
      DEFAULT_TOP_K_def btree_intersection_def example_hit_score)

text \<open>The first of two workers has passed its check before the second set is recorded and accepted; then the second
  worker commits, and the first goes on.\<close>

definition example_accepted :: "(memory_store, disk) write_behind" where
  "example_accepted = example_started\<lparr>wb_pending := pending_default\<lparr>pw_entries := [job_id (example_job 0 []) \<mapsto> Arc 1 [2]]\<rparr>,
     wb_queue := [example_job 1 [2]], wb_next_arc := 2\<rparr>"

definition example_both :: "(memory_store, disk) write_behind" where
  "example_both = example_started\<lparr>wb_pending := pending_default\<lparr>pw_entries := [job_id (example_job 0 []) \<mapsto> Arc 1 [2]]\<rparr>,
     wb_workers := [Putting (example_job 0 [1]) example_write_entry, Putting (example_job 1 [2]) example_write_entry],
     wb_in_flight := 2, wb_next_arc := 2\<rparr>"

definition example_second_done :: "(memory_store, disk) write_behind" where
  "example_second_done = example_both\<lparr>wb_pending := pending_default,
     wb_workers := [Putting (example_job 0 [1]) example_write_entry, Waiting], wb_in_flight := 1,
     wb_store := example_put [2] (memory_new, empty_disk)\<rparr>"

lemmas example_states = example_started_def example_accepted_def example_both_def example_second_done_def wb_new_def pending_default_def

lemma example_accepted_steps: "write_steps example_v5 example_cache example_started example_accepted"
proof -
  let ?p = "pending_default\<lparr>pw_entries := [job_id (example_job 0 []) \<mapsto> Arc 1 [2]]\<rparr>"
  let ?s1 = "example_started\<lparr>wb_pending := ?p, wb_next_arc := 2, wb_setters := [Pushing (example_job 1 [2])]\<rparr>"
  have "write_step example_v5 example_cache example_started ?s1"
    using record_shadow[of "example_job 1 [2]" example_v5 example_started "QueryText ''q''" "[]" None "[2]" ?p example_cache]
    by (simp add: write_step_def example_states pending_ops example_job_def[symmetric] numeral_2_eq_2)
  moreover have "write_step example_v5 example_cache ?s1 example_accepted"
    using enqueue[of 0 ?s1 "example_job 1 [2]" "[example_job 1 [2]]" example_v5 example_cache]
    by (simp add: write_step_def example_states try_push_def WRITE_QUEUE_CAPACITY_def del_at_def)
  ultimately show ?thesis by (meson converse_rtranclp_into_rtranclp rtranclp.rtrancl_refl)
qed

lemma example_both_steps: "write_steps example_v5 example_cache example_accepted example_both"
proof -
  let ?j = "example_job 1 [2]" and ?w0 = "Putting (example_job 0 [1]) example_write_entry"
  let ?at = "\<lambda>x n. example_accepted\<lparr>wb_queue := [], wb_workers := [?w0, x], wb_in_flight := n\<rparr>"
  have job: "job_query (example_job n v) = QueryText ''q''" "job_keys (example_job n v) = []" "job_context (example_job n v) = None" for n v
    by (simp_all add: example_job_def new_job_def)
  have "write_step example_v5 example_cache example_accepted (?at (Received ?j) 1)"
    using receive[of 1 example_accepted ?j "[]" example_v5 example_cache] by (simp add: write_step_def example_states)
  moreover have "write_step example_v5 example_cache (?at (Received ?j) 1) (?at (Preparing ?j) 2)"
    using enter[of 1 "?at (Received ?j) 1" ?j example_v5 example_cache] by (simp add: write_step_def example_states numeral_2_eq_2)
  moreover have "write_step example_v5 example_cache (?at (Preparing ?j) 2) (?at (Checking ?j example_write_entry) 2)"
    using prepared[of 1 "?at (Preparing ?j) 2" ?j example_v5 example_cache example_write_entry] example_prepared
    by (simp add: write_step_def example_states job)
  moreover have "write_step example_v5 example_cache (?at (Checking ?j example_write_entry) 2) example_both"
    using wanted[of 1 "?at (Checking ?j example_write_entry) 2" ?j example_write_entry example_v5 example_cache]
    by (simp add: write_step_def example_states pending_ops ptr_eq_def)
  ultimately show ?thesis by (meson converse_rtranclp_into_rtranclp rtranclp.rtrancl_refl)
qed

lemma example_second_done_steps: "write_steps example_v5 example_cache example_both example_second_done"
  using wb_finish[of example_both 1 "example_job 1 [2]" example_write_entry example_cache
      "snd (example_put [2] (memory_new, empty_disk))" "fst (example_put [2] (memory_new, empty_disk))" "Inr True" pending_default example_v5]
  by (simp add: example_states pending_ops ptr_eq_def example_backends_succeed numeral_2_eq_2)

lemma example_lost_update_steps:
  "\<exists>s. write_steps example_v5 example_cache example_second_done s \<and> is_drained s \<and> live s = {} \<and> shadow s = Map.empty
     \<and> wb_next_arc s = 2 \<and> wb_store s = example_put [1] (example_put [2] (memory_new, empty_disk))"
proof -
  let ?st = "example_put [2] (memory_new, empty_disk)"
  let ?s3 = "example_second_done\<lparr>wb_workers := [Waiting, Waiting], wb_in_flight := 0, wb_store := example_put [1] ?st\<rparr>"
  have "write_steps example_v5 example_cache example_second_done ?s3"
    using wb_finish[of example_second_done 0 "example_job 0 [1]" example_write_entry example_cache "snd (example_put [1] ?st)"
        "fst (example_put [1] ?st)" "Inr False" pending_default example_v5]
    by (simp add: example_states pending_ops example_backends_succeed)
  then show ?thesis
    by (intro exI[of _ ?s3]) (simp add: is_drained_def live_def shadow_def example_states setter_jobs_def worker_jobs_def)
qed

text \<open>
  C36. Updates can be lost: two sets of the same query are accepted, first \<open>[1]\<close> and then \<open>[2]\<close>, and there
  is no other set, no delete and no failing call: only set handlers and workers take steps, and two values
  are recorded in all. The worker of the first passes its check before the second is recorded and runs its backend
  calls after those of the second. The write behind comes to rest with nothing in the shadow, and the
  cache answers \<open>[1]\<close>.
\<close>
theorem older_set_can_win:
  "\<exists>s1 s2 s3. write_steps example_v5 example_cache (wb_new (memory_new, empty_disk)) s1
    \<and> wb_next_arc s1 = 1 \<and> wb_setters s1 = [] \<and> shadow s1 = [job_id (example_job 0 [1]) \<mapsto> Arc 0 [1]]
    \<and> write_steps example_v5 example_cache s1 s2
    \<and> wb_next_arc s2 = 2 \<and> wb_setters s2 = [] \<and> wb_queue s2 = [example_job 1 [2]]
    \<and> shadow s2 = [job_id (example_job 0 [1]) \<mapsto> Arc 1 [2]]
    \<and> write_steps example_v5 example_cache s2 s3
    \<and> wb_next_arc s3 = 2 \<and> is_drained s3 \<and> live s3 = {} \<and> shadow s3 = Map.empty
    \<and> fst (cache_get example_cache (QueryText ''q'') [] None (wb_store s3)) = Inr (Some [1])"
proof -
  have "wb_next_arc example_started = 1" "wb_setters example_started = []"
    "shadow example_started = [job_id (example_job 0 [1]) \<mapsto> Arc 0 [1]]"
    "wb_next_arc example_accepted = 2" "wb_setters example_accepted = []" "wb_queue example_accepted = [example_job 1 [2]]"
    "shadow example_accepted = [job_id (example_job 0 [1]) \<mapsto> Arc 1 [2]]"
    by (simp_all add: example_states shadow_def)
  moreover obtain s3 where "write_steps example_v5 example_cache example_accepted s3" "wb_next_arc s3 = 2" "is_drained s3" "live s3 = {}"
    "shadow s3 = Map.empty" "wb_store s3 = example_put [1] (example_put [2] (memory_new, empty_disk))"
    using example_lost_update_steps rtranclp_trans[OF rtranclp_trans[OF example_both_steps example_second_done_steps]] by blast
  ultimately show ?thesis using example_started_steps example_accepted_steps example_overwritten by metis
qed

definition example_raced :: "memory_store \<times> disk" where
  "example_raced =
     (let st = example_put [2] (memory_new, empty_disk);
          deleted = snd (cache_delete example_cache (QueryText ''q'') [] None (fst st, snd (example_put [1] st)))
      in (fst (example_put [1] deleted), snd deleted))"

lemma example_raced_facts:
  "memory_entries (fst example_raced) (Namespace ''prod'') (ve_id example_write_entry) = Some example_write_entry"
  "decoded example_zstd (disk_objects ''/var'') (snd example_raced) (Namespace ''prod'', ve_id example_write_entry) = None"
  "fst (cache_get example_cache (QueryText ''q'') [] None example_raced) = Inr None"
  by (simp_all add: example_raced_def example_eval extract_entities_def cache_get_def cache_delete_def find_match_def memory_query_def hm_values_def
      hm_iter_def hm_get_def hm_insert_def hm_remove_def embedding_dot_def sort_by_dense_def memory_hit_def select_def accept_def scoring_default_def
      DEFAULT_TOP_K_def btree_intersection_def example_hit_score memory_delete_def compressed_delete_def disk_delete_def fs_remove_file_def
      memory_entries_def decoded_def disk_objects_def)

lemma example_race_steps:
  "\<exists>s. wb_steps example_v5 example_cache example_second_done s \<and> is_drained s \<and> live s = {} \<and> shadow s = Map.empty
     \<and> wb_store s = example_raced"
proof -
  let ?st = "example_put [2] (memory_new, empty_disk)" and ?job = "example_job 0 [1]" and ?e = example_write_entry
  let ?put = "snd (example_put [1] ?st)"
  let ?del = "snd (cache_delete example_cache (QueryText ''q'') [] None (fst ?st, ?put))"
  let ?ups = "vb_upsert (cache_vector example_cache) (cache_namespace example_cache) ?e (fst ?del)"
  have raced: "example_raced = (snd ?ups, snd ?del)" by (simp add: example_raced_def example_put_def Let_def)
  let ?at = "\<lambda>w n store. example_second_done\<lparr>wb_workers := [w, Waiting], wb_in_flight := n, wb_store := store\<rparr>"
  have "wb_step example_v5 example_cache example_second_done (?at (Upserting ?job ?e) 1 (fst ?st, ?put))"
    using put_object[of 0 example_second_done ?job ?e example_cache "Inr ()" ?put example_v5]
    by (simp add: example_states example_backends_succeed)
  moreover have "wb_steps example_v5 example_cache (?at (Upserting ?job ?e) 1 (fst ?st, ?put)) (?at (Upserting ?job ?e) 1 ?del)"
    using cache_delete_run[of example_cache "QueryText ''q''" "[]" None "?at (Upserting ?job ?e) 1 (fst ?st, ?put)" _ ?del example_v5]
    by (simp add: prod_eq_iff)
  moreover have "wb_step example_v5 example_cache (?at (Upserting ?job ?e) 1 ?del) (?at (Cleaning ?job) 1 example_raced)"
    using upsert_entry[of 0 "?at (Upserting ?job ?e) 1 ?del" ?job ?e example_cache "fst ?ups" "snd ?ups" example_v5]
    by (simp add: raced example_states)
  moreover have "wb_step example_v5 example_cache (?at (Cleaning ?job) 1 example_raced) (?at Leaving 1 example_raced)"
    using clean[of 0 "?at (Cleaning ?job) 1 example_raced" ?job "Inr False" pending_default example_v5 example_cache]
    by (simp add: example_states pending_ops)
  moreover have "wb_step example_v5 example_cache (?at Leaving 1 example_raced) (?at Waiting 0 example_raced)"
    using leave[of 0 "?at Leaving 1 example_raced" example_v5 example_cache] by (simp add: example_states)
  ultimately have "wb_steps example_v5 example_cache example_second_done (?at Waiting 0 example_raced)"
    by (meson converse_rtranclp_into_rtranclp rtranclp_trans r_into_rtranclp)
  then show ?thesis
    by (intro exI[of _ "?at Waiting 0 example_raced"]) (simp add: is_drained_def live_def shadow_def example_states setter_jobs_def worker_jobs_def)
qed


end
