(* ===== verification/Turbopuffer.thy ===== *)
theory Turbopuffer
  imports Model_Backends
begin

text \<open>
  \<^verbatim>\<open>src/backends/vector_turbopuffer.rs\<close>: the vector store over turbopuffer's HTTP service. The
  requests are JSON values; the HTTP client, the JSON decoder of answers and the printed form of a status
  are parameters. The filter sent to the service is shown to mean what the cache asks for, under the
  documented meaning of turbopuffer's filter operators (\<open>tp_holds\<close>), and the fusion of the two
  result lists is characterised.
\<close>

section \<open>Requests\<close>

datatype json =
    JNull
  | JBool bool
  | JNat nat
  | JFloat f32
  | JStr string
  | JArr "json list"
  | JObj "(string \<times> json) list"

definition tp_default_base_url :: string where "tp_default_base_url = ''https://api.turbopuffer.com''"
definition DEFAULT_NAMESPACE_PREFIX :: string where "DEFAULT_NAMESPACE_PREFIX = ''semisweet-''"
definition DISTANCE_METRIC :: string where "DISTANCE_METRIC = ''cosine_distance''"
definition BM25_SATURATION :: f32 where "BM25_SATURATION = F32 0x40A00000"

record query_row =
  qr_id :: string
  qr_dist :: f32
  qr_entities :: "string list"
  qr_context :: "string option"

text \<open>A \<open>MultiQueryResponse\<close> is the list of its results, each a list of rows.\<close>

type_synonym multi_query_response = "query_row list list"

record tp_store =
  tp_api_key :: string
  tp_base_url :: string
  tp_namespace_prefix :: string
  tp_dims :: "namespace \<rightharpoonup> dim"

record 'w tp_http =
  tp_post :: "string \<Rightarrow> string \<Rightarrow> json \<Rightarrow> 'w \<Rightarrow> (string + nat \<times> (string + string)) \<times> 'w"
  tp_parse :: "string \<Rightarrow> string + multi_query_response"
  tp_status_text :: "nat \<Rightarrow> string"
  tp_lower :: "string \<Rightarrow> string"

definition tp_from_parts :: "(string + unit) \<Rightarrow> string \<Rightarrow> string \<Rightarrow> string \<Rightarrow> tp_store res" where
  "tp_from_parts client api_key base_url namespace_prefix =
     try_bind (map_err VectorStorage client) (\<lambda>_.
       Inr \<lparr>tp_api_key = api_key, tp_base_url = base_url, tp_namespace_prefix = namespace_prefix,
            tp_dims = Map.empty\<rparr>)"

definition tp_new :: "(string + unit) \<Rightarrow> env \<Rightarrow> tp_store res" where
  "tp_new client env =
     try_bind (ok_or (MissingEnv ''TURBOPUFFER_API_KEY'') (env ''TURBOPUFFER_API_KEY'')) (\<lambda>api_key.
       let base_url = (case env ''TURBOPUFFER_API_BASE'' of Some u \<Rightarrow> u | None \<Rightarrow> tp_default_base_url)
       in tp_from_parts client api_key base_url DEFAULT_NAMESPACE_PREFIX)"

definition physical_namespace :: "tp_store \<Rightarrow> namespace \<Rightarrow> string" where
  "physical_namespace s ns = tp_namespace_prefix s @ namespace_str ns"

definition cached_dim :: "tp_store \<Rightarrow> namespace \<Rightarrow> dim option" where
  "cached_dim s ns = tp_dims s ns"

definition cache_dim :: "namespace \<Rightarrow> dim \<Rightarrow> tp_store \<Rightarrow> tp_store" where
  "cache_dim ns d s = s\<lparr>tp_dims := (tp_dims s)(ns \<mapsto> d)\<rparr>"

definition tp_execute :: "'w tp_http \<Rightarrow> tp_store \<Rightarrow> string \<Rightarrow> json \<Rightarrow> 'w \<Rightarrow> (nat \<times> string) res \<times> 'w" where
  "tp_execute http s url body w =
     (case tp_post http url (tp_api_key s) body w of
        (Inl e, w') \<Rightarrow> (Inl (VectorStorage e), w')
      | (Inr (status, text), w') \<Rightarrow>
          (try_bind (map_err VectorStorage text) (\<lambda>t. Inr (status, t)), w'))"

definition is_success :: "nat \<Rightarrow> bool" where
  "is_success status \<longleftrightarrow> 200 \<le> status \<and> status < 300"

definition is_client_error :: "nat \<Rightarrow> bool" where
  "is_client_error status \<longleftrightarrow> 400 \<le> status \<and> status < 500"

definition is_dimension_error :: "(string \<Rightarrow> string) \<Rightarrow> string \<Rightarrow> bool" where
  "is_dimension_error lower text =
     (let l = lower text in
      str_contains l ''dimension'' \<or> (str_contains l ''schema'' \<and> str_contains l ''vector''))"

section \<open>Filters\<close>

definition keys_clause :: "key btree_set \<Rightarrow> json" where
  "keys_clause ks =
     JArr [JStr ''And'', JArr (map (\<lambda>k. JArr [JStr ''keys'', JStr ''Contains'', JStr (key_str k)]) ks)]"

definition entities_clause :: "entity btree_set \<Rightarrow> json" where
  "entities_clause es =
     JArr [JStr ''Or'', JArr (map (\<lambda>e. JArr [JStr ''entities'', JStr ''Contains'', JStr (entity_str e)]) es)]"

definition filter_to_tp :: "filter_spec \<Rightarrow> json option" where
  "filter_to_tp f =
     (let clauses = (if keys_all f \<noteq> [] then [keys_clause (keys_all f)] else [])
                  @ (if entities_any f \<noteq> [] then [entities_clause (entities_any f)] else [])
      in case clauses of
           [] \<Rightarrow> None
         | [clause] \<Rightarrow> Some clause
         | _ \<Rightarrow> Some (JArr [JStr ''And'', JArr clauses]))"

section \<open>Answers\<close>

definition squash_bm25 :: "f32 \<Rightarrow> f32" where
  "squash_bm25 score = f32_div score (f32_add score BM25_SATURATION)"

record parsed_row =
  pr_id :: entry_id
  pr_entities :: "entity btree_set"
  pr_context :: "ctx option"

definition parse_row :: "(string \<Rightarrow> string) \<Rightarrow> query_row \<Rightarrow> parsed_row res" where
  "parse_row lower row =
     try_bind (ok_or (VectorStorage (''turbopuffer returned an unparseable id `'' @ qr_id row @ ''`''))
         (entry_id_from_hex (qr_id row))) (\<lambda>i.
       let entities = btree_collect (List.map_filter (entity_normalize lower) (qr_entities row)) in
       try_bind (case qr_context row of
                   Some v \<Rightarrow> try_bind (ctx_new v) (\<lambda>c. Inr (Some c))
                 | None \<Rightarrow> Inr None) (\<lambda>context_opt.
         Inr \<lparr>pr_id = i, pr_entities = entities, pr_context = context_opt\<rparr>))"

type_synonym fusion = "(entry_id \<rightharpoonup> scored_hit) \<times> entry_id list"

definition fuse_ann :: "(string \<Rightarrow> string) \<Rightarrow> query_row \<Rightarrow> fusion \<Rightarrow> fusion res" where
  "fuse_ann lower row acc =
     try_bind (parse_row lower row) (\<lambda>parsed.
       let (hits, order) = acc; i = pr_id parsed in
       Inr (hits(i \<mapsto> \<lparr>hit_id = i, dense_score = f32_sub f32_one (qr_dist row), sparse_score = f32_zero,
                      hit_entities = pr_entities parsed, hit_context = pr_context parsed\<rparr>),
            if hits i = None then order @ [i] else order))"

definition fuse_bm25 :: "(string \<Rightarrow> string) \<Rightarrow> query_row \<Rightarrow> fusion \<Rightarrow> fusion res" where
  "fuse_bm25 lower row acc =
     try_bind (parse_row lower row) (\<lambda>parsed.
       let (hits, order) = acc; i = pr_id parsed in
       case hits i of
         Some hit \<Rightarrow> Inr (hits(i \<mapsto> hit\<lparr>sparse_score := squash_bm25 (qr_dist row)\<rparr>), order)
       | None \<Rightarrow>
           Inr (hits(i \<mapsto> \<lparr>hit_id = i, dense_score = f32_zero, sparse_score = squash_bm25 (qr_dist row),
                          hit_entities = pr_entities parsed, hit_context = pr_context parsed\<rparr>),
                order @ [i]))"

text \<open>\<open>order.into_iter().filter_map(|id| hits.remove(&id))\<close>\<close>

fun drain_hits :: "entry_id list \<Rightarrow> (entry_id \<rightharpoonup> scored_hit) \<Rightarrow> scored_hit list" where
  "drain_hits [] hits = []"
| "drain_hits (i # order) hits =
     (case hits i of
        Some hit \<Rightarrow> hit # drain_hits order (hits(i := None))
      | None \<Rightarrow> drain_hits order hits)"

definition fuse_multi_query :: "(string \<Rightarrow> string) \<Rightarrow> multi_query_response \<Rightarrow> scored_hit list res" where
  "fuse_multi_query lower legs =
     (let ann_rows = (case legs of leg # _ \<Rightarrow> leg | [] \<Rightarrow> []);
          bm25_rows = (case legs of _ # leg # _ \<Rightarrow> leg | _ \<Rightarrow> [])
      in try_bind (try_fold (fuse_ann lower) ann_rows (Map.empty, [])) (\<lambda>acc.
         try_bind (try_fold (fuse_bm25 lower) bm25_rows acc) (\<lambda>(hits, order).
           Inr (drain_hits order hits))))"

section \<open>Operations\<close>

definition upsert_body :: "vector_entry \<Rightarrow> json" where
  "upsert_body entry =
     (let row = [(''id'', JStr (entry_id_to_string (ve_id entry))),
                 (''vector'', JArr (map JFloat (emb_values (ve_vector entry)))),
                 (''entities'', JArr (map (\<lambda>e. JStr (entity_str e)) (ve_entities entry))),
                 (''keys'', JArr (map (\<lambda>k. JStr (key_str k)) (ve_keys entry)))]
                @ (case ve_context entry of Some c \<Rightarrow> [(''context'', JStr (ctx_str c))] | None \<Rightarrow> [])
      in JObj [(''upsert_rows'', JArr [JObj row]),
               (''distance_metric'', JStr DISTANCE_METRIC),
               (''schema'', JObj
                 [(''vector'', JObj [(''type'', JStr (''['' @ show_nat (dim_get (emb_dim (ve_vector entry))) @ '']f32'')),
                                     (''ann'', JBool True)]),
                  (''entities'', JObj [(''type'', JStr ''[]string''), (''filterable'', JBool True)]),
                  (''keys'', JObj [(''type'', JStr ''[]string''), (''filterable'', JBool True)]),
                  (''context'', JObj [(''type'', JStr ''string''), (''full_text_search'', JBool True)])])])"

definition tp_url :: "tp_store \<Rightarrow> namespace \<Rightarrow> string" where
  "tp_url s ns = tp_base_url s @ ''/v2/namespaces/'' @ physical_namespace s ns"

definition tp_upsert ::
  "'w tp_http \<Rightarrow> namespace \<Rightarrow> vector_entry \<Rightarrow> tp_store \<times> 'w \<Rightarrow> unit res \<times> (tp_store \<times> 'w)" where
  "tp_upsert http ns entry sw =
     (let (s, w) = sw; dim = emb_dim (ve_vector entry); cached = cached_dim s ns in
      if cached \<noteq> None \<and> cached \<noteq> Some dim
      then (Inl (DimMismatch (dim_get dim) (dim_get (the cached))), sw)
      else
        case tp_execute http s (tp_url s ns) (upsert_body entry) w of
          (Inl e, w') \<Rightarrow> (Inl e, (s, w'))
        | (Inr (status, text), w') \<Rightarrow>
            if is_success status then (Inr (), (cache_dim ns dim s, w'))
            else if is_client_error status \<and> is_dimension_error (tp_lower http) text then
              (Inl (case cached of
                      Some want \<Rightarrow> DimMismatch (dim_get dim) (dim_get want)
                    | None \<Rightarrow> VectorStorage (''turbopuffer rejected upsert dimension '' @ show_nat (dim_get dim)
                        @ '' for namespace `'' @ physical_namespace s ns
                        @ ''`; expected remote dimension unknown: '' @ text)), (s, w'))
            else (Inl (VectorStorage (''turbopuffer upsert failed ('' @ tp_status_text http status @ ''): '' @ text)), (s, w')))"

definition query_body :: "embedding \<Rightarrow> ctx option \<Rightarrow> filter_spec \<Rightarrow> nat \<Rightarrow> json" where
  "query_body vec query_context f k =
     (let attributes = JArr [JStr ''entities'', JStr ''keys'', JStr ''context''];
          filters = (case filter_to_tp f of Some j \<Rightarrow> [(''filters'', j)] | None \<Rightarrow> []);
          ann = JObj ([(''rank_by'', JArr [JStr ''vector'', JStr ''ANN'', JArr (map JFloat (emb_values vec))]),
                       (''top_k'', JNat k), (''distance_metric'', JStr DISTANCE_METRIC),
                       (''include_attributes'', attributes)] @ filters);
          bm25 = (case query_context of
                    Some c \<Rightarrow> [JObj ([(''rank_by'', JArr [JStr ''context'', JStr ''BM25'', JStr (ctx_str c)]),
                                      (''top_k'', JNat k), (''include_attributes'', attributes)] @ filters)]
                  | None \<Rightarrow> [])
      in JObj [(''queries'', JArr (ann # bm25))])"

definition tp_query ::
  "'w tp_http \<Rightarrow> namespace \<Rightarrow> embedding \<Rightarrow> ctx option \<Rightarrow> filter_spec \<Rightarrow> nat \<Rightarrow> tp_store \<times> 'w
   \<Rightarrow> scored_hit list res \<times> (tp_store \<times> 'w)" where
  "tp_query http ns vec query_context f k sw =
     (let (s, w) = sw in
      case tp_execute http s (tp_url s ns @ ''/query'') (query_body vec query_context f k) w of
        (Inl e, w') \<Rightarrow> (Inl e, (s, w'))
      | (Inr (status, text), w') \<Rightarrow>
          (if status = 404 then Inr []
           else if \<not> is_success status then
             (if is_client_error status \<and> is_dimension_error (tp_lower http) text then
                Inl (case cached_dim s ns of
                       Some want \<Rightarrow> DimMismatch (dim_get (emb_dim vec)) (dim_get want)
                     | None \<Rightarrow> VectorStorage (''turbopuffer rejected query dimension ''
                         @ show_nat (dim_get (emb_dim vec)) @ ''; expected remote dimension unknown: '' @ text))
              else Inl (VectorStorage (''turbopuffer query failed ('' @ tp_status_text http status @ ''): '' @ text)))
           else try_bind (map_err VectorStorage (tp_parse http text)) (fuse_multi_query (tp_lower http)),
           (s, w')))"

definition tp_delete ::
  "'w tp_http \<Rightarrow> namespace \<Rightarrow> entry_id \<Rightarrow> tp_store \<times> 'w \<Rightarrow> unit res \<times> (tp_store \<times> 'w)" where
  "tp_delete http ns i sw =
     (let (s, w) = sw in
      case tp_execute http s (tp_url s ns) (JObj [(''deletes'', JArr [JStr (entry_id_to_string i)])]) w of
        (Inl e, w') \<Rightarrow> (Inl e, (s, w'))
      | (Inr (status, text), w') \<Rightarrow>
          (if is_success status then Inr ()
           else Inl (VectorStorage (''turbopuffer delete failed ('' @ tp_status_text http status @ ''): '' @ text)),
           (s, w')))"

definition tp_backend :: "'w tp_http \<Rightarrow> (tp_store \<times> 'w) vector_backend" where
  "tp_backend http = \<lparr>vb_upsert = tp_upsert http, vb_query = tp_query http, vb_delete = tp_delete http\<rparr>"

section \<open>What the filter means\<close>

text \<open>Turbopuffer's documented operators: \<open>And\<close> and \<open>Or\<close> of a list of conditions, and
  \<open>Contains\<close> of a string in an array attribute.\<close>

fun tp_holds :: "vector_entry \<Rightarrow> json \<Rightarrow> bool" where
  "tp_holds e (JArr [JStr opr, JArr conds]) =
     (if opr = ''And'' then list_all (tp_holds e) conds
      else opr = ''Or'' \<and> list_ex (tp_holds e) conds)"
| "tp_holds e (JArr [JStr attr, JStr opr, JStr v]) =
     (opr = ''Contains'' \<and>
        (if attr = ''keys'' then Key v \<in> set (ve_keys e)
         else attr = ''entities'' \<and> Entity v \<in> set (ve_entities e)))"
| "tp_holds e _ = False"

lemma tp_holds_keys: "tp_holds e (keys_clause ks) \<longleftrightarrow> set ks \<subseteq> set (ve_keys e)"
  by (auto simp: keys_clause_def list_all_iff)

lemma tp_holds_entities: "tp_holds e (entities_clause es) \<longleftrightarrow> set es \<inter> set (ve_entities e) \<noteq> {}"
  by (auto simp: entities_clause_def list_ex_iff)

section \<open>What the fusion returns\<close>

definition fusion_ok :: "fusion \<Rightarrow> bool" where
  "fusion_ok acc \<longleftrightarrow> distinct (snd acc) \<and> set (snd acc) = dom (fst acc)
     \<and> (\<forall>i h. fst acc i = Some h \<longrightarrow> hit_id h = i)"

lemma fuse_ann_ok: "fusion_ok acc \<Longrightarrow> fuse_ann lower row acc = Inr acc' \<Longrightarrow> fusion_ok acc'"
  by (cases acc) (auto simp: fuse_ann_def fusion_ok_def result_simps Let_def split: if_splits)

lemma fuse_bm25_ok: "fusion_ok acc \<Longrightarrow> fuse_bm25 lower row acc = Inr acc' \<Longrightarrow> fusion_ok acc'"
  by (cases acc) (auto simp: fuse_bm25_def fusion_ok_def result_simps Let_def split: if_splits option.splits)

lemma drain_hits_eq:
  "distinct order \<Longrightarrow> set order \<subseteq> dom hits \<Longrightarrow> drain_hits order hits = map (\<lambda>i. the (hits i)) order"
proof (induction order arbitrary: hits)
  case (Cons i order)
  then obtain h where h: "hits i = Some h" by auto
  have "drain_hits order (hits(i := None)) = map (\<lambda>j. the ((hits(i := None)) j)) order"
    using Cons by (intro Cons.IH) auto
  also have "\<dots> = map (\<lambda>j. the (hits j)) order" using Cons.prems(1) by auto
  finally show ?case using h by simp
qed simp

text \<open>The distance a leg reports for an id; of several rows with the same id the last counts.\<close>

definition leg_dist :: "query_row list \<Rightarrow> entry_id \<rightharpoonup> f32" where
  "leg_dist rows =
     fold (\<lambda>row m. case entry_id_from_hex (qr_id row) of Some i \<Rightarrow> m(i \<mapsto> qr_dist row) | None \<Rightarrow> m) rows Map.empty"

lemma leg_dist_snoc:
  "leg_dist (rows @ [row]) =
     (case entry_id_from_hex (qr_id row) of Some i \<Rightarrow> (leg_dist rows)(i \<mapsto> qr_dist row) | None \<Rightarrow> leg_dist rows)"
  by (simp add: leg_dist_def split: option.split)

lemma leg_dist_Nil [simp]: "leg_dist [] = Map.empty"
  by (simp add: leg_dist_def)

lemma parse_row_id: "parse_row lower row = Inr p \<Longrightarrow> entry_id_from_hex (qr_id row) = Some (pr_id p)"
  by (auto simp: parse_row_def result_simps Let_def)

definition dense_of :: "query_row list \<Rightarrow> entry_id \<Rightarrow> f32" where
  "dense_of ann i = (case leg_dist ann i of Some d \<Rightarrow> f32_sub f32_one d | None \<Rightarrow> f32_zero)"

definition sparse_of :: "query_row list \<Rightarrow> entry_id \<Rightarrow> f32" where
  "sparse_of bm25 i = (case leg_dist bm25 i of Some d \<Rightarrow> squash_bm25 d | None \<Rightarrow> f32_zero)"

definition fused :: "query_row list \<Rightarrow> query_row list \<Rightarrow> fusion \<Rightarrow> bool" where
  "fused ann bm25 acc \<longleftrightarrow> fusion_ok acc
     \<and> dom (fst acc) = dom (leg_dist ann) \<union> dom (leg_dist bm25)
     \<and> (\<forall>i h. fst acc i = Some h \<longrightarrow> dense_score h = dense_of ann i \<and> sparse_score h = sparse_of bm25 i)"

lemma try_fold_prefix:
  assumes "\<And>pre x a b. P pre a \<Longrightarrow> f x a = Inr b \<Longrightarrow> P (pre @ [x]) b"
    and "P pre acc" and "try_fold f xs acc = Inr r"
  shows "P (pre @ xs) r"
  using assms(2,3)
proof (induction xs arbitrary: pre acc)
  case (Cons x xs)
  from Cons.prems(2) obtain b where b: "f x acc = Inr b" "try_fold f xs b = Inr r"
    by (auto split: sum.splits)
  from Cons.IH[OF assms(1)[OF Cons.prems(1) b(1)] b(2)] show ?case by simp
qed simp

lemma fuse_ann_fused:
  assumes "fused pre [] acc" and "fuse_ann lower row acc = Inr acc'"
  shows "fused (pre @ [row]) [] acc'"
proof -
  obtain hits order where acc: "acc = (hits, order)" by fastforce
  from assms(2) obtain p where p: "parse_row lower row = Inr p"
    and hits': "fst acc' = hits(pr_id p \<mapsto> \<lparr>hit_id = pr_id p, dense_score = f32_sub f32_one (qr_dist row),
      sparse_score = f32_zero, hit_entities = pr_entities p, hit_context = pr_context p\<rparr>)"
    by (auto simp: fuse_ann_def acc result_simps Let_def)
  have "leg_dist (pre @ [row]) = (leg_dist pre)(pr_id p \<mapsto> qr_dist row)"
    by (simp add: leg_dist_snoc parse_row_id[OF p])
  moreover have "fusion_ok acc'" using assms fuse_ann_ok[of acc lower row acc'] by (simp add: fused_def)
  ultimately show ?thesis
    using assms(1) unfolding fused_def hits'
    by (auto simp: acc dense_of_def sparse_of_def split: if_splits)
qed

lemma fuse_bm25_fused:
  assumes "fused ann pre acc" and "fuse_bm25 lower row acc = Inr acc'"
  shows "fused ann (pre @ [row]) acc'"
proof -
  obtain hits order where acc: "acc = (hits, order)" by fastforce
  from assms(2) obtain p where p: "parse_row lower row = Inr p" by (auto simp: fuse_bm25_def result_simps)
  have leg: "leg_dist (pre @ [row]) = (leg_dist pre)(pr_id p \<mapsto> qr_dist row)"
    by (simp add: leg_dist_snoc parse_row_id[OF p])
  have ok: "fusion_ok acc'" using assms fuse_bm25_ok[of acc lower row acc'] by (simp add: fused_def)
  show ?thesis
  proof (cases "hits (pr_id p)")
    case None
    then have "leg_dist ann (pr_id p) = None" using assms(1) by (auto simp: fused_def acc)
    moreover have hits': "fst acc' = hits(pr_id p \<mapsto> \<lparr>hit_id = pr_id p, dense_score = f32_zero,
        sparse_score = squash_bm25 (qr_dist row), hit_entities = pr_entities p, hit_context = pr_context p\<rparr>)"
      using None assms(2) p by (auto simp: fuse_bm25_def acc Let_def)
    ultimately show ?thesis
      using assms(1) leg ok unfolding fused_def hits'
      by (auto simp: acc dense_of_def sparse_of_def split: if_splits)
  next
    case (Some h)
    then have hits': "fst acc' = hits(pr_id p \<mapsto> h\<lparr>sparse_score := squash_bm25 (qr_dist row)\<rparr>)"
      using assms(2) p by (auto simp: fuse_bm25_def acc Let_def)
    show ?thesis
      using assms(1) leg ok Some unfolding fused_def hits'
      by (auto simp: acc dense_of_def sparse_of_def split: if_splits)
  qed
qed

lemma fuse_multi_query_fused:
  assumes "fuse_multi_query lower (ann # bm25 # rest) = Inr hits"
  shows "\<exists>m order. fused ann bm25 (m, order) \<and> hits = map (\<lambda>i. the (m i)) order"
proof -
  from assms obtain acc1 m order where f1: "try_fold (fuse_ann lower) ann (Map.empty, []) = Inr acc1"
    and f2: "try_fold (fuse_bm25 lower) bm25 acc1 = Inr (m, order)" and hits: "hits = drain_hits order m"
    by (auto simp: fuse_multi_query_def result_simps)
  have "fused [] [] (Map.empty, [])" by (simp add: fused_def fusion_ok_def)
  from try_fold_prefix[where P = "\<lambda>pre. fused pre []", OF fuse_ann_fused this f1]
  have "fused ann [] acc1" by simp
  from try_fold_prefix[where P = "fused ann", OF fuse_bm25_fused this f2]
  have fu: "fused ann bm25 (m, order)" by simp
  then have "drain_hits order m = map (\<lambda>i. the (m i)) order"
    by (intro drain_hits_eq) (auto simp: fused_def fusion_ok_def)
  with fu hits show ?thesis by blast
qed

section \<open>The service and the contract\<close>

text \<open>
  What the store relies on, as turbopuffer documents it. \<open>contents\<close> are the rows of a namespace by its URL and
  their id, as the entries they render. A write concerns its row alone; it has taken effect when a success
  status came back and may or may not have otherwise. A query changes nothing, and answers
  each of its legs with rows that are stored and satisfy the filter of the leg.

  The store puts the name of a namespace into the URL as it is, and a URL ends its path at \<open>?\<close> and \<open>#\<close>
  and has escapes, so the laws are stated only for a base without those characters (\<open>api_base\<close>) and for
  names of the characters turbopuffer allows in them (\<open>tp_name\<close>): under one base, such names
  are different namespaces of the service exactly when they are different strings.
\<close>

definition tp_char :: "char \<Rightarrow> bool" where
  "tp_char c \<longleftrightarrow> c \<in> set ''abcdefghijklmnopqrstuvwxyzABCDEFGHIJKLMNOPQRSTUVWXYZ0123456789-_.''"

definition tp_name :: "string \<Rightarrow> bool" where
  "tp_name name \<longleftrightarrow> name \<noteq> [] \<and> list_all tp_char name"

definition api_base :: "string \<Rightarrow> bool" where
  "api_base base \<longleftrightarrow> list_all (\<lambda>c. tp_char c \<or> c = CHR '':'' \<or> c = CHR ''/'') base"

definition tp_at :: "string \<Rightarrow> string \<Rightarrow> string" where
  "tp_at base name = base @ ''/v2/namespaces/'' @ name"

text \<open>The rows of the namespaces below one base.\<close>

definition tp_below ::
  "('w \<Rightarrow> string \<Rightarrow> string \<Rightarrow> vector_entry option) \<Rightarrow> 'w \<Rightarrow> string \<Rightarrow> string \<Rightarrow> string \<Rightarrow> vector_entry option" where
  "tp_below contents w base name = (if tp_name name then contents w (tp_at base name) else Map.empty)"

definition tp_success :: "(string + nat \<times> (string + string)) \<Rightarrow> bool" where
  "tp_success r \<longleftrightarrow> (case r of Inl _ \<Rightarrow> False | Inr (status, _) \<Rightarrow> is_success status)"

definition row_shows :: "vector_entry \<Rightarrow> query_row \<Rightarrow> bool" where
  "row_shows e row \<longleftrightarrow> qr_id row = entry_id_to_string (ve_id e) \<and> qr_entities row = map entity_str (ve_entities e)
     \<and> qr_context row = map_option ctx_str (ve_context e)"

fun leg_holds :: "json \<Rightarrow> vector_entry \<Rightarrow> bool" where
  "leg_holds (JObj attrs) e = (case map_of attrs ''filters'' of Some j \<Rightarrow> tp_holds e j | None \<Rightarrow> True)"
| "leg_holds _ e = False"

definition tp_service :: "'w tp_http \<Rightarrow> ('w \<Rightarrow> string \<Rightarrow> string \<Rightarrow> vector_entry option) \<Rightarrow> bool" where
  "tp_service http contents \<longleftrightarrow> (\<forall>base name key w r w'. api_base base \<longrightarrow> tp_name name \<longrightarrow>
     (\<forall>e. tp_post http (tp_at base name) key (upsert_body e) w = (r, w') \<longrightarrow>
        tp_below contents w' base = (tp_below contents w base)(name := (tp_below contents w base name)(entry_id_to_string (ve_id e) \<mapsto> e))
        \<or> tp_below contents w' base = tp_below contents w base \<and> \<not> tp_success r)
     \<and> (\<forall>i. tp_post http (tp_at base name) key (JObj [(''deletes'', JArr [JStr i])]) w = (r, w') \<longrightarrow>
        tp_below contents w' base = (tp_below contents w base)(name := (tp_below contents w base name)(i := None))
        \<or> tp_below contents w' base = tp_below contents w base \<and> \<not> tp_success r)
     \<and> (\<forall>legs. tp_post http (tp_at base name @ ''/query'') key (JObj [(''queries'', JArr legs)]) w = (r, w') \<longrightarrow>
        w' = w \<and> (\<forall>status text answers. r = Inr (status, Inr text) \<longrightarrow> is_success status \<longrightarrow> tp_parse http text = Inr answers \<longrightarrow>
          list_all2 (\<lambda>leg rows. \<forall>row \<in> set rows. \<exists>e. tp_below contents w base name (qr_id row) = Some e \<and> row_shows e row \<and> leg_holds leg e)
            legs answers)))"

text \<open>The entries whose rows read back as they were: the id is a UUID, the entities are normalised and
  the context is trimmed, as their constructors make them.\<close>

definition tp_accepts :: "(string \<Rightarrow> string) \<Rightarrow> vector_entry \<Rightarrow> bool" where
  "tp_accepts lower e \<longleftrightarrow> entry_id_ok (ve_id e) \<and> btree_ok (ve_entities e)
     \<and> (\<forall>x \<in> set (ve_entities e). entity_normalize lower (entity_str x) = Some x)
     \<and> (\<forall>c. ve_context e = Some c \<longrightarrow> ctx_new (ctx_str c) = Inr c)"

definition tp_entries ::
  "('w \<Rightarrow> string \<Rightarrow> string \<Rightarrow> vector_entry option) \<Rightarrow> tp_store \<times> 'w \<Rightarrow> namespace \<Rightarrow> entry_id \<Rightarrow> vector_entry option" where
  "tp_entries contents sw ns i =
     tp_below contents (snd sw) (tp_base_url (fst sw)) (physical_namespace (fst sw) ns) (entry_id_to_string i)"

definition tp_addressed :: "namespace \<Rightarrow> tp_store \<Rightarrow> bool" where
  "tp_addressed ns s \<longleftrightarrow> api_base (tp_base_url s) \<and> tp_name (physical_namespace s ns)"

definition tp_ok ::
  "(string \<Rightarrow> string) \<Rightarrow> ('w \<Rightarrow> string \<Rightarrow> string \<Rightarrow> vector_entry option) \<Rightarrow> tp_store \<times> 'w \<Rightarrow> bool" where
  "tp_ok lower contents sw \<longleftrightarrow> (\<forall>ns i e. tp_entries contents sw ns i = Some e \<longrightarrow> ve_id e = i \<and> tp_accepts lower e)"

lemma map_filter_entities:
  "\<forall>x \<in> set es. entity_normalize lower (entity_str x) = Some x
   \<Longrightarrow> List.map_filter (entity_normalize lower) (map entity_str es) = es"
  by (induction es) (simp_all add: List.map_filter_def)

lemma parse_row_shown:
  assumes "row_shows e row" "tp_accepts lower e"
  shows "parse_row lower row = Inr \<lparr>pr_id = ve_id e, pr_entities = ve_entities e, pr_context = ve_context e\<rparr>"
proof -
  have "entry_id_from_hex (entry_id_to_string (ve_id e)) = Some (ve_id e)"
    using assms(2) length_entry_id_to_string[of "ve_id e"]
    by (cases "ve_id e") (auto simp: entry_id_from_hex_def entry_id_to_string_def hex_pairs_show tp_accepts_def entry_id_ok_def)
  then show ?thesis
    using assms map_filter_entities[of "ve_entities e" lower]
    by (cases "ve_context e") (simp_all add: parse_row_def row_shows_def tp_accepts_def btree_collect_id)
qed

text \<open>Every hit of a fusion comes from a row.\<close>

definition from_rows :: "(string \<Rightarrow> string) \<Rightarrow> query_row list \<Rightarrow> fusion \<Rightarrow> bool" where
  "from_rows lower rows acc \<longleftrightarrow> (\<forall>i h. fst acc i = Some h \<longrightarrow> (\<exists>row \<in> set rows. \<exists>p. parse_row lower row = Inr p
     \<and> hit_id h = pr_id p \<and> hit_entities h = pr_entities p \<and> hit_context h = pr_context p))"

lemma fuse_ann_from:
  "from_rows lower pre acc \<Longrightarrow> fuse_ann lower row acc = Inr acc' \<Longrightarrow> from_rows lower (pre @ [row]) acc'"
  by (cases acc) (fastforce simp: from_rows_def fuse_ann_def result_simps Let_def split: if_splits)

lemma fuse_bm25_from:
  assumes "from_rows lower pre acc" "fuse_bm25 lower row acc = Inr acc'"
  shows "from_rows lower (pre @ [row]) acc'"
proof -
  obtain hits order p where acc: "acc = (hits, order)" and p: "parse_row lower row = Inr p"
    using assms(2) by (cases acc) (auto simp: fuse_bm25_def result_simps)
  show ?thesis
  proof (cases "hits (pr_id p)")
    case None
    then show ?thesis using assms p acc by (fastforce simp: from_rows_def fuse_bm25_def Let_def split: if_splits)
  next
    case (Some h)
    then have "fst acc' = hits(pr_id p \<mapsto> h\<lparr>sparse_score := squash_bm25 (qr_dist row)\<rparr>)"
      using assms(2) p acc by (auto simp: fuse_bm25_def Let_def)
    then show ?thesis using assms(1) Some acc by (fastforce simp: from_rows_def split: if_splits)
  qed
qed

lemma fuse_multi_query_hits:
  assumes "fuse_multi_query lower legs = Inr hits"
  shows "distinct (map hit_id hits)"
    and "h \<in> set hits \<Longrightarrow> \<exists>rows \<in> set (take 2 legs). \<exists>row \<in> set rows. \<exists>p. parse_row lower row = Inr p
      \<and> hit_id h = pr_id p \<and> hit_entities h = pr_entities p \<and> hit_context h = pr_context p"
proof -
  define ann where "ann = (case legs of leg # _ \<Rightarrow> leg | [] \<Rightarrow> [])"
  define bm25 where "bm25 = (case legs of _ # leg # _ \<Rightarrow> leg | _ \<Rightarrow> [])"
  have two: "fuse_multi_query lower [ann, bm25] = Inr hits"
    using assms by (simp add: fuse_multi_query_def ann_def bm25_def)
  obtain acc1 m order where f1: "try_fold (fuse_ann lower) ann (Map.empty, []) = Inr acc1"
    and f2: "try_fold (fuse_bm25 lower) bm25 acc1 = Inr (m, order)" and d: "hits = drain_hits order m"
    using two by (auto simp: fuse_multi_query_def result_simps)
  have "from_rows lower [] (Map.empty, [])" by (simp add: from_rows_def)
  from try_fold_prefix[where P = "from_rows lower", OF fuse_ann_from this f1] have "from_rows lower ann acc1" by simp
  from try_fold_prefix[where P = "from_rows lower", OF fuse_bm25_from this f2] have fr: "from_rows lower (ann @ bm25) (m, order)" .
  have "fusion_ok (Map.empty, [])" by (simp add: fusion_ok_def)
  from try_fold_prefix[where P = "\<lambda>_. fusion_ok", OF fuse_ann_ok this f1] have "fusion_ok acc1" .
  from try_fold_prefix[where P = "\<lambda>_. fusion_ok", OF fuse_bm25_ok this f2] have ok: "fusion_ok (m, order)" .
  then have hits: "hits = map (\<lambda>i. the (m i)) order" using d drain_hits_eq[of order m] by (simp add: fusion_ok_def)
  have m: "\<exists>h. m i = Some h \<and> hit_id h = i" if "i \<in> set order" for i using ok that by (auto simp: fusion_ok_def)
  have "map hit_id hits = order" unfolding hits using m by (fastforce intro: map_idI simp: comp_def)
  then show "distinct (map hit_id hits)" using ok by (simp add: fusion_ok_def)
  show "\<exists>rows \<in> set (take 2 legs). \<exists>row \<in> set rows. \<exists>p. parse_row lower row = Inr p
      \<and> hit_id h = pr_id p \<and> hit_entities h = pr_entities p \<and> hit_context h = pr_context p" if mem: "h \<in> set hits"
  proof -
    obtain i where "m i = Some h" using mem m by (fastforce simp: hits)
    then obtain row p where row: "row \<in> set (ann @ bm25)" and p: "parse_row lower row = Inr p"
        "hit_id h = pr_id p" "hit_entities h = pr_entities p" "hit_context h = pr_context p"
      using fr by (fastforce simp: from_rows_def)
    have "\<exists>rows \<in> set (take 2 legs). row \<in> set rows"
      using row by (cases legs; cases "tl legs") (auto simp: ann_def bm25_def)
    with p show ?thesis by blast
  qed
qed

lemma filter_to_tp_holds: "(case filter_to_tp f of Some j \<Rightarrow> tp_holds e j | None \<Rightarrow> True) = passes_filter f e"
  by (cases "keys_all f = []"; cases "entities_any f = []")
    (simp_all add: filter_to_tp_def passes_filter_def tp_holds_keys tp_holds_entities)

lemma query_body_legs:
  "\<exists>legs. query_body vec query_context f k = JObj [(''queries'', JArr legs)]
     \<and> (\<forall>leg \<in> set legs. \<forall>e. leg_holds leg e = passes_filter f e)"
  using filter_to_tp_holds[where f = f]
  by (cases query_context; cases "filter_to_tp f") (auto simp: query_body_def Let_def)

lemma physical_namespace_eq: "physical_namespace s m = physical_namespace s ns \<longleftrightarrow> m = ns"
  by (auto simp: physical_namespace_def namespace.expand)

lemma tp_url_at: "tp_url s ns = tp_at (tp_base_url s) (physical_namespace s ns)"
  by (simp add: tp_url_def tp_at_def)

text \<open>The store keeps its base and its prefix, so that it keeps addressing the same namespaces.\<close>

definition same_target :: "tp_store \<Rightarrow> tp_store \<Rightarrow> bool" where
  "same_target s s' \<longleftrightarrow> tp_base_url s' = tp_base_url s \<and> tp_namespace_prefix s' = tp_namespace_prefix s"

lemma same_target_keeps:
  assumes "same_target s s'"
  shows "tp_addressed ns s' = tp_addressed ns s" "tp_entries contents (s', w) = tp_entries contents (s, w)"
  using assms by (auto simp: same_target_def tp_addressed_def tp_entries_def physical_namespace_def fun_eq_iff)

lemma tp_ops_target:
  "tp_upsert http ns e sw = (r, sw') \<Longrightarrow> same_target (fst sw) (fst sw')"
  "tp_delete http ns i sw = (r', sw') \<Longrightarrow> same_target (fst sw) (fst sw')"
  "tp_query http ns vec c f k sw = (r'', sw') \<Longrightarrow> same_target (fst sw) (fst sw')"
  by (auto simp: tp_upsert_def tp_delete_def tp_query_def Let_def cache_dim_def same_target_def split: prod.splits sum.splits if_splits)

text \<open>What the operations do to the rows of the service.\<close>

lemma tp_write_effect:
  assumes "tp_service http contents" "tp_addressed ns (fst sw)"
  shows "tp_upsert http ns e sw = (r, sw') \<Longrightarrow>
      tp_entries contents sw' = (tp_entries contents sw)(ns := (tp_entries contents sw ns)(ve_id e \<mapsto> e))
      \<or> tp_entries contents sw' = tp_entries contents sw \<and> r \<noteq> Inr ()"
    and "tp_delete http ns i sw = (r, sw') \<Longrightarrow>
      tp_entries contents sw' = (tp_entries contents sw)(ns := (tp_entries contents sw ns)(i := None))
      \<or> tp_entries contents sw' = tp_entries contents sw \<and> r \<noteq> Inr ()"
proof -
  obtain s w where sw: "sw = (s, w)" by fastforce
  let ?b = "tp_base_url s" and ?n = "physical_namespace s ns"
  have addr: "api_base ?b" "tp_name ?n" using assms(2) by (simp_all add: sw tp_addressed_def)
  have post: "tp_below contents w' ?b = (tp_below contents w ?b)(?n := (tp_below contents w ?b ?n)(entry_id_to_string (ve_id e) \<mapsto> e))
      \<or> tp_below contents w' ?b = tp_below contents w ?b \<and> \<not> tp_success r0"
    if "tp_post http (tp_url s ns) (tp_api_key s) (upsert_body e) w = (r0, w')" for r0 w'
    using assms(1) addr that[unfolded tp_url_at] unfolding tp_service_def by blast
  have del: "tp_below contents w' ?b = (tp_below contents w ?b)(?n := (tp_below contents w ?b ?n)(entry_id_to_string i := None))
      \<or> tp_below contents w' ?b = tp_below contents w ?b \<and> \<not> tp_success r0"
    if "tp_post http (tp_url s ns) (tp_api_key s) (JObj [(''deletes'', JArr [JStr (entry_id_to_string i)])]) w = (r0, w')" for r0 w'
    using assms(1) addr that[unfolded tp_url_at] unfolding tp_service_def by blast
  have upd: "tp_entries contents (s', w') = (tp_entries contents (s, w))(ns := (tp_entries contents (s, w) ns)(j := x))"
    if "tp_below contents w' ?b = (tp_below contents w ?b)(?n := (tp_below contents w ?b ?n)(entry_id_to_string j := x))" "same_target s s'"
    for s' w' j x
    unfolding same_target_keeps(2)[OF that(2)]
    by (auto simp: tp_entries_def fun_eq_iff that(1) physical_namespace_eq entry_id_to_string_inj)
  have same: "tp_entries contents (s', w') = tp_entries contents (s, w)"
    if "tp_below contents w' ?b = tp_below contents w ?b" "same_target s s'" for s' w'
    unfolding same_target_keeps(2)[OF that(2)] by (simp add: tp_entries_def fun_eq_iff that(1))
  show "tp_entries contents sw' = (tp_entries contents sw)(ns := (tp_entries contents sw ns)(ve_id e \<mapsto> e))
      \<or> tp_entries contents sw' = tp_entries contents sw \<and> r \<noteq> Inr ()" if up: "tp_upsert http ns e sw = (r, sw')"
  proof (cases "cached_dim s ns \<noteq> None \<and> cached_dim s ns \<noteq> Some (emb_dim (ve_vector e))")
    case True
    then show ?thesis using up by (auto simp: tp_upsert_def sw Let_def)
  next
    case False
    obtain r0 w' where p: "tp_post http (tp_url s ns) (tp_api_key s) (upsert_body e) w = (r0, w')" by fastforce
    have "\<exists>s'. sw' = (s', w')" and ok: "r = Inr () \<Longrightarrow> tp_success r0"
      using up False p
      by (auto simp: tp_upsert_def sw Let_def tp_execute_def tp_success_def result_simps split: sum.splits if_splits)
    then obtain s' where s': "sw' = (s', w')" by blast
    have "same_target s s'" using tp_ops_target(1)[OF up] by (simp add: sw s')
    then show ?thesis
      using post[OF p] ok upd[where j = "ve_id e" and x = "Some e"] same unfolding sw s' by blast
  qed
  show "tp_entries contents sw' = (tp_entries contents sw)(ns := (tp_entries contents sw ns)(i := None))
      \<or> tp_entries contents sw' = tp_entries contents sw \<and> r \<noteq> Inr ()" if d: "tp_delete http ns i sw = (r, sw')"
  proof -
    obtain r0 w' where p: "tp_post http (tp_url s ns) (tp_api_key s) (JObj [(''deletes'', JArr [JStr (entry_id_to_string i)])]) w = (r0, w')"
      by fastforce
    have s': "sw' = (s, w')" and ok: "r = Inr () \<Longrightarrow> tp_success r0"
      using d p by (auto simp: tp_delete_def sw tp_execute_def tp_success_def result_simps split: sum.splits if_splits)
    have "same_target s s" by (simp add: same_target_def)
    then show ?thesis using del[OF p] ok upd[where j = i and x = None] same unfolding sw s' by blast
  qed
qed

lemma list_all2_in2: "list_all2 P xs ys \<Longrightarrow> y \<in> set ys \<Longrightarrow> \<exists>x \<in> set xs. P x y"
  by (induction rule: list_all2_induct) auto

lemma tp_query_effect:
  assumes "tp_service http contents" "tp_ok (tp_lower http) contents sw" "tp_addressed ns (fst sw)"
    and "tp_query http ns vec c f k sw = (out, sw')"
  shows "sw' = sw"
    and "out = Inr hits \<Longrightarrow> distinct (map hit_id hits)
      \<and> (\<forall>h \<in> set hits. \<exists>e. tp_entries contents sw ns (hit_id h) = Some e \<and> hit_stands_for h e \<and> passes_filter f e)"
proof -
  obtain s w where sw: "sw = (s, w)" by fastforce
  let ?b = "tp_base_url s" and ?n = "physical_namespace s ns"
  have addr: "api_base ?b" "tp_name ?n" using assms(3) by (simp_all add: sw tp_addressed_def)
  obtain legs where body: "query_body vec c f k = JObj [(''queries'', JArr legs)]"
    and legs: "\<And>leg e. leg \<in> set legs \<Longrightarrow> leg_holds leg e = passes_filter f e"
    using query_body_legs by blast
  obtain r0 w' where p: "tp_post http (tp_url s ns @ ''/query'') (tp_api_key s) (JObj [(''queries'', JArr legs)]) w = (r0, w')"
    by fastforce
  have w': "w' = w" and ans: "\<And>status text answers. r0 = Inr (status, Inr text) \<Longrightarrow> is_success status \<Longrightarrow> tp_parse http text = Inr answers
      \<Longrightarrow> list_all2 (\<lambda>leg rows. \<forall>row \<in> set rows. \<exists>e. tp_below contents w ?b ?n (qr_id row) = Some e \<and> row_shows e row \<and> leg_holds leg e)
            legs answers"
    using assms(1) addr p[unfolded tp_url_at] unfolding tp_service_def by blast+
  show "sw' = sw"
    using assms(4) p w' by (auto simp: tp_query_def sw body tp_execute_def split: sum.splits if_splits)
  show "distinct (map hit_id hits)
      \<and> (\<forall>h \<in> set hits. \<exists>e. tp_entries contents sw ns (hit_id h) = Some e \<and> hit_stands_for h e \<and> passes_filter f e)"
    if out: "out = Inr hits"
  proof -
    consider (none) "hits = []" | (answered) status reply answers where "r0 = Inr (status, Inr reply)" "is_success status"
        "tp_parse http reply = Inr answers" "fuse_multi_query (tp_lower http) answers = Inr hits"
      using assms(4) p out
      by (auto simp: tp_query_def sw body tp_execute_def result_simps map_err_def split: sum.splits if_splits)
    then show ?thesis
    proof cases
      case (answered status reply answers)
      note rows = ans[OF answered(1-3)]
      have "\<exists>e. tp_entries contents sw ns (hit_id h) = Some e \<and> hit_stands_for h e \<and> passes_filter f e" if "h \<in> set hits" for h
      proof -
        from fuse_multi_query_hits(2)[OF answered(4) that] obtain leg_rows row pr
          where lr: "leg_rows \<in> set answers" "row \<in> set leg_rows" and pr: "parse_row (tp_lower http) row = Inr pr"
            "hit_id h = pr_id pr" "hit_entities h = pr_entities pr" "hit_context h = pr_context pr"
          by (meson in_set_takeD)
        from list_all2_in2[OF rows lr(1)] obtain leg where "leg \<in> set legs"
          "\<forall>row \<in> set leg_rows. \<exists>e. tp_below contents w ?b ?n (qr_id row) = Some e \<and> row_shows e row \<and> leg_holds leg e"
          by blast
        with lr(2) legs obtain e where e: "tp_below contents w ?b ?n (qr_id row) = Some e" "row_shows e row" "passes_filter f e"
          by blast
        then have at: "tp_entries contents sw ns (ve_id e) = Some e" by (simp add: tp_entries_def sw row_shows_def)
        then have "tp_accepts (tp_lower http) e" using assms(2) by (simp add: tp_ok_def)
        from parse_row_shown[OF e(2) this] pr at e(3) show ?thesis by (auto simp: hit_stands_for_def)
      qed
      with fuse_multi_query_hits(1)[OF answered(4)] show ?thesis by blast
    qed simp
  qed
qed

text \<open>Over such a service the store is sound. It is not exact: the service's search is approximate, and with a
  context the two legs may together return up to twice \<open>top_k\<close> hits.\<close>

lemma tp_vector_sound:
  assumes "tp_service http contents"
  shows "vector_sound (tp_upsert http) (tp_query http) (tp_delete http) (tp_entries contents)
    (\<lambda>sw. tp_ok (tp_lower http) contents sw \<and> tp_addressed ns (fst sw)) (tp_accepts (tp_lower http)) ns"
proof -
  let ?l = "tp_lower http"
  let ?inv = "\<lambda>sw. tp_ok ?l contents sw \<and> tp_addressed ns (fst sw)"
  note eff = tp_write_effect[OF assms, of ns]
  have inv_up: "tp_ok ?l contents sw'" if "tp_ok ?l contents sw" "tp_accepts ?l e"
    "tp_entries contents sw' = (tp_entries contents sw)(ns := (tp_entries contents sw ns)(ve_id e \<mapsto> e))" for sw sw' e
    using that by (auto simp: tp_ok_def)
  have inv_del: "tp_ok ?l contents sw'" if "tp_ok ?l contents sw"
    "tp_entries contents sw' = (tp_entries contents sw)(ns := (tp_entries contents sw ns)(i := None))" for sw sw' i
    using that by (auto simp: tp_ok_def split: if_splits)
  have inv_same: "tp_ok ?l contents sw'" if "tp_ok ?l contents sw" "tp_entries contents sw' = tp_entries contents sw" for sw sw'
    using that by (auto simp: tp_ok_def)
  note addr = same_target_keeps(1)[OF tp_ops_target(1)] same_target_keeps(1)[OF tp_ops_target(2)]
  show ?thesis
  proof
    fix sw sw' e
    assume "?inv sw" "tp_accepts ?l e" "tp_upsert http ns e sw = (Inr (), sw')"
    then show "?inv sw' \<and> tp_entries contents sw' = (tp_entries contents sw)(ns := (tp_entries contents sw ns)(ve_id e \<mapsto> e))"
      using eff(1) inv_up addr(1) by blast
  next
    fix sw sw' e err
    assume "?inv sw" "tp_accepts ?l e" "tp_upsert http ns e sw = (Inl err, sw')"
    then show "?inv sw' \<and> (tp_entries contents sw' = tp_entries contents sw
        \<or> tp_entries contents sw' = (tp_entries contents sw)(ns := (tp_entries contents sw ns)(ve_id e \<mapsto> e)))"
      using eff(1) inv_up inv_same addr(1) by blast
  next
    fix sw sw' i
    assume "?inv sw" "tp_delete http ns i sw = (Inr (), sw')"
    then show "?inv sw' \<and> tp_entries contents sw' = (tp_entries contents sw)(ns := (tp_entries contents sw ns)(i := None))"
      using eff(2) inv_del addr(2) by blast
  next
    fix sw sw' i err
    assume "?inv sw" "tp_delete http ns i sw = (Inl err, sw')"
    then show "?inv sw' \<and> (tp_entries contents sw' = tp_entries contents sw
        \<or> tp_entries contents sw' = (tp_entries contents sw)(ns := (tp_entries contents sw ns)(i := None)))"
      using eff(2) inv_del inv_same addr(2) by blast
  qed (use tp_query_effect[OF assms] in \<open>auto simp: tp_ok_def\<close>)
qed

section \<open>Properties\<close>

text \<open>
  The filter sent to turbopuffer means what the cache asked for: an entry satisfies it, by the
  documented meaning of the operators, exactly when it carries all the required keys and, if entities
  are required, one of them; no filter is sent exactly when nothing is required.
\<close>

theorem filter_to_tp_meaning:
  "(case filter_to_tp f of Some j \<Rightarrow> tp_holds e j | None \<Rightarrow> True) = passes_filter f e
   \<and> (filter_to_tp f = None \<longleftrightarrow> keys_all f = [] \<and> entities_any f = [])"
  unfolding filter_to_tp_holds
  by (cases "keys_all f = []"; cases "entities_any f = []") (simp_all add: filter_to_tp_def)

text \<open>
  C33. Fusing the two result lists of a hybrid query returns every id of either list exactly once, with
  the dense score from the vector list (zero if it is not there) and the squashed text score from the
  context list (zero if it is not there).
\<close>

theorem fuse_multi_query_correct:
  assumes "fuse_multi_query lower (ann # bm25 # rest) = Inr hits"
  shows "distinct (map hit_id hits)
    \<and> set (map hit_id hits) = dom (leg_dist ann) \<union> dom (leg_dist bm25)
    \<and> (\<forall>h \<in> set hits. dense_score h = dense_of ann (hit_id h) \<and> sparse_score h = sparse_of bm25 (hit_id h))"
proof -
  from fuse_multi_query_fused[OF assms] obtain m order where fu: "fused ann bm25 (m, order)"
    and hits: "hits = map (\<lambda>i. the (m i)) order" by blast
  have m: "m i = Some (the (m i)) \<and> hit_id (the (m i)) = i" if "i \<in> set order" for i
  proof -
    from fu that have "i \<in> dom m" by (simp add: fused_def fusion_ok_def)
    then obtain h where "m i = Some h" by blast
    with fu show ?thesis by (simp add: fused_def fusion_ok_def)
  qed
  have ids: "map hit_id hits = order" using m by (simp add: hits map_idI)
  have "dense_score h = dense_of ann (hit_id h) \<and> sparse_score h = sparse_of bm25 (hit_id h)"
    if "h \<in> set hits" for h
  proof -
    from that obtain i where "i \<in> set order" "h = the (m i)" by (auto simp: hits)
    with m[of i] have "m (hit_id h) = Some h" by simp
    with fu show ?thesis by (simp add: fused_def)
  qed
  with ids fu show ?thesis by (auto simp: fused_def fusion_ok_def)
qed

definition example_row :: "string \<Rightarrow> f32 \<Rightarrow> query_row" where
  "example_row i d = \<lparr>qr_id = i, qr_dist = d, qr_entities = [''Acme''], qr_context = None\<rparr>"

definition hex_a :: string where "hex_a = ''00000000000000000000000000000001''"
definition hex_b :: string where "hex_b = ''00000000000000000000000000000002''"

theorem fuse_multi_query_correct_witness:
  "\<exists>hits. fuse_multi_query ascii_lower [[example_row hex_a f32_zero], [example_row hex_b f32_one]] = Inr hits
     \<and> set (map hit_id hits) = dom (leg_dist [example_row hex_a f32_zero]) \<union> dom (leg_dist [example_row hex_b f32_one])
     \<and> length hits = 2"
proof -
  have parse: "parse_row ascii_lower (example_row hex_a f32_zero) =
      Inr \<lparr>pr_id = EntryId (replicate 15 0 @ [1]), pr_entities = [Entity ''acme''], pr_context = None\<rparr>"
    "parse_row ascii_lower (example_row hex_b f32_one) =
      Inr \<lparr>pr_id = EntryId (replicate 15 0 @ [2]), pr_entities = [Entity ''acme''], pr_context = None\<rparr>"
    by code_simp+
  obtain hits where h: "fuse_multi_query ascii_lower [[example_row hex_a f32_zero], [example_row hex_b f32_one]] = Inr hits"
    "length hits = 2"
    by (simp add: fuse_multi_query_def fuse_ann_def fuse_bm25_def parse Let_def)
  with fuse_multi_query_correct[OF h(1)] show ?thesis by blast
qed

end
