(* ===== verification/Object_S3.thy ===== *)
theory Object_S3
  imports Object_Disk
begin

text \<open>
  \<^verbatim>\<open>src/backends/object_s3.rs\<close>: objects in an S3 bucket. The client library is the record
  \<open>s3_client\<close> of its calls, each of which changes the remote state and answers with a transport
  error or a status code; \<open>s3_lib\<close> holds the constructors of credentials, region and bucket.
\<close>

record 's s3_client =
  put_object :: "string \<Rightarrow> bytes \<Rightarrow> 's \<Rightarrow> (string + nat) \<times> 's"
  get_object :: "string \<Rightarrow> 's \<Rightarrow> (string + nat \<times> bytes) \<times> 's"
  delete_object :: "string \<Rightarrow> 's \<Rightarrow> (string + nat) \<times> 's"

definition object_key :: "string \<Rightarrow> namespace \<Rightarrow> entry_id \<Rightarrow> string" where
  "object_key key_prefix ns i = key_prefix @ namespace_str ns @ ''/'' @ entry_id_to_string i"

record unexpected_status =
  us_operation :: string
  us_key :: string
  us_status :: nat

definition unexpected_status_text :: "unexpected_status \<Rightarrow> string" where
  "unexpected_status_text u =
     ''s3 '' @ us_operation u @ '' of `'' @ us_key u @ ''` returned status '' @ show_nat (us_status u)"

definition unexpected :: "string \<Rightarrow> string \<Rightarrow> nat \<Rightarrow> error" where
  "unexpected operation key status =
     ObjectStorage (unexpected_status_text \<lparr>us_operation = operation, us_key = key, us_status = status\<rparr>)"

definition success :: "nat \<Rightarrow> bool" where
  "success status \<longleftrightarrow> 200 \<le> status \<and> status \<le> 299"

section \<open>Construction\<close>

datatype s3_region = NamedRegion string | CustomRegion string string

record ('cred, 'bucket) s3_lib =
  credentials_new :: "string \<Rightarrow> string \<Rightarrow> string + 'cred"
  parse_region :: "string \<Rightarrow> string + s3_region"
  bucket_new :: "string \<Rightarrow> s3_region \<Rightarrow> 'cred \<Rightarrow> string + 'bucket"
  with_path_style :: "'bucket \<Rightarrow> 'bucket"
  with_request_timeout :: "nat \<Rightarrow> 'bucket \<Rightarrow> string + 'bucket"

definition REQUEST_TIMEOUT :: nat where "REQUEST_TIMEOUT = 30"

definition or_env :: "(string \<Rightarrow> string option) \<Rightarrow> string option \<Rightarrow> string \<Rightarrow> string option" where
  "or_env env given name = (case given of Some v \<Rightarrow> Some v | None \<Rightarrow> env name)"

definition s3_new ::
  "('cred, 'bucket) s3_lib \<Rightarrow> (string \<Rightarrow> string option) \<Rightarrow> string option \<Rightarrow> string option
   \<Rightarrow> string option \<Rightarrow> string \<Rightarrow> ('bucket \<times> string) res" where
  "s3_new lib env bucket region endpoint key_prefix =
     try_bind (ok_or (MissingEnv ''SEMISWEET_S3_BUCKET'') (or_env env bucket ''SEMISWEET_S3_BUCKET''))
       (\<lambda>bucket_name.
     try_bind (ok_or (MissingEnv ''AWS_REGION'') (or_env env region ''AWS_REGION'')) (\<lambda>region.
     try_bind (ok_or (MissingEnv ''AWS_ACCESS_KEY_ID'') (env ''AWS_ACCESS_KEY_ID'')) (\<lambda>access_key.
     try_bind (ok_or (MissingEnv ''AWS_SECRET_ACCESS_KEY'') (env ''AWS_SECRET_ACCESS_KEY'')) (\<lambda>secret_key.
     try_bind (map_err ObjectStorage (credentials_new lib access_key secret_key)) (\<lambda>credentials.
     try_bind (case or_env env endpoint ''S3_ENDPOINT'' of
                 Some e \<Rightarrow> Inr (CustomRegion region e, True)
               | None \<Rightarrow> try_bind (map_err ObjectStorage (parse_region lib region)) (\<lambda>r. Inr (r, False)))
       (\<lambda>(region', path_style).
     try_bind (map_err ObjectStorage (bucket_new lib bucket_name region' credentials)) (\<lambda>b.
     try_bind (map_err ObjectStorage
         (with_request_timeout lib REQUEST_TIMEOUT (if path_style then with_path_style lib b else b)))
       (\<lambda>b'. Inr (b', key_prefix)))))))))"

section \<open>Operations\<close>

definition s3_put ::
  "'s s3_client \<Rightarrow> string \<Rightarrow> namespace \<Rightarrow> entry_id \<Rightarrow> bytes \<Rightarrow> 's \<Rightarrow> unit res \<times> 's" where
  "s3_put client key_prefix ns i v s =
     (let key = object_key key_prefix ns i in
      case put_object client key v s of
        (Inl e, s') \<Rightarrow> (Inl (ObjectStorage e), s')
      | (Inr status, s') \<Rightarrow> (if success status then Inr () else Inl (unexpected ''put'' key status), s'))"

definition s3_get ::
  "'s s3_client \<Rightarrow> string \<Rightarrow> namespace \<Rightarrow> entry_id \<Rightarrow> 's \<Rightarrow> bytes option res \<times> 's" where
  "s3_get client key_prefix ns i s =
     (let key = object_key key_prefix ns i in
      case get_object client key s of
        (Inl e, s') \<Rightarrow> (Inl (ObjectStorage e), s')
      | (Inr (status, body), s') \<Rightarrow>
          (if status = 404 then Inr None
           else if success status then Inr (Some body)
           else Inl (unexpected ''get'' key status), s'))"

definition s3_delete :: "'s s3_client \<Rightarrow> string \<Rightarrow> namespace \<Rightarrow> entry_id \<Rightarrow> 's \<Rightarrow> unit res \<times> 's" where
  "s3_delete client key_prefix ns i s =
     (let key = object_key key_prefix ns i in
      case delete_object client key s of
        (Inl e, s') \<Rightarrow> (Inl (ObjectStorage e), s')
      | (Inr status, s') \<Rightarrow>
          (if success status \<or> status = 404 then Inr () else Inl (unexpected ''delete'' key status), s'))"

definition s3_backend :: "'s s3_client \<Rightarrow> string \<Rightarrow> 's object_backend" where
  "s3_backend client key_prefix =
     \<lparr>ob_put = s3_put client key_prefix, ob_get = s3_get client key_prefix, ob_delete = s3_delete client key_prefix\<rparr>"

section \<open>The service and the contract\<close>

text \<open>
  What the store relies on, as S3 documents it. \<open>contents\<close> are the objects of the bucket by key. A write or a
  delete concerns its key alone; it has taken effect when a success status came back, and may or may not
  have when another status or a broken connection was reported. A read changes nothing; with a success
  status its body is the object, with 404 there is none. A delete answered 404 leaves no object either.
\<close>

definition s3_success :: "(string + nat) \<Rightarrow> bool" where
  "s3_success r \<longleftrightarrow> (case r of Inl _ \<Rightarrow> False | Inr status \<Rightarrow> success status)"

definition s3_service :: "'s s3_client \<Rightarrow> ('s \<Rightarrow> string \<Rightarrow> bytes option) \<Rightarrow> bool" where
  "s3_service client contents \<longleftrightarrow>
     (\<forall>key v s r s'. put_object client key v s = (r, s') \<longrightarrow>
        contents s' = (contents s)(key \<mapsto> v) \<or> contents s' = contents s \<and> \<not> s3_success r)
     \<and> (\<forall>key s r s'. get_object client key s = (r, s') \<longrightarrow>
        s' = s \<and> (\<forall>status body. r = Inr (status, body) \<longrightarrow>
          (status = 404 \<longrightarrow> contents s key = None) \<and> (success status \<longrightarrow> contents s key = Some body)))
     \<and> (\<forall>key s r s'. delete_object client key s = (r, s') \<longrightarrow>
        contents s' = (contents s)(key := None) \<or> contents s' = contents s \<and> \<not> s3_success r \<and> r \<noteq> Inr 404)"

definition s3_objects ::
  "('s \<Rightarrow> string \<Rightarrow> bytes option) \<Rightarrow> string \<Rightarrow> 's \<Rightarrow> namespace \<times> entry_id \<Rightarrow> bytes option" where
  "s3_objects contents key_prefix s = (\<lambda>(ns, i). contents s (object_key key_prefix ns i))"

lemma success_404: "\<not> success 404"
  by (simp add: success_def)

lemma object_key_eq:
  assumes "storable ns i" "storable m j"
  shows "object_key key_prefix ns i = object_key key_prefix m j \<longleftrightarrow> (ns, i) = (m, j)"
proof -
  have len: "length (entry_id_to_string i) = length (entry_id_to_string j)"
    using assms by (simp add: storable_def entry_id_ok_def length_entry_id_to_string)
  have "ns = m \<and> i = j" if "object_key key_prefix ns i = object_key key_prefix m j"
  proof -
    from that have "(namespace_str ns @ ''/'') @ entry_id_to_string i = (namespace_str m @ ''/'') @ entry_id_to_string j"
      by (simp add: object_key_def)
    with len have "namespace_str ns = namespace_str m \<and> entry_id_to_string i = entry_id_to_string j"
      by (metis append_eq_append_conv append1_eq_conv)
    then show ?thesis by (simp add: entry_id_to_string_inj namespace.expand)
  qed
  then show ?thesis by auto
qed

text \<open>Over such a service the store keeps the contract of an object store.\<close>

lemma s3_object_store:
  assumes "s3_service client contents"
  shows "object_store (s3_put client key_prefix) (s3_get client key_prefix) (s3_delete client key_prefix)
    (s3_objects contents key_prefix) (\<lambda>_. True) storable"
proof -
  have put: "contents s' = (contents s)(object_key key_prefix ns i \<mapsto> v) \<or> contents s' = contents s \<and> out \<noteq> Inr ()"
    if "s3_put client key_prefix ns i v s = (out, s')" for ns i v s out s'
    using that assms
    by (auto simp: s3_put_def s3_service_def s3_success_def Let_def split: prod.splits sum.splits if_splits) metis+
  have del: "contents s' = (contents s)(object_key key_prefix ns i := None) \<or> contents s' = contents s \<and> out \<noteq> Inr ()"
    if "s3_delete client key_prefix ns i s = (out, s')" for ns i s out s'
    using that assms
    by (auto simp: s3_delete_def s3_service_def s3_success_def Let_def split: prod.splits sum.splits if_splits) metis+
  have get: "s' = s \<and> (\<forall>r. out = Inr r \<longrightarrow> r = contents s (object_key key_prefix ns i))"
    if "s3_get client key_prefix ns i s = (out, s')" for ns i s out s'
    using that assms success_404
    by (auto simp: s3_get_def s3_service_def Let_def split: prod.splits sum.splits if_splits)
  have eq: "object_key key_prefix m j = object_key key_prefix ns i \<longleftrightarrow> (m, j) = (ns, i)"
    if "storable ns i" "storable m j" for ns i m j
    using object_key_eq[OF that(2,1)] .
  show ?thesis
  proof
    fix s s' ns i v
    assume "storable ns i" "s3_put client key_prefix ns i v s = (Inr (), s')"
    with put[of ns i v s "Inr ()" s'] eq[of ns i]
    show "True \<and> s3_objects contents key_prefix s' (ns, i) = Some v \<and> (\<forall>m j. storable m j \<and> (m, j) \<noteq> (ns, i) \<longrightarrow>
        s3_objects contents key_prefix s' (m, j) = s3_objects contents key_prefix s (m, j))"
      by (auto simp: s3_objects_def)
  next
    fix s s' ns i v e
    assume "storable ns i" "s3_put client key_prefix ns i v s = (Inl e, s')"
    with put[of ns i v s "Inl e" s'] eq[of ns i]
    show "True \<and> (s3_objects contents key_prefix s' (ns, i) = s3_objects contents key_prefix s (ns, i)
          \<or> s3_objects contents key_prefix s' (ns, i) = Some v)
        \<and> (\<forall>m j. storable m j \<and> (m, j) \<noteq> (ns, i) \<longrightarrow>
            s3_objects contents key_prefix s' (m, j) = s3_objects contents key_prefix s (m, j))"
      by (auto simp: s3_objects_def)
  next
    fix s s' ns i
    assume "storable ns i" "s3_delete client key_prefix ns i s = (Inr (), s')"
    with del[of ns i s "Inr ()" s'] eq[of ns i]
    show "True \<and> s3_objects contents key_prefix s' (ns, i) = None \<and> (\<forall>m j. storable m j \<and> (m, j) \<noteq> (ns, i) \<longrightarrow>
        s3_objects contents key_prefix s' (m, j) = s3_objects contents key_prefix s (m, j))"
      by (auto simp: s3_objects_def)
  next
    fix s s' ns i e
    assume "storable ns i" "s3_delete client key_prefix ns i s = (Inl e, s')"
    with del[of ns i s "Inl e" s'] eq[of ns i]
    show "True \<and> (s3_objects contents key_prefix s' (ns, i) = s3_objects contents key_prefix s (ns, i)
          \<or> s3_objects contents key_prefix s' (ns, i) = None)
        \<and> (\<forall>m j. storable m j \<and> (m, j) \<noteq> (ns, i) \<longrightarrow>
            s3_objects contents key_prefix s' (m, j) = s3_objects contents key_prefix s (m, j))"
      by (auto simp: s3_objects_def)
  qed (use get in \<open>auto simp: s3_objects_def\<close>)
qed

section \<open>Properties\<close>

text \<open>
  Under one key prefix two different objects never share an S3 key, for namespaces and ids as their
  constructors produce them.
\<close>

theorem object_key_inj:
  assumes "storable ns i" "storable m j" "object_key key_prefix ns i = object_key key_prefix m j"
  shows "ns = m \<and> i = j"
  using assms object_key_eq by blast

theorem object_key_inj_witness:
  "storable (Namespace ''a'') example_id \<and>
   object_key ''p/'' (Namespace ''a'') example_id \<noteq> object_key ''p/'' (Namespace ''b'') example_id"
proof -
  have "storable (Namespace ''a'') example_id" "storable (Namespace ''b'') example_id"
    by (simp_all add: storable_def example_id_def entry_id_ok_def)
  with object_key_inj[OF this] show ?thesis by auto
qed

end
