(* ===== verification/Registry.thy ===== *)
theory Registry
  imports Cache Turbopuffer Object_S3
begin

text \<open>
  \<^verbatim>\<open>src/registry.rs\<close>: the configuration of a namespace and \<open>build_cache\<close>, which turns it into
  the backends of a cache. Cargo features are the booleans of \<open>features\<close>, the libraries the
  constructors call those of \<open>libs\<close>. A built backend is the value its constructor returns; the
  cache over them is given by the backend records of the component theories.
\<close>

section \<open>Configuration\<close>

datatype embedding_choice =
    VoyageChoice "string option" "nat option" \<comment> \<open>model, dim\<close>
  | LocalChoice "string option"

datatype entity_choice =
    KeywordChoice "string option"
  | GlinerChoice "string list" "string option" "string option" "string option"

datatype vector_choice = MemoryChoice | TurbopufferChoice

datatype object_choice =
    DiskChoice "string option"
  | S3Choice "string option" "string option" "string option" string

record scoring_dto =
  dto_threshold :: f32
  dto_entity_filter :: bool
  dto_context :: string
  dto_context_gate :: f32
  dto_context_threshold :: f32
  dto_top_k :: nat

record namespace_config =
  cfg_embedding :: embedding_choice
  cfg_entity :: entity_choice
  cfg_vector :: vector_choice
  cfg_object :: object_choice
  cfg_scoring :: scoring_dto

fun context_name :: "context_mode \<Rightarrow> string" where
  "context_name Ignore = ''ignore''"
| "context_name Gate = ''gate''"

definition scoring_dto_default :: scoring_dto where
  "scoring_dto_default =
     (let defaults = scoring_default in
      \<lparr>dto_threshold = threshold defaults, dto_entity_filter = entity_filter defaults,
       dto_context = context_name (context_mode defaults), dto_context_gate = context_gate defaults,
       dto_context_threshold = context_threshold defaults, dto_top_k = top_k defaults\<rparr>)"

text \<open>\<open>fmt\<close> prints a float; it only reaches error messages.\<close>

definition to_config :: "(f32 \<Rightarrow> string) \<Rightarrow> scoring_dto \<Rightarrow> scoring_config res" where
  "to_config fmt dto =
     (if \<not> f32_in_range f32_zero f32_one (dto_threshold dto) then
        Inl (InvalidConfig (''threshold '' @ fmt (dto_threshold dto) @ '' must be finite and within 0.0..=1.0''))
      else if \<not> f32_in_range f32_zero f32_one (dto_context_gate dto) then
        Inl (InvalidConfig (''context_gate '' @ fmt (dto_context_gate dto) @ '' must be finite and within 0.0..=1.0''))
      else if \<not> f32_in_range f32_zero f32_one (dto_context_threshold dto) then
        Inl (InvalidConfig (''context_threshold '' @ fmt (dto_context_threshold dto)
          @ '' must be finite and within 0.0..=1.0''))
      else if f32_lt (dto_threshold dto) (dto_context_threshold dto) then
        Inl (InvalidConfig (''context_threshold '' @ fmt (dto_context_threshold dto)
          @ '' must not exceed threshold '' @ fmt (dto_threshold dto)))
      else if dto_top_k dto = 0 then Inl (InvalidConfig ''top_k must be greater than zero'')
      else
        try_bind
          (if dto_context dto = ''ignore'' then Inr Ignore
           else if dto_context dto = ''gate'' then Inr Gate
           else Inl (InvalidConfig (''unknown context mode `'' @ dto_context dto @ ''`'')))
          (\<lambda>mode. Inr \<lparr>threshold = dto_threshold dto, entity_filter = dto_entity_filter dto,
             context_mode = mode, context_gate = dto_context_gate dto,
             context_threshold = dto_context_threshold dto, top_k = dto_top_k dto\<rparr>))"

section \<open>Building the backends\<close>

record features =
  feat_voyage :: bool
  feat_local_embed :: bool
  feat_turbopuffer :: bool
  feat_keyword :: bool
  feat_gliner :: bool
  feat_s3 :: bool

definition default_features :: features where
  "default_features = \<lparr>feat_voyage = True, feat_local_embed = True, feat_turbopuffer = True,
     feat_keyword = True, feat_gliner = False, feat_s3 = True\<rparr>"

record ('m, 't, 'sw, 'i, 'g, 'cred, 'bucket) libs =
  lib_env :: env
  lib_lower :: "string \<Rightarrow> string"
  lib_fmt :: "f32 \<Rightarrow> string"
  lib_http_client :: "string + unit"
  lib_http_post :: http_post
  lib_fastembed :: "('m, 't) fastembed"
  lib_stop_words :: "string \<Rightarrow> 'sw option"
  lib_get_n_best :: "nat \<Rightarrow> string \<Rightarrow> 'sw \<Rightarrow> string list"
  lib_gliner :: "('i, 'g) gliner_lib"
  lib_s3 :: "('cred, 'bucket) s3_lib"

definition DEFAULT_VOYAGE_MODEL :: string where "DEFAULT_VOYAGE_MODEL = ''voyage-3.5-lite''"
definition DEFAULT_VOYAGE_DIM :: nat where "DEFAULT_VOYAGE_DIM = 512"

definition build_keyword ::
  "('m, 't, 'sw, 'i, 'g, 'cred, 'bucket) libs \<Rightarrow> features \<Rightarrow> string option \<Rightarrow> entity_backend res" where
  "build_keyword l feat language =
     (if feat_keyword feat then
        try_bind (case language of
                    Some lang \<Rightarrow> keyword_with_language (lib_stop_words l) lang
                  | None \<Rightarrow> keyword_new (lib_stop_words l))
          (\<lambda>sw. Inr (keyword_backend (lib_lower l) (lib_get_n_best l) sw))
      else Inl (UnknownBackend ''keyword''))"

definition build_gliner ::
  "('m, 't, 'sw, 'i, 'g, 'cred, 'bucket) libs \<Rightarrow> features \<Rightarrow> string list \<Rightarrow> string option
   \<Rightarrow> string option \<Rightarrow> string option \<Rightarrow> entity_backend res" where
  "build_gliner l feat labels repo model tokenizer =
     (if feat_gliner feat then
        try_bind (gliner_new (lib_gliner l) (lib_env l) labels repo model tokenizer)
          (\<lambda>g. Inr (gliner_backend (lib_lower l) (lib_gliner l) g))
      else Inl (UnknownBackend ''gliner''))"

fun build_entity ::
  "('m, 't, 'sw, 'i, 'g, 'cred, 'bucket) libs \<Rightarrow> features \<Rightarrow> entity_choice \<Rightarrow> entity_backend res" where
  "build_entity l feat (KeywordChoice language) = build_keyword l feat language"
| "build_entity l feat (GlinerChoice labels repo model tokenizer) =
     build_gliner l feat labels repo model tokenizer"

definition build_voyage ::
  "('m, 't, 'sw, 'i, 'g, 'cred, 'bucket) libs \<Rightarrow> features \<Rightarrow> string option \<Rightarrow> nat option
   \<Rightarrow> embedding_backend res" where
  "build_voyage l feat model dim_opt =
     (if feat_voyage feat then
        let model' = (case model of Some m \<Rightarrow> m | None \<Rightarrow> DEFAULT_VOYAGE_MODEL);
            dim_opt' = (case dim_opt of Some d \<Rightarrow> d | None \<Rightarrow> DEFAULT_VOYAGE_DIM)
        in if dim_opt' = 0 then Inl (InvalidConfig ''embedding dim must be greater than zero'')
           else try_bind (voyage_new (lib_env l) (lib_http_client l) model' dim_opt')
                  (\<lambda>v. Inr (voyage_backend (lib_http_post l) v))
      else Inl (UnknownBackend ''voyage''))"

definition build_local ::
  "('m, 't, 'sw, 'i, 'g, 'cred, 'bucket) libs \<Rightarrow> features \<Rightarrow> string option \<Rightarrow> embedding_backend res" where
  "build_local l feat model =
     (if feat_local_embed feat then
        try_bind (local_new (lib_fastembed l) (lib_env l) model) (\<lambda>e. Inr (local_backend (lib_fastembed l) e))
      else Inl (UnknownBackend ''local''))"

fun build_embedding ::
  "('m, 't, 'sw, 'i, 'g, 'cred, 'bucket) libs \<Rightarrow> features \<Rightarrow> embedding_choice \<Rightarrow> embedding_backend res" where
  "build_embedding l feat (VoyageChoice model dim_opt) = build_voyage l feat model dim_opt"
| "build_embedding l feat (LocalChoice model) = build_local l feat model"

datatype built_vector = BuiltMemory | BuiltTurbopuffer tp_store

definition build_turbopuffer ::
  "('m, 't, 'sw, 'i, 'g, 'cred, 'bucket) libs \<Rightarrow> features \<Rightarrow> built_vector res" where
  "build_turbopuffer l feat =
     (if feat_turbopuffer feat then try_bind (tp_new (lib_http_client l) (lib_env l)) (\<lambda>s. Inr (BuiltTurbopuffer s))
      else Inl (UnknownBackend ''turbopuffer''))"

fun build_vector ::
  "('m, 't, 'sw, 'i, 'g, 'cred, 'bucket) libs \<Rightarrow> features \<Rightarrow> vector_choice \<Rightarrow> built_vector res" where
  "build_vector l feat MemoryChoice = Inr BuiltMemory"
| "build_vector l feat TurbopufferChoice = build_turbopuffer l feat"

text \<open>A built object store is always wrapped in the compressor.\<close>

datatype 'bucket built_object = BuiltDisk string | BuiltS3 'bucket string

datatype 'bucket compressed_object = CompressedObject "'bucket built_object"

definition build_s3 ::
  "('m, 't, 'sw, 'i, 'g, 'cred, 'bucket) libs \<Rightarrow> features \<Rightarrow> string option \<Rightarrow> string option
   \<Rightarrow> string option \<Rightarrow> string \<Rightarrow> 'bucket built_object res" where
  "build_s3 l feat bucket region endpoint key_prefix =
     (if feat_s3 feat then
        try_bind (s3_new (lib_s3 l) (lib_env l) bucket region endpoint key_prefix)
          (\<lambda>(b, p). Inr (BuiltS3 b p))
      else Inl (UnknownBackend ''s3''))"

fun build_object ::
  "('m, 't, 'sw, 'i, 'g, 'cred, 'bucket) libs \<Rightarrow> features \<Rightarrow> object_choice \<Rightarrow> 'bucket compressed_object res" where
  "build_object l feat (DiskChoice root_opt) =
     try_bind (case root_opt of Some r \<Rightarrow> Inr r | None \<Rightarrow> with_default_root (lib_env l))
       (\<lambda>r. Inr (CompressedObject (BuiltDisk r)))"
| "build_object l feat (S3Choice bucket region endpoint key_prefix) =
     try_bind (build_s3 l feat bucket region endpoint key_prefix) (\<lambda>b. Inr (CompressedObject b))"

record 'bucket dyn_cache =
  dc_namespace :: namespace
  dc_entity :: entity_backend
  dc_embedding :: embedding_backend
  dc_vector :: built_vector
  dc_object :: "'bucket compressed_object"
  dc_scoring :: scoring_config

definition build_cache ::
  "('m, 't, 'sw, 'i, 'g, 'cred, 'bucket) libs \<Rightarrow> features \<Rightarrow> string \<Rightarrow> namespace_config
   \<Rightarrow> 'bucket dyn_cache res" where
  "build_cache l feat raw cfg =
     try_bind (namespace_new raw) (\<lambda>ns.
     try_bind (to_config (lib_fmt l) (cfg_scoring cfg)) (\<lambda>scoring.
     try_bind (build_entity l feat (cfg_entity cfg)) (\<lambda>entity.
     try_bind (build_embedding l feat (cfg_embedding cfg)) (\<lambda>embedding.
     try_bind (build_vector l feat (cfg_vector cfg)) (\<lambda>vector.
     try_bind (build_object l feat (cfg_object cfg)) (\<lambda>object.
       Inr \<lparr>dc_namespace = ns, dc_entity = entity, dc_embedding = embedding, dc_vector = vector,
            dc_object = object, dc_scoring = scoring\<rparr>))))))"

section \<open>Lemmas\<close>

definition scoring_ok :: "scoring_config \<Rightarrow> bool" where
  "scoring_ok sc \<longleftrightarrow>
     f32_in_range f32_zero f32_one (threshold sc) \<and> f32_in_range f32_zero f32_one (context_gate sc)
     \<and> f32_in_range f32_zero f32_one (context_threshold sc)
     \<and> f32_le (context_threshold sc) (threshold sc) \<and> 0 < top_k sc"

definition dto_of :: "scoring_config \<Rightarrow> scoring_dto" where
  "dto_of sc = \<lparr>dto_threshold = threshold sc, dto_entity_filter = entity_filter sc,
     dto_context = context_name (context_mode sc), dto_context_gate = context_gate sc,
     dto_context_threshold = context_threshold sc, dto_top_k = top_k sc\<rparr>"

lemma in_range_not_nan: "f32_in_range lo hi x \<Longrightarrow> \<not> f32_is_nan x"
  by (auto simp: f32_in_range_def f32_le_def)

lemma to_config_of_dto:
  assumes "scoring_ok sc"
  shows "to_config fmt (dto_of sc) = Inr sc"
proof -
  have "\<not> f32_lt (threshold sc) (context_threshold sc)"
    using assms f32_le_not_lt by (simp add: scoring_ok_def)
  then show ?thesis
    using assms by (cases "context_mode sc") (simp_all add: to_config_def dto_of_def scoring_ok_def)
qed

lemma to_config_Inr:
  assumes "to_config fmt dto = Inr sc"
  shows "scoring_ok sc \<and> dto_of sc = dto"
proof -
  have range: "f32_in_range f32_zero f32_one (dto_threshold dto)" "f32_in_range f32_zero f32_one (dto_context_gate dto)"
    "f32_in_range f32_zero f32_one (dto_context_threshold dto)"
    and rest: "\<not> f32_lt (dto_threshold dto) (dto_context_threshold dto)" "dto_top_k dto \<noteq> 0"
    "dto_context dto = ''ignore'' \<or> dto_context dto = ''gate''"
    using assms by (auto simp: to_config_def simp del: append.simps split: if_splits)
  have "f32_le (dto_context_threshold dto) (dto_threshold dto)"
    using rest(1) range in_range_not_nan by (intro f32_not_lt_le) auto
  with range rest assms show ?thesis
    by (auto simp: to_config_def scoring_ok_def dto_of_def simp del: append.simps)
qed

lemma build_entity_fast_subset_full: "build_entity l feat choice = Inr b \<Longrightarrow> fast_subset_full b"
  by (cases choice)
    (auto simp: build_keyword_def build_gliner_def result_simps keyword_fast_subset_full
      gliner_fast_subset_full split: if_splits)

lemma scoring_default_ok: "scoring_ok scoring_default"
  by (simp add: scoring_ok_def scoring_default_def DEFAULT_THRESHOLD_def DEFAULT_CONTEXT_GATE_def
      DEFAULT_CONTEXT_THRESHOLD_def DEFAULT_TOP_K_def f32_in_range_def f32_le_def f32_key_def
      f32_zero_def f32_one_def f32_eval)

section \<open>Properties\<close>

text \<open>
  A scoring configuration is accepted exactly when it is sound: the three thresholds are numbers
  between 0 and 1, the context threshold does not exceed the threshold, at least one candidate is
  requested and the mode is known; and then the configuration in force is the one that was sent. A
  namespace that sends none gets the default configuration.
\<close>

theorem to_config_iff:
  "(to_config fmt dto = Inr sc \<longleftrightarrow> scoring_ok sc \<and> dto = dto_of sc)
   \<and> to_config fmt scoring_dto_default = Inr scoring_default"
proof -
  have "scoring_dto_default = dto_of scoring_default"
    by (simp add: scoring_dto_default_def dto_of_def Let_def)
  with scoring_default_ok to_config_of_dto to_config_Inr show ?thesis by metis
qed

text \<open>
  C32. A namespace that builds has a safe name (not empty, trimmed, a single path segment that is neither
  the current nor the parent directory), a sound scoring configuration and an entity backend that keeps
  the promise of its trait.
\<close>

theorem build_cache_sound:
  assumes "build_cache l feat raw cfg = Inr dc"
  shows "namespace_new raw = Inr (dc_namespace dc)
    \<and> namespace_str (dc_namespace dc) = trim raw \<and> trim raw \<noteq> []
    \<and> CHR ''/'' \<notin> set (namespace_str (dc_namespace dc))
    \<and> namespace_str (dc_namespace dc) \<notin> {''.'', ''..''}
    \<and> scoring_ok (dc_scoring dc) \<and> fast_subset_full (dc_entity dc)"
proof -
  from assms have ns: "namespace_new raw = Inr (dc_namespace dc)"
    and sc: "to_config (lib_fmt l) (cfg_scoring cfg) = Inr (dc_scoring dc)"
    and en: "build_entity l feat (cfg_entity cfg) = Inr (dc_entity dc)"
    by (auto simp: build_cache_def result_simps)
  from build_entity_fast_subset_full[OF en] have "fast_subset_full (dc_entity dc)" .
  with namespace_new_Inr[OF ns] to_config_Inr[OF sc] ns show ?thesis by simp
qed

definition example_libs :: "(unit, unit, unit, string, unit, unit, unit) libs" where
  "example_libs = \<lparr>lib_env = (\<lambda>v. if v = ''HOME'' then Some ''/home/u'' else None), lib_lower = ascii_lower,
     lib_fmt = (\<lambda>_. ''x''), lib_http_client = Inr (), lib_http_post = (\<lambda>_ _ _. Inl ''offline''),
     lib_fastembed = \<lparr>bge_small = (), list_supported_models = [], try_new = (\<lambda>_ _. Inr ()),
       fe_embed = (\<lambda>_ texts. Inr (map (\<lambda>_. [f32_one]) texts))\<rparr>,
     lib_stop_words = (\<lambda>_. Some ()), lib_get_n_best = (\<lambda>n t _. split_whitespace t),
     lib_gliner = fallback_lib,
     lib_s3 = \<lparr>credentials_new = (\<lambda>_ _. Inr ()), parse_region = (\<lambda>r. Inr (NamedRegion r)),
       bucket_new = (\<lambda>_ _ _. Inr ()), with_path_style = (\<lambda>b. b), with_request_timeout = (\<lambda>_ b. Inr b)\<rparr>\<rparr>"

definition example_config :: namespace_config where
  "example_config = \<lparr>cfg_embedding = LocalChoice None, cfg_entity = KeywordChoice None,
     cfg_vector = MemoryChoice, cfg_object = DiskChoice None, cfg_scoring = scoring_dto_default\<rparr>"

lemma example_build: "\<exists>dc. build_cache example_libs default_features '' prod '' example_config = Inr dc"
proof -
  have "namespace_new '' prod '' = Inr (Namespace ''prod'')" by code_simp
  moreover have "to_config (lib_fmt example_libs) scoring_dto_default = Inr scoring_default"
    using to_config_of_dto[OF scoring_default_ok]
    by (simp add: scoring_dto_default_def dto_of_def Let_def)
  ultimately show ?thesis
    by (simp add: build_cache_def example_config_def default_features_def build_keyword_def keyword_new_def
        keyword_with_language_def build_local_def local_new_def dim_new_def MODEL_DIM_def with_default_root_def
        example_libs_def)
qed

theorem build_cache_sound_witness:
  "\<exists>dc. build_cache example_libs default_features '' prod '' example_config = Inr dc
     \<and> namespace_new '' prod '' = Inr (dc_namespace dc) \<and> scoring_ok (dc_scoring dc)"
proof -
  from example_build obtain dc where "build_cache example_libs default_features '' prod '' example_config = Inr dc" ..
  with build_cache_sound[OF this] show ?thesis by blast
qed

text \<open>
  A backend whose feature is not compiled in is reported as unknown and never replaced by another:
  if a cache builds, the feature of every backend it was configured with is enabled.
\<close>

theorem build_cache_features:
  assumes "build_cache l feat raw cfg = Inr dc"
  shows "(case cfg_embedding cfg of VoyageChoice _ _ \<Rightarrow> feat_voyage feat | LocalChoice _ \<Rightarrow> feat_local_embed feat)
    \<and> (case cfg_entity cfg of KeywordChoice _ \<Rightarrow> feat_keyword feat | GlinerChoice _ _ _ _ \<Rightarrow> feat_gliner feat)
    \<and> (cfg_vector cfg = TurbopufferChoice \<longrightarrow> feat_turbopuffer feat \<and> dc_vector dc \<noteq> BuiltMemory)
    \<and> (case cfg_object cfg of
         DiskChoice root_opt \<Rightarrow> (\<exists>r. dc_object dc = CompressedObject (BuiltDisk r) \<and> (root_opt = None \<or> root_opt = Some r))
       | S3Choice _ _ _ key_prefix \<Rightarrow> feat_s3 feat \<and> (\<exists>b. dc_object dc = CompressedObject (BuiltS3 b key_prefix)))"
proof -
  from assms have en: "build_entity l feat (cfg_entity cfg) = Inr (dc_entity dc)"
    and em: "build_embedding l feat (cfg_embedding cfg) = Inr (dc_embedding dc)"
    and ve: "build_vector l feat (cfg_vector cfg) = Inr (dc_vector dc)"
    and ob: "build_object l feat (cfg_object cfg) = Inr (dc_object dc)"
    by (auto simp: build_cache_def result_simps)
  from en have 1: "case cfg_entity cfg of KeywordChoice _ \<Rightarrow> feat_keyword feat | GlinerChoice _ _ _ _ \<Rightarrow> feat_gliner feat"
    by (cases "cfg_entity cfg") (auto simp: build_keyword_def build_gliner_def split: if_splits)
  from em have 2: "case cfg_embedding cfg of VoyageChoice _ _ \<Rightarrow> feat_voyage feat | LocalChoice _ \<Rightarrow> feat_local_embed feat"
    by (cases "cfg_embedding cfg") (auto simp: build_voyage_def build_local_def split: if_splits)
  from ve have 3: "cfg_vector cfg = TurbopufferChoice \<longrightarrow> feat_turbopuffer feat \<and> dc_vector dc \<noteq> BuiltMemory"
    by (auto simp: build_turbopuffer_def result_simps split: if_splits dest: sym)
  from ob have 4: "case cfg_object cfg of
         DiskChoice root_opt \<Rightarrow> (\<exists>r. dc_object dc = CompressedObject (BuiltDisk r) \<and> (root_opt = None \<or> root_opt = Some r))
       | S3Choice _ _ _ key_prefix \<Rightarrow> feat_s3 feat \<and> (\<exists>b. dc_object dc = CompressedObject (BuiltS3 b key_prefix))"
    by (cases "cfg_object cfg")
      (auto simp: build_s3_def s3_new_def result_simps split: if_splits option.splits dest: sym)
  from 1 2 3 4 show ?thesis by blast
qed

theorem build_cache_features_witness:
  "\<exists>dc r. build_cache example_libs default_features '' prod '' example_config = Inr dc
     \<and> dc_object dc = CompressedObject (BuiltDisk r)"
proof -
  from example_build obtain dc where "build_cache example_libs default_features '' prod '' example_config = Inr dc" ..
  with build_cache_features[OF this] show ?thesis by (auto simp: example_config_def)
qed

end
