(* ===== verification/Protocol.thy ===== *)
theory Protocol
  imports Errors
begin

text \<open>
  \<^verbatim>\<open>src/protocol.rs\<close>: the messages between client and daemon and their framing, a four-byte
  big-endian length followed by the encoded message. The postcard codec is a parameter, with its round
  trip as the named hypothesis \<open>codec_ok\<close>; readers and writers are byte streams that may end or
  fail early.
\<close>

section \<open>Messages\<close>

definition PROTOCOL_VERSION :: nat where "PROTOCOL_VERSION = 1"
definition MAX_FRAME_BYTES :: nat where "MAX_FRAME_BYTES = 64 * 1024 * 1024"
definition READ_CHUNK_BYTES :: nat where "READ_CHUNK_BYTES = 64 * 1024"

datatype client_id = ClientId bytes

definition client_id_generate :: "bytes \<Rightarrow> client_id" where
  "client_id_generate new_v4 = ClientId new_v4"

fun client_id_serialize :: "client_id \<Rightarrow> bytes" where
  "client_id_serialize (ClientId b) = b"

definition client_id_deserialize :: "bytes \<Rightarrow> client_id option" where
  "client_id_deserialize b = (if length b = 16 then Some (ClientId b) else None)"

datatype request =
    Hello client_id nat nat \<comment> \<open>client, protocol, pid\<close>
  | RegisterNamespace string string \<comment> \<open>namespace, config\<close>
  | Get string string "string list" "string option" \<comment> \<open>namespace, query, keys, context\<close>
  | Set string string "string list" "string option" bytes
  | Del string string "string list" "string option"
  | Ping
  | Bye

datatype response =
    Welcome string nat \<comment> \<open>daemon version, protocol\<close>
  | Registered
  | Value "bytes option"
  | Accepted bool
  | Deleted bool
  | Pong
  | Goodbye
  | ErrorResponse protocol_error

section \<open>Codec\<close>

record 'm codec =
  to_stdvec :: "'m \<Rightarrow> string + bytes"
  from_bytes :: "bytes \<Rightarrow> string + 'm"

definition codec_ok :: "'m codec \<Rightarrow> bool" where
  "codec_ok c \<longleftrightarrow> (\<forall>m b. to_stdvec c m = Inr b \<longrightarrow> from_bytes c b = Inr m)"

definition encode :: "'m codec \<Rightarrow> 'm \<Rightarrow> bytes res" where
  "encode c m = map_err Codec (to_stdvec c m)"

definition decode :: "'m codec \<Rightarrow> bytes \<Rightarrow> 'm res" where
  "decode c b = map_err Codec (from_bytes c b)"

section \<open>Streams\<close>

text \<open>A writer accepts bytes until its room is used up; a reader hands out what is left of its input,
  and \<open>read_exact\<close> fails at the end of it.\<close>

record sink =
  written :: bytes
  room :: "nat option"

definition write_all :: "bytes \<Rightarrow> sink \<Rightarrow> (io_error + unit) \<times> sink" where
  "write_all b w =
     (case room w of
        None \<Rightarrow> (Inr (), w\<lparr>written := written w @ b\<rparr>)
      | Some r \<Rightarrow>
          if length b \<le> r then (Inr (), w\<lparr>written := written w @ b, room := Some (r - length b)\<rparr>)
          else (Inl (IoError (OtherKind ''BrokenPipe'') ''Broken pipe (os error 32)''),
                w\<lparr>written := written w @ take r b, room := Some 0\<rparr>))"

definition read_exact :: "nat \<Rightarrow> bytes \<Rightarrow> (io_error + bytes) \<times> bytes" where
  "read_exact n input =
     (if n \<le> length input then (Inr (take n input), drop n input)
      else (Inl (IoError UnexpectedEof ''failed to fill whole buffer''), []))"

definition lift_io :: "('s \<Rightarrow> (io_error + 'a) \<times> 's) \<Rightarrow> 's \<Rightarrow> 'a res \<times> 's" where
  "lift_io m s = (case m s of (r, s') \<Rightarrow> (map_err Io r, s'))"

section \<open>Frames\<close>

definition write_frame :: "'m codec \<Rightarrow> 'm \<Rightarrow> sink \<Rightarrow> unit res \<times> sink" where
  "write_frame c m w =
     (case encode c m of
        Inl e \<Rightarrow> (Inl e, w)
      | Inr body \<Rightarrow>
          if length body > MAX_FRAME_BYTES then
            (Inl (Daemon (''frame too large: '' @ show_nat (length body) @ '' bytes (max ''
               @ show_nat MAX_FRAME_BYTES @ '')'')), w)
          else if length body \<ge> 2 ^ 32 then
            (Inl (Daemon (''frame too large: '' @ show_nat (length body) @ '' bytes'')), w)
          else try_state (lift_io (write_all (to_be_bytes 4 (length body)))) (\<lambda>_.
               try_state (lift_io (write_all body)) (\<lambda>_ w'. (Inr (), w'))) w)"

lemma read_exact_length: "fst (read_exact n input) = Inr b \<Longrightarrow> length b = n"
  by (auto simp: read_exact_def split: if_splits)

text \<open>The loop of \<open>read_body\<close>: the buffer grows by one chunk at a time.\<close>

function read_body_loop :: "nat \<Rightarrow> bytes \<Rightarrow> bytes \<Rightarrow> bytes res \<times> bytes" where
  "read_body_loop len body input =
     (if length body < len then
        (case fst (read_exact (min (len - length body) READ_CHUNK_BYTES) input) of
           Inl e \<Rightarrow> (Inl (Io e), snd (read_exact (min (len - length body) READ_CHUNK_BYTES) input))
         | Inr chunk \<Rightarrow> read_body_loop len (body @ chunk)
             (snd (read_exact (min (len - length body) READ_CHUNK_BYTES) input)))
      else (Inr body, input))"
  by pat_completeness auto

termination
  by (relation "measure (\<lambda>(len, body, _). len - length body)")
    (auto dest!: read_exact_length simp: READ_CHUNK_BYTES_def)

declare read_body_loop.simps [simp del]

definition read_body :: "nat \<Rightarrow> bytes \<Rightarrow> bytes res \<times> bytes" where
  "read_body len input = read_body_loop len [] input"

definition read_frame :: "'m codec \<Rightarrow> bytes \<Rightarrow> 'm res \<times> bytes" where
  "read_frame c =
     try_state (lift_io (read_exact 4)) (\<lambda>len_buf input.
       let len = from_be_bytes len_buf in
       if len > MAX_FRAME_BYTES then
         (Inl (Daemon (''frame too large: '' @ show_nat len @ '' bytes'')), input)
       else try_state (read_body len) (\<lambda>body input'. (decode c body, input')) input)"

section \<open>Reading in chunks is reading at once\<close>

lemma read_body_loop_eq:
  "length body \<le> len \<Longrightarrow> read_body_loop len body input =
     (if len - length body \<le> length input
      then (Inr (body @ take (len - length body) input), drop (len - length body) input)
      else (Inl (Io (IoError UnexpectedEof ''failed to fill whole buffer'')), []))"
proof (induction len body input rule: read_body_loop.induct)
  case (1 len body input)
  define w where "w = min (len - length body) READ_CHUNK_BYTES"
  have w: "w \<le> len - length body" by (simp add: w_def)
  note IH = 1(1)[folded w_def] and step = read_body_loop.simps[of len body input, folded w_def]
  show ?case
  proof (cases "length body < len")
    case True
    show ?thesis
    proof (cases "w \<le> length input")
      case ok: True
      then have r: "read_exact w input = (Inr (take w input), drop w input)"
        by (simp add: read_exact_def)
      have l: "length (body @ take w input) = length body + w" using ok by simp
      have "read_body_loop len body input = read_body_loop len (body @ take w input) (drop w input)"
        using True r by (simp add: step)
      also have "\<dots> = (if len - (length body + w) \<le> length (drop w input)
          then (Inr ((body @ take w input) @ take (len - (length body + w)) (drop w input)),
                drop (len - (length body + w)) (drop w input))
          else (Inl (Io (IoError UnexpectedEof ''failed to fill whole buffer'')), []))"
        using IH[OF True, of "take w input"] r w l True by simp
      moreover have n: "w + (len - (length body + w)) = len - length body" using w True by simp
      moreover have "take w input @ take (len - (length body + w)) (drop w input) = take (len - length body) input"
        by (metis n take_add)
      moreover have "drop (len - (length body + w)) (drop w input) = drop (len - length body) input"
        by (metis n drop_drop add.commute)
      moreover have "len - (length body + w) \<le> length (drop w input) \<longleftrightarrow> len - length body \<le> length input"
        using ok w True by auto
      ultimately show ?thesis by simp
    next
      case False
      with True w show ?thesis by (simp add: step read_exact_def)
    qed
  next
    case False
    with 1(2) show ?thesis by (simp add: step)
  qed
qed

lemma read_body_eq: "read_body len input = lift_io (read_exact len) input"
  by (simp add: read_body_def read_body_loop_eq lift_io_def read_exact_def)

section \<open>Properties\<close>

definition empty_sink :: sink where
  "empty_sink = \<lparr>written = [], room = None\<rparr>"

lemma write_all_ok: "write_all b w = (Inr (), w') \<Longrightarrow> written w' = written w @ b"
  by (auto simp: write_all_def split: option.splits if_splits)

lemma write_frame_written:
  assumes "write_frame c m w = (Inr (), w')"
  shows "\<exists>body. encode c m = Inr body \<and> length body \<le> MAX_FRAME_BYTES
    \<and> written w' = written w @ to_be_bytes 4 (length body) @ body"
proof -
  obtain body where body: "encode c m = Inr body"
    using assms by (cases "encode c m") (auto simp: write_frame_def)
  with assms have len: "length body \<le> MAX_FRAME_BYTES"
    by (auto simp: write_frame_def split: if_splits)
  with body assms obtain w1 where "write_all (to_be_bytes 4 (length body)) w = (Inr (), w1)"
    "write_all body w1 = (Inr (), w')"
    by (auto simp: write_frame_def try_state_def lift_io_def map_err_def
        split: if_splits prod.splits sum.splits)
  with write_all_ok body len show ?thesis by fastforce
qed

lemma read_frame_written:
  assumes "codec_ok c" "encode c m = Inr body" "length body \<le> MAX_FRAME_BYTES"
  shows "read_frame c (to_be_bytes 4 (length body) @ body @ rest) = (Inr m, rest)"
proof -
  have "from_be_bytes (to_be_bytes 4 (length body)) = length body"
    using assms(3) by (intro from_to_be_bytes) (simp add: MAX_FRAME_BYTES_def)
  moreover have "decode c body = Inr m"
    using assms(1,2) by (auto simp: encode_def decode_def codec_ok_def map_err_def split: sum.splits)
  ultimately show ?thesis
    using assms(3) by (simp add: read_frame_def try_state_def lift_io_def read_exact_def read_body_eq)
qed

text \<open>Writing one message after the other, and reading as many.\<close>

fun write_frames :: "'m codec \<Rightarrow> 'm list \<Rightarrow> sink \<Rightarrow> unit res \<times> sink" where
  "write_frames c [] w = (Inr (), w)"
| "write_frames c (m # ms) w =
     (case write_frame c m w of (Inl e, w') \<Rightarrow> (Inl e, w') | (Inr _, w') \<Rightarrow> write_frames c ms w')"

fun read_frames :: "'m codec \<Rightarrow> nat \<Rightarrow> bytes \<Rightarrow> 'm list res \<times> bytes" where
  "read_frames c 0 input = (Inr [], input)"
| "read_frames c (Suc n) input =
     (case read_frame c input of
        (Inl e, input') \<Rightarrow> (Inl e, input')
      | (Inr m, input') \<Rightarrow>
          (case read_frames c n input' of (Inl e, i) \<Rightarrow> (Inl e, i) | (Inr ms, i) \<Rightarrow> (Inr (m # ms), i)))"

lemma frames_round_trip:
  assumes "codec_ok c" "write_frames c ms w = (Inr (), w')"
  shows "\<exists>b. written w' = written w @ b \<and> read_frames c (length ms) (b @ rest) = (Inr ms, rest)"
  using assms(2)
proof (induction ms arbitrary: w)
  case (Cons m ms)
  then obtain w1 where w1: "write_frame c m w = (Inr (), w1)" "write_frames c ms w1 = (Inr (), w')"
    by (auto split: prod.splits sum.splits)
  from write_frame_written[OF w1(1)] obtain body where body: "encode c m = Inr body"
    "length body \<le> MAX_FRAME_BYTES" "written w1 = written w @ to_be_bytes 4 (length body) @ body" by blast
  from Cons.IH[OF w1(2)] obtain b where b: "written w' = written w1 @ b"
    "read_frames c (length ms) (b @ rest) = (Inr ms, rest)" by blast
  let ?b = "(to_be_bytes 4 (length body) @ body) @ b"
  have "read_frame c (?b @ rest) = (Inr m, b @ rest)"
    using read_frame_written[OF assms(1) body(1,2), of "b @ rest"] by simp
  with b body(3) show ?case by (intro exI[of _ ?b]) simp
qed simp

text \<open>
  C30. Framing is a lossless channel: whatever messages are written one after the other, as many reads of
  the bytes that reached the stream give back exactly these messages in order and leave what follows
  untouched.
\<close>

theorem frames_lossless:
  assumes "codec_ok c" and "write_frames c ms empty_sink = (Inr (), w)"
  shows "read_frames c (length ms) (written w @ rest) = (Inr ms, rest)"
  using frames_round_trip[OF assms, of rest] by (auto simp: empty_sink_def)

definition example_codec :: "byte codec" where
  "example_codec = \<lparr>to_stdvec = (\<lambda>m. Inr [m, m]),
     from_bytes = (\<lambda>b. case b of x # _ \<Rightarrow> Inr x | [] \<Rightarrow> Inl ''unexpected end'')\<rparr>"

lemma example_codec_ok: "codec_ok example_codec"
  by (auto simp: codec_ok_def example_codec_def)

theorem frames_lossless_witness:
  "\<exists>w. write_frames example_codec [5, 7] empty_sink = (Inr (), w)
     \<and> read_frames example_codec 2 (written w @ [9]) = (Inr [5, 7], [9])"
proof -
  have "\<exists>w. write_frames example_codec [5, 7] empty_sink = (Inr (), w)"
    by (simp add: write_frame_def encode_def example_codec_def MAX_FRAME_BYTES_def try_state_def
        lift_io_def write_all_def empty_sink_def)
  with frames_lossless[OF example_codec_ok, of "[5, 7]"] show ?thesis
    by (metis One_nat_def Suc_1 length_Cons list.size(3))
qed

text \<open>
  Reading a body in chunks always ends and gives the same result as reading it at once: the announced
  number of bytes, or an end-of-file error when fewer arrive; and a frame whose announced length exceeds the limit is refused after
  four bytes, before anything else is read.
\<close>

theorem read_frame_bounded:
  "read_body len input =
     (if len \<le> length input then (Inr (take len input), drop len input)
      else (Inl (Io (IoError UnexpectedEof ''failed to fill whole buffer'')), []))
   \<and> (from_be_bytes (take 4 input) \<le> MAX_FRAME_BYTES \<or> length input < 4
      \<or> (\<exists>m. read_frame c input = (Inl (Daemon m), drop 4 input)))"
  by (auto simp: read_body_eq lift_io_def read_exact_def read_frame_def try_state_def)

text \<open>
  A message whose encoding exceeds 64 MiB is refused by the sender with an error and nothing of it
  reaches the stream; the second size check of the code, that the length fits 32 bits, never fires.
\<close>

theorem write_frame_refuses_large:
  assumes "encode c m = Inr body"
  shows "(length body > MAX_FRAME_BYTES \<longrightarrow> (\<exists>e. write_frame c m w = (Inl (Daemon e), w)))
    \<and> (length body \<le> MAX_FRAME_BYTES \<longrightarrow> room w = None \<longrightarrow> fst (write_frame c m w) = Inr ())"
proof -
  have "length body < 2 ^ 32" if "length body \<le> MAX_FRAME_BYTES"
    using that by (simp add: MAX_FRAME_BYTES_def)
  then show ?thesis
    using assms by (auto simp: write_frame_def try_state_def lift_io_def write_all_def not_le)
qed

theorem write_frame_refuses_large_witness:
  "encode example_codec 5 = Inr [5, 5] \<and> fst (write_frame example_codec 5 empty_sink) = Inr ()"
proof -
  have e: "encode example_codec 5 = Inr [5, 5]" by (simp add: encode_def example_codec_def)
  then show ?thesis
    using write_frame_refuses_large[OF e, of empty_sink] by (simp add: MAX_FRAME_BYTES_def empty_sink_def)
qed

end
