(* ===== verification/Daemon_State.thy ===== *)
theory Daemon_State
  imports Write_Behind Registry Protocol
begin

text \<open>
  \<^verbatim>\<open>src/daemon/state.rs\<close> and \<^verbatim>\<open>src/daemon/inference.rs\<close>: the state shared by all
  connections (the namespace registry, the build locks, the inference pool and the write queue) and
  the caches it holds. A built cache owns its vector store; the disk, the turbopuffer service and the
  S3 service are shared by all namespaces. Jobs of the queue carry the namespace whose cache and
  shadow they refer to.
\<close>

section \<open>The backends behind a built cache\<close>

text \<open>What a boxed vector store holds, and its methods over that and the remote service.\<close>

datatype vector_state = MemoryState memory_store | TurbopufferState tp_store

definition on_memory :: "(memory_store \<Rightarrow> 'r \<times> memory_store) \<Rightarrow> memory_store \<Rightarrow> 'w \<Rightarrow> 'r \<times> (vector_state \<times> 'w)" where
  "on_memory f m w = (case f m of (r, m') \<Rightarrow> (r, (MemoryState m', w)))"

definition on_service :: "(tp_store \<times> 'w \<Rightarrow> 'r \<times> (tp_store \<times> 'w)) \<Rightarrow> tp_store \<Rightarrow> 'w \<Rightarrow> 'r \<times> (vector_state \<times> 'w)" where
  "on_service f t w = (case f (t, w) of (r, (t', w')) \<Rightarrow> (r, (TurbopufferState t', w')))"

definition on_vector ::
  "(memory_store \<Rightarrow> 'r \<times> memory_store) \<Rightarrow> (tp_store \<times> 'w \<Rightarrow> 'r \<times> (tp_store \<times> 'w))
   \<Rightarrow> vector_state \<times> 'w \<Rightarrow> 'r \<times> (vector_state \<times> 'w)" where
  "on_vector f g vw =
     (case vw of (MemoryState m, w) \<Rightarrow> on_memory f m w | (TurbopufferState t, w) \<Rightarrow> on_service g t w)"

definition boxed_vector :: "memory_store vector_backend \<Rightarrow> (tp_store \<times> 'w) vector_backend \<Rightarrow> (vector_state \<times> 'w) vector_backend" where
  "boxed_vector m t =
     \<lparr>vb_upsert = (\<lambda>ns e. on_vector (vb_upsert m ns e) (vb_upsert t ns e)),
      vb_query = (\<lambda>ns v c f k. on_vector (vb_query m ns v c f k) (vb_query t ns v c f k)),
      vb_delete = (\<lambda>ns i. on_vector (vb_delete m ns i) (vb_delete t ns i))\<rparr>"

definition on_fst :: "('a \<Rightarrow> 'r \<times> 'a) \<Rightarrow> 'a \<times> 'b \<Rightarrow> 'r \<times> ('a \<times> 'b)" where
  "on_fst f ab = (case f (fst ab) of (r, a) \<Rightarrow> (r, (a, snd ab)))"

definition on_snd :: "('b \<Rightarrow> 'r \<times> 'b) \<Rightarrow> 'a \<times> 'b \<Rightarrow> 'r \<times> ('a \<times> 'b)" where
  "on_snd f ab = (case f (snd ab) of (r, b) \<Rightarrow> (r, (fst ab, b)))"

definition boxed_fst :: "'a object_backend \<Rightarrow> ('a \<times> 'b) object_backend" where
  "boxed_fst b = \<lparr>ob_put = (\<lambda>ns i v. on_fst (ob_put b ns i v)), ob_get = (\<lambda>ns i. on_fst (ob_get b ns i)),
     ob_delete = (\<lambda>ns i. on_fst (ob_delete b ns i))\<rparr>"

definition boxed_snd :: "'b object_backend \<Rightarrow> ('a \<times> 'b) object_backend" where
  "boxed_snd b = \<lparr>ob_put = (\<lambda>ns i v. on_snd (ob_put b ns i v)), ob_get = (\<lambda>ns i. on_snd (ob_get b ns i)),
     ob_delete = (\<lambda>ns i. on_snd (ob_delete b ns i))\<rparr>"

text \<open>The libraries and the machine a daemon runs on.\<close>

record ('m, 't, 'sw, 'i, 'g, 'cred, 'bucket, 'w, 's) host =
  h_libs :: "('m, 't, 'sw, 'i, 'g, 'cred, 'bucket) libs"
  h_features :: features
  h_ln :: "f32 \<Rightarrow> f32"
  h_order :: "entry_id \<Rightarrow> nat"
  h_term_order :: "string \<Rightarrow> nat"
  h_zstd :: zstd
  h_fault :: fault
  h_pid :: nat
  h_tp :: "'w tp_http"
  h_s3 :: "'bucket \<Rightarrow> 's s3_client"
  h_new_v5 :: "bytes \<Rightarrow> bytes \<Rightarrow> bytes"
  h_parse_config :: "string \<Rightarrow> string + namespace_config"

type_synonym ('w, 's) daemon_cache = "(vector_state \<times> 'w, disk \<times> 's) cache"

fun boxed_object ::
  "('m, 't, 'sw, 'i, 'g, 'cred, 'bucket, 'w, 's) host \<Rightarrow> 'bucket built_object \<Rightarrow> (disk \<times> 's) object_backend" where
  "boxed_object h (BuiltDisk root_dir) = boxed_fst (disk_backend (h_fault h) (h_pid h) root_dir)"
| "boxed_object h (BuiltS3 bucket key_prefix) = boxed_snd (s3_backend (h_s3 h bucket) key_prefix)"

fun initial_vector :: "built_vector \<Rightarrow> vector_state" where
  "initial_vector BuiltMemory = MemoryState memory_new"
| "initial_vector (BuiltTurbopuffer t) = TurbopufferState t"

definition realize ::
  "('m, 't, 'sw, 'i, 'g, 'cred, 'bucket, 'w, 's) host \<Rightarrow> 'bucket dyn_cache \<Rightarrow> ('w, 's) daemon_cache" where
  "realize h dc =
     cache_new (dc_namespace dc) (dc_entity dc) (dc_embedding dc)
       (boxed_vector (memory_backend (lib_lower (h_libs h)) (h_ln h) (h_order h) (h_term_order h))
          (tp_backend (h_tp h)))
       (case dc_object dc of CompressedObject b \<Rightarrow> compressed_store (h_zstd h) (boxed_object h b))
       (dc_scoring dc)"

section \<open>Shared state\<close>

record ('w, 's) namespace_entry =
  ne_cache :: "('w, 's) daemon_cache"
  ne_pending :: pending_writes
  ne_vector :: vector_state

record ('w, 's) daemon_state =
  ds_registry :: "string \<rightharpoonup> ('w, 's) namespace_entry"
  ds_registry_poisoned :: bool
  ds_build_locks :: "string \<rightharpoonup> nat"
  ds_build_locks_poisoned :: bool
  ds_pool_open :: bool
  ds_queue :: "(string \<times> write_job) list"
  ds_next_arc :: nat
  ds_service :: 'w
  ds_objects :: "disk \<times> 's"

definition daemon_state_new :: "'w \<Rightarrow> disk \<times> 's \<Rightarrow> ('w, 's) daemon_state" where
  "daemon_state_new w obs = \<lparr>ds_registry = Map.empty, ds_registry_poisoned = False,
     ds_build_locks = Map.empty, ds_build_locks_poisoned = False, ds_pool_open = True, ds_queue = [],
     ds_next_arc = 0, ds_service = w, ds_objects = obs\<rparr>"

definition state_resolve :: "('w, 's) daemon_state \<Rightarrow> string \<Rightarrow> ('w, 's) namespace_entry option res" where
  "state_resolve st namespace =
     (if ds_registry_poisoned st then Inl (Daemon ''registry lock poisoned'')
      else Inr (ds_registry st namespace))"

definition state_register ::
  "string \<Rightarrow> ('w, 's) namespace_entry \<Rightarrow> ('w, 's) daemon_state \<Rightarrow> unit res \<times> ('w, 's) daemon_state" where
  "state_register namespace entry st =
     (if ds_registry_poisoned st then (Inl (Daemon ''registry lock poisoned''), st)
      else (Inr (), st\<lparr>ds_registry := (ds_registry st)(namespace \<mapsto> entry)\<rparr>))"

text \<open>A lock is the number under which it was created.\<close>

definition state_build_lock :: "string \<Rightarrow> ('w, 's) daemon_state \<Rightarrow> nat res \<times> ('w, 's) daemon_state" where
  "state_build_lock namespace st =
     (if ds_build_locks_poisoned st then (Inl (Daemon ''build-locks lock poisoned''), st)
      else case ds_build_locks st namespace of
             Some lock \<Rightarrow> (Inr lock, st)
           | None \<Rightarrow> let lock = card (dom (ds_build_locks st))
                     in (Inr lock, st\<lparr>ds_build_locks := (ds_build_locks st)(namespace \<mapsto> lock)\<rparr>))"

section \<open>The inference pool\<close>

text \<open>\<open>run\<close> sends the work to the pool and waits for its answer. Work that panics (\<open>None\<close>) drops
  the answering channel; a pool without workers refuses the job.\<close>

definition inference_run :: "('st \<Rightarrow> bool) \<Rightarrow> ('st \<Rightarrow> 'r option \<times> 'st) \<Rightarrow> 'st \<Rightarrow> 'r res \<times> 'st" where
  "inference_run pool_open work st =
     (if pool_open st then
        case work st of
          (Some value, st') \<Rightarrow> (Inr value, st')
        | (None, st') \<Rightarrow> (Inl DaemonShutdown, st')
      else (Inl DaemonShutdown, st))"

text \<open>Running an operation of a namespace's cache against the daemon's stores.\<close>

definition on_cache ::
  "string \<Rightarrow> ('w, 's) namespace_entry
   \<Rightarrow> (('w, 's) daemon_cache \<Rightarrow> (vector_state \<times> 'w) \<times> (disk \<times> 's) \<Rightarrow> 'r \<times> ((vector_state \<times> 'w) \<times> (disk \<times> 's)))
   \<Rightarrow> ('w, 's) daemon_state \<Rightarrow> 'r \<times> ('w, 's) daemon_state" where
  "on_cache namespace entry f st =
     (case f (ne_cache entry) ((ne_vector entry, ds_service st), ds_objects st) of
        (r, ((v, w), obs)) \<Rightarrow>
          (r, st\<lparr>ds_registry := (ds_registry st)(namespace \<mapsto> entry\<lparr>ne_vector := v\<rparr>),
                 ds_service := w, ds_objects := obs\<rparr>))"

definition set_pending ::
  "string \<Rightarrow> ('w, 's) namespace_entry \<Rightarrow> pending_writes \<Rightarrow> ('w, 's) daemon_state \<Rightarrow> ('w, 's) daemon_state" where
  "set_pending namespace entry p st =
     st\<lparr>ds_registry := (ds_registry st)(namespace \<mapsto> entry\<lparr>ne_pending := p\<rparr>)\<rparr>"

section \<open>A write job run without interruption\<close>

text \<open>A job holds the cache and the shadow it was made for, which are those registered under its
  namespace: registrations are never taken back.\<close>

definition write_job_run ::
  "(bytes \<Rightarrow> bytes \<Rightarrow> bytes) \<Rightarrow> string \<Rightarrow> write_job \<Rightarrow> ('w, 's) daemon_state \<Rightarrow> ('w, 's) daemon_state" where
  "write_job_run new_v5 namespace job st =
     (case ds_registry st namespace of
        None \<Rightarrow> st
      | Some entry \<Rightarrow>
          case cache_prepare new_v5 (ne_cache entry) (job_query job) (job_keys job) (job_context job) of
            Inl e \<Rightarrow> st
          | Inr prepared \<Rightarrow>
              if pending_holds (job_id job) (job_value job) (ne_pending entry) = Inr True then
                let st = snd (on_cache namespace entry (\<lambda>c. cache_commit c prepared (arc_bytes (job_value job))) st)
                in case ds_registry st namespace of
                     None \<Rightarrow> st
                   | Some entry \<Rightarrow>
                       set_pending namespace entry (snd (pending_remove_if (job_id job) (job_value job) (ne_pending entry))) st
              else st)"

text \<open>The turn of a worker: it takes the oldest job and runs it.\<close>

definition worker_turn :: "(bytes \<Rightarrow> bytes \<Rightarrow> bytes) \<Rightarrow> ('w, 's) daemon_state \<Rightarrow> ('w, 's) daemon_state" where
  "worker_turn new_v5 st =
     (case ds_queue st of
        [] \<Rightarrow> st
      | (namespace, job) # queue \<Rightarrow> write_job_run new_v5 namespace job (st\<lparr>ds_queue := queue\<rparr>))"

end
