(* ===== verification/Built_Cache.thy ===== *)
theory Built_Cache
  imports Daemon_State
begin

text \<open>
  Every cache the registry can build, whatever its backends: the boxed vector store is the in-memory one or
  turbopuffer, the boxed object store the disk or an S3 bucket, always behind the compressor
  (\<^verbatim>\<open>src/registry.rs\<close>, \<^verbatim>\<open>src/vector.rs\<close>, \<^verbatim>\<open>src/object.rs\<close>). The contracts of the backends carry over
  to the boxed ones, so that the lemmas of the locale \<open>cache_contract\<close> hold of the built caches, under
  the documented behaviour of the two services.
\<close>

section \<open>What the boxed stores hold\<close>

fun vector_entries ::
  "('w \<Rightarrow> string \<Rightarrow> string \<Rightarrow> vector_entry option) \<Rightarrow> vector_state \<times> 'w \<Rightarrow> namespace \<Rightarrow> entry_id \<Rightarrow> vector_entry option" where
  "vector_entries rows (MemoryState m, w) = memory_entries m"
| "vector_entries rows (TurbopufferState t, w) = tp_entries rows (t, w)"

text \<open>A turbopuffer store is well-formed for a namespace whose URL addresses it.\<close>

fun vector_ok ::
  "(string \<Rightarrow> string) \<Rightarrow> ('w \<Rightarrow> string \<Rightarrow> string \<Rightarrow> vector_entry option) \<Rightarrow> namespace \<Rightarrow> vector_state \<times> 'w \<Rightarrow> bool" where
  "vector_ok lower rows ns (MemoryState m, w) \<longleftrightarrow> memory_ok lower m"
| "vector_ok lower rows ns (TurbopufferState t, w) \<longleftrightarrow> tp_ok lower rows (t, w) \<and> tp_addressed ns t"

fun built_objects ::
  "('bucket \<Rightarrow> 's \<Rightarrow> string \<Rightarrow> bytes option) \<Rightarrow> 'bucket built_object \<Rightarrow> disk \<times> 's \<Rightarrow> namespace \<times> entry_id \<Rightarrow> bytes option" where
  "built_objects buckets (BuiltDisk root_dir) = (\<lambda>obs. disk_objects root_dir (fst obs))"
| "built_objects buckets (BuiltS3 bucket key_prefix) = (\<lambda>obs. s3_objects (buckets bucket) key_prefix (snd obs))"

section \<open>The contracts of the boxed stores\<close>

text \<open>A store whose operations work on a part of the state.\<close>

lemma object_store_part:
  assumes base: "object_store put0 get0 delete0 objects invar usable"
    and put: "\<And>ns i v s r s'. put1 ns i v s = (r, s') \<Longrightarrow> put0 ns i v (part s) = (r, part s')"
    and get: "\<And>ns i s r s'. get1 ns i s = (r, s') \<Longrightarrow> get0 ns i (part s) = (r, part s')"
      "\<And>ns i s r s'. get1 ns i s = (r, s') \<Longrightarrow> part s' = part s \<Longrightarrow> s' = s"
    and del: "\<And>ns i s r s'. delete1 ns i s = (r, s') \<Longrightarrow> delete0 ns i (part s) = (r, part s')"
  shows "object_store put1 get1 delete1 (\<lambda>s. objects (part s)) (\<lambda>s. invar (part s)) usable"
proof -
  note os = object_store.put_ok[OF base] object_store.put_err[OF base] object_store.get_frame[OF base]
    object_store.get_ok[OF base] object_store.delete_ok[OF base] object_store.delete_err[OF base]
  show ?thesis
    by (rule object_store.intro; (rule os(1)[OF _ _ put] os(2)[OF _ _ put] os(4)[OF _ _ get(1)] os(5)[OF _ _ del] os(6)[OF _ _ del])?)
      (auto dest: get(1) intro: get(2) os(3))
qed

lemma boxed_fst_store:
  assumes "object_store (ob_put b) (ob_get b) (ob_delete b) objects invar usable"
  shows "object_store (ob_put (boxed_fst b)) (ob_get (boxed_fst b)) (ob_delete (boxed_fst b))
    (\<lambda>s. objects (fst s)) (\<lambda>s. invar (fst s)) usable"
  by (rule object_store_part[OF assms]) (auto simp: boxed_fst_def on_fst_def split: prod.splits)

lemma boxed_snd_store:
  assumes "object_store (ob_put b) (ob_get b) (ob_delete b) objects invar usable"
  shows "object_store (ob_put (boxed_snd b)) (ob_get (boxed_snd b)) (ob_delete (boxed_snd b))
    (\<lambda>s. objects (snd s)) (\<lambda>s. invar (snd s)) usable"
  by (rule object_store_part[OF assms]) (auto simp: boxed_snd_def on_snd_def split: prod.splits)

lemma boxed_object_store:
  assumes "\<And>bucket. s3_service (h_s3 h bucket) (buckets bucket)"
  shows "object_store (ob_put (boxed_object h b)) (ob_get (boxed_object h b)) (ob_delete (boxed_object h b))
    (built_objects buckets b) (\<lambda>_. True) storable"
proof (cases b)
  case (BuiltDisk root_dir)
  have "object_store (ob_put (boxed_fst (disk_backend (h_fault h) (h_pid h) root_dir)))
      (ob_get (boxed_fst (disk_backend (h_fault h) (h_pid h) root_dir)))
      (ob_delete (boxed_fst (disk_backend (h_fault h) (h_pid h) root_dir)))
      (\<lambda>s. disk_objects root_dir (fst s)) (\<lambda>s. True) storable"
    by (rule boxed_fst_store) (simp add: disk_backend_def disk.object_store_axioms)
  then show ?thesis using BuiltDisk by simp
next
  case (BuiltS3 bucket key_prefix)
  have "object_store (ob_put (boxed_snd (s3_backend (h_s3 h bucket) key_prefix)))
      (ob_get (boxed_snd (s3_backend (h_s3 h bucket) key_prefix)))
      (ob_delete (boxed_snd (s3_backend (h_s3 h bucket) key_prefix)))
      (\<lambda>s. s3_objects (buckets bucket) key_prefix (snd s)) (\<lambda>s. True) storable"
    by (rule boxed_snd_store) (simp add: s3_backend_def s3_object_store[OF assms])
  then show ?thesis using BuiltS3 by simp
qed

text \<open>What an operation of either store does to its entries, the boxed operation does.\<close>

lemma on_vector_transfer:
  assumes "on_vector f g s = (r, s')" "vector_ok lower rows ns s"
    and "\<And>m m'. memory_ok lower m \<Longrightarrow> f m = (r, m') \<Longrightarrow> P (memory_ok lower m') (memory_entries m) (memory_entries m')"
    and "\<And>t t'. tp_ok lower rows t \<and> tp_addressed ns (fst t) \<Longrightarrow> g t = (r, t')
      \<Longrightarrow> P (tp_ok lower rows t' \<and> tp_addressed ns (fst t')) (tp_entries rows t) (tp_entries rows t')"
  shows "P (vector_ok lower rows ns s') (vector_entries rows s) (vector_entries rows s')"
  using assms by (cases s; cases "fst s")
    (auto simp: on_vector_def on_memory_def on_service_def split: prod.splits)

lemma on_vector_frame:
  assumes "on_vector f g s = (r, s')" "vector_ok lower rows ns s" "\<And>m m'. memory_ok lower m \<Longrightarrow> f m = (r, m') \<Longrightarrow> m' = m"
    "\<And>t t'. tp_ok lower rows t \<and> tp_addressed ns (fst t) \<Longrightarrow> g t = (r, t') \<Longrightarrow> t' = t"
  shows "s' = s"
  using assms by (cases s; cases "fst s")
    (fastforce simp: on_vector_def on_memory_def on_service_def split: prod.splits)+

lemma boxed_vector_sound:
  assumes mem: "vector_sound (vb_upsert m) (vb_query m) (vb_delete m) memory_entries (memory_ok lower) (\<lambda>_. True) ns"
    and tp: "vector_sound (vb_upsert t) (vb_query t) (vb_delete t) (tp_entries rows)
      (\<lambda>sw. tp_ok lower rows sw \<and> tp_addressed ns (fst sw)) accepts ns"
  shows "vector_sound (vb_upsert (boxed_vector m t)) (vb_query (boxed_vector m t)) (vb_delete (boxed_vector m t))
    (vector_entries rows) (vector_ok lower rows ns) accepts ns"
proof -
  note ops = boxed_vector_def vector_backend.simps
  note ms = vector_sound.upsert_ok[OF mem] vector_sound.upsert_err[OF mem] vector_sound.delete_ok[OF mem]
    vector_sound.delete_err[OF mem]
  note ts = vector_sound.upsert_ok[OF tp] vector_sound.upsert_err[OF tp] vector_sound.delete_ok[OF tp]
    vector_sound.delete_err[OF tp]
  show ?thesis
  proof
    fix s s' e
    assume ok: "vector_ok lower rows ns s" "accepts e" and run: "vb_upsert (boxed_vector m t) ns e s = (Inr (), s')"
    show "vector_ok lower rows ns s' \<and> vector_entries rows s' = (vector_entries rows s)(ns := (vector_entries rows s ns)(ve_id e \<mapsto> e))"
      by (rule on_vector_transfer[OF run[unfolded ops] ok(1), where P = "\<lambda>o' en en'. o' \<and> en' = en(ns := (en ns)(ve_id e \<mapsto> e))"])
        (erule (1) ms(1)[OF _ TrueI], erule (1) ts(1)[OF _ ok(2)])
  next
    fix s s' e err
    assume ok: "vector_ok lower rows ns s" "accepts e" and run: "vb_upsert (boxed_vector m t) ns e s = (Inl err, s')"
    show "vector_ok lower rows ns s' \<and> (vector_entries rows s' = vector_entries rows s
        \<or> vector_entries rows s' = (vector_entries rows s)(ns := (vector_entries rows s ns)(ve_id e \<mapsto> e)))"
      by (rule on_vector_transfer[OF run[unfolded ops] ok(1), where P = "\<lambda>o' en en'. o' \<and> (en' = en \<or> en' = en(ns := (en ns)(ve_id e \<mapsto> e)))"])
        (erule (1) ms(2)[OF _ TrueI], erule (1) ts(2)[OF _ ok(2)])
  next
    fix s s' i
    assume ok: "vector_ok lower rows ns s" and run: "vb_delete (boxed_vector m t) ns i s = (Inr (), s')"
    show "vector_ok lower rows ns s' \<and> vector_entries rows s' = (vector_entries rows s)(ns := (vector_entries rows s ns)(i := None))"
      by (rule on_vector_transfer[OF run[unfolded ops] ok, where P = "\<lambda>o' en en'. o' \<and> en' = en(ns := (en ns)(i := None))"])
        (erule (1) ms(3), erule (1) ts(3))
  next
    fix s s' i err
    assume ok: "vector_ok lower rows ns s" and run: "vb_delete (boxed_vector m t) ns i s = (Inl err, s')"
    show "vector_ok lower rows ns s' \<and> (vector_entries rows s' = vector_entries rows s
        \<or> vector_entries rows s' = (vector_entries rows s)(ns := (vector_entries rows s ns)(i := None)))"
      by (rule on_vector_transfer[OF run[unfolded ops] ok, where P = "\<lambda>o' en en'. o' \<and> (en' = en \<or> en' = en(ns := (en ns)(i := None)))"])
        (erule (1) ms(4), erule (1) ts(4))
  next
    fix vec c f k s out s'
    assume ok: "vector_ok lower rows ns s" and run: "vb_query (boxed_vector m t) ns vec c f k s = (out, s')"
    show "s' = s"
      by (rule on_vector_frame[OF run[unfolded ops] ok])
        (erule (1) vector_sound.query_frame[OF mem], erule (1) vector_sound.query_frame[OF tp])
  next
    fix vec c f k s hits s' h
    assume ok: "vector_ok lower rows ns s" and run: "vb_query (boxed_vector m t) ns vec c f k s = (Inr hits, s')" and h: "h \<in> set hits"
    show "\<exists>e. vector_entries rows s ns (hit_id h) = Some e \<and> hit_stands_for h e \<and> passes_filter f e"
      by (rule on_vector_transfer[OF run[unfolded ops] ok, where P = "\<lambda>_ en _. \<exists>e. en ns (hit_id h) = Some e \<and> hit_stands_for h e \<and> passes_filter f e"])
        (erule (1) vector_sound.query_sound[OF mem _ _ h], erule (1) vector_sound.query_sound[OF tp _ _ h])
  next
    fix vec c f k s hits s'
    assume ok: "vector_ok lower rows ns s" and run: "vb_query (boxed_vector m t) ns vec c f k s = (Inr hits, s')"
    show "distinct (map hit_id hits)"
      by (rule on_vector_transfer[OF run[unfolded ops] ok, where P = "\<lambda>_ _ _. distinct (map hit_id hits)"])
        (erule (1) vector_sound.query_distinct[OF mem], erule (1) vector_sound.query_distinct[OF tp])
  next
    fix s i e
    assume "vector_ok lower rows ns s" "vector_entries rows s ns i = Some e"
    then show "ve_id e = i"
      using vector_sound.entries_id[OF mem] vector_sound.entries_id[OF tp] by (cases s; cases "fst s") auto
  qed
qed

section \<open>The contract of a built cache\<close>

fun inner_object :: "'bucket compressed_object \<Rightarrow> 'bucket built_object" where
  "inner_object (CompressedObject b) = b"

definition built_values ::
  "('m, 't, 'sw, 'i, 'g, 'cred, 'bucket, 'w, 's) host \<Rightarrow> ('bucket \<Rightarrow> 's \<Rightarrow> string \<Rightarrow> bytes option) \<Rightarrow> 'bucket dyn_cache
   \<Rightarrow> disk \<times> 's \<Rightarrow> namespace \<times> entry_id \<Rightarrow> bytes option" where
  "built_values h buckets dc = decoded (h_zstd h) (built_objects buckets (inner_object (dc_object dc)))"

text \<open>The services behave as documented, and both lower-casing functions are the one of the standard library.\<close>

definition services ::
  "('m, 't, 'sw, 'i, 'g, 'cred, 'bucket, 'w, 's) host \<Rightarrow> ('w \<Rightarrow> string \<Rightarrow> string \<Rightarrow> vector_entry option)
   \<Rightarrow> ('bucket \<Rightarrow> 's \<Rightarrow> string \<Rightarrow> bytes option) \<Rightarrow> bool" where
  "services h rows buckets \<longleftrightarrow> zstd_round_trip (h_zstd h) \<and> tp_service (h_tp h) rows
     \<and> (\<forall>bucket. s3_service (h_s3 h bucket) (buckets bucket))
     \<and> tp_lower (h_tp h) = lib_lower (h_libs h) \<and> lower_stable (lib_lower (h_libs h)) \<and> uuid_sized (h_new_v5 h)"

definition built_consistent ::
  "('m, 't, 'sw, 'i, 'g, 'cred, 'bucket, 'w, 's) host \<Rightarrow> ('w \<Rightarrow> string \<Rightarrow> string \<Rightarrow> vector_entry option)
   \<Rightarrow> ('bucket \<Rightarrow> 's \<Rightarrow> string \<Rightarrow> bytes option) \<Rightarrow> 'bucket dyn_cache \<Rightarrow> (vector_state \<times> 'w) \<times> (disk \<times> 's) \<Rightarrow> bool" where
  "built_consistent h rows buckets dc s \<longleftrightarrow> vector_ok (lib_lower (h_libs h)) rows (dc_namespace dc) (fst s)
     \<and> no_dangling (realize h dc) (vector_entries rows) (built_values h buckets dc) storable s"

lemma realize_simps [simp]:
  "cache_namespace (realize h dc) = dc_namespace dc" "cache_entity (realize h dc) = dc_entity dc"
  "cache_embedding (realize h dc) = dc_embedding dc" "cache_scoring (realize h dc) = dc_scoring dc"
  by (simp_all add: realize_def cache_new_def)

lemma realize_contract:
  assumes "services h rows buckets"
  shows "cache_contract (realize h dc) (vector_entries rows) (vector_ok (lib_lower (h_libs h)) rows (dc_namespace dc))
    (built_values h buckets dc) (\<lambda>_. True) storable (tp_accepts (lib_lower (h_libs h)))"
proof (rule cache_contract.intro)
  let ?l = "lib_lower (h_libs h)"
  have tp: "vector_sound (tp_upsert (h_tp h)) (tp_query (h_tp h)) (tp_delete (h_tp h)) (tp_entries rows)
      (\<lambda>sw. tp_ok ?l rows sw \<and> tp_addressed (dc_namespace dc) (fst sw)) (tp_accepts ?l) (dc_namespace dc)"
    using tp_vector_sound[of "h_tp h" rows "dc_namespace dc"] assms by (simp add: services_def)
  show "vector_sound (vb_upsert (cache_vector (realize h dc))) (vb_query (cache_vector (realize h dc)))
      (vb_delete (cache_vector (realize h dc))) (vector_entries rows)
      (vector_ok ?l rows (dc_namespace dc)) (tp_accepts ?l) (cache_namespace (realize h dc))"
    unfolding realize_simps(1) unfolding realize_def cache_new_def cache.simps
    by (rule boxed_vector_sound) (simp_all add: memory_backend_def tp_backend_def mem.vector_sound_axioms tp)
  obtain b where b: "dc_object dc = CompressedObject b" by (cases "dc_object dc")
  have "object_store (ob_put (boxed_object h b)) (ob_get (boxed_object h b)) (ob_delete (boxed_object h b))
      (built_objects buckets b) (\<lambda>_. True) storable"
    using assms by (intro boxed_object_store) (simp add: services_def)
  moreover have "zstd_round_trip (h_zstd h)" using assms by (simp add: services_def)
  ultimately show "object_store (ob_put (cache_object (realize h dc))) (ob_get (cache_object (realize h dc)))
      (ob_delete (cache_object (realize h dc))) (built_values h buckets dc) (\<lambda>_. True) storable"
    unfolding built_values_def b realize_def cache_new_def
    by (simp add: compressed_store_def compressed_object_store)
qed

section \<open>What a built cache writes\<close>

text \<open>The entities a backend of the registry yields are normalised.\<close>

definition normalises :: "(string \<Rightarrow> string) \<Rightarrow> entity_backend \<Rightarrow> bool" where
  "normalises lower b \<longleftrightarrow> (\<forall>t fast es. en_extract b t fast = Inr es \<longrightarrow>
     btree_ok es \<and> (\<forall>x \<in> set es. entity_normalize lower (entity_str x) = Some x))"

lemma build_entity_normalises:
  assumes "build_entity l feat choice = Inr b" "lower_stable (lib_lower l)"
  shows "normalises (lib_lower l) b"
  using assms
  by (cases choice)
    (auto simp: build_keyword_def build_gliner_def keyword_backend_def gliner_backend_def normalises_def keyword_extract_def
      gliner_extract_def entities_from_spans_def result_simps Let_def set_map_filter lower_stable_def split: if_splits)

lemma extract_entities_normalised:
  assumes "normalises lower (cache_entity c)" "extract_entities c q context_opt fast = Inr es"
  shows "btree_ok es \<and> (\<forall>x \<in> set es. entity_normalize lower (entity_str x) = Some x)"
  using assms by (auto simp: extract_entities_def normalises_def result_simps split: option.splits if_splits)

lemma semantic_match_accepted:
  assumes "normalises lower (dc_entity dc)" "semantic_match (realize h dc) entries q keys context_opt v hit e"
  obtains es emb where "entries v (dc_namespace dc) (hit_id hit) = Some e" "ve_id e = hit_id hit" "set keys \<subseteq> set (ve_keys e)"
    "hit_stands_for_entities hit e" "extract_entities (realize h dc) q context_opt True = Inr es"
    "lookup_hit (realize h dc) q keys context_opt v es emb hit" "accepted (dc_scoring dc) es context_opt hit"
proof -
  from assms(2) obtain es emb where hit: "lookup_hit (realize h dc) q keys context_opt v es emb hit"
    "btree_ok es \<longrightarrow> accepted (dc_scoring dc) es context_opt hit"
    by (auto simp: semantic_match_def)
  from hit(1) have ext: "extract_entities (realize h dc) q context_opt True = Inr es" by (simp add: lookup_hit_def)
  have "btree_ok es" using extract_entities_normalised[OF _ ext] assms(1) by simp
  with hit ext assms(2) show thesis
    by (intro that[of es emb]) (auto simp: semantic_match_def hit_stands_for_entities_def)
qed

text \<open>Contexts as their constructor makes them.\<close>

fun op_context_ok :: "cache_op \<Rightarrow> bool" where
  "op_context_ok (OpSet q keys (Some c) v) \<longleftrightarrow> ctx_new (ctx_str c) = Inr c"
| "op_context_ok _ \<longleftrightarrow> True"

lemma built_ops_storable:
  assumes "services h rows buckets" "normalises (lib_lower (h_libs h)) (dc_entity dc)" "namespace_new raw = Inr (dc_namespace dc)"
    and "op_context_ok opr"
  shows "op_storable (h_new_v5 h) (realize h dc) storable (tp_accepts (lib_lower (h_libs h))) opr"
proof (cases opr)
  case (OpSet q keys context_opt v)
  have v5: "uuid_sized (h_new_v5 h)" using assms(1) by (simp add: services_def)
  have "tp_accepts (lib_lower (h_libs h)) e" if "cache_prepare (h_new_v5 h) (realize h dc) q keys context_opt = Inr e" for e
  proof -
    from that have e: "extract_entities (realize h dc) q context_opt False = Inr (ve_entities e)"
      "ve_id e = entry_id_derive (h_new_v5 h) q keys context_opt" "ve_context e = context_opt"
      by (auto simp: cache_prepare_def result_simps)
    then show ?thesis
      using extract_entities_normalised[OF _ e(1)] assms(2,4) OpSet v5
      by (cases context_opt) (auto simp: tp_accepts_def entry_id_ok_def entry_id_derive_def uuid_sized_def)
  qed
  then show ?thesis using derived_storable[OF assms(3) v5] OpSet by (simp add: set_storable_def)
qed simp_all

section \<open>Properties\<close>

text \<open>
  C2. Every cache the registry builds is sound, with any choice of backends: through every sequence of gets,
  sets and deletes, whatever calls of the disk, of S3 or of turbopuffer fail and whether a failed call
  took effect or not, every entry of the vector store keeps its object; and a get that returns a value
  returns the object of a stored entry that has all the keys asked for, and for which the vector store
  returned a hit whose entities and scores pass the gates. (A consistent state of a turbopuffer store is one whose namespace
  is addressed by its URL, that is, has a name of the characters turbopuffer allows.)
\<close>
theorem built_cache_sound:
  assumes "services h rows buckets" and "build_cache (h_libs h) (h_features h) raw config = Inr dc"
    and "built_consistent h rows buckets dc s0" and "list_all op_context_ok ops"
    and s: "s = fold (cache_step (h_new_v5 h) (realize h dc)) ops s0"
    and "cache_get (realize h dc) q keys context_opt s = (r, s')"
  shows "built_consistent h rows buckets dc s \<and> s' = s
    \<and> (\<forall>val. r = Inr (Some val) \<longrightarrow>
         (\<exists>hit e es emb. vector_entries rows (fst s) (dc_namespace dc) (hit_id hit) = Some e \<and> set keys \<subseteq> set (ve_keys e)
            \<and> hit_stands_for_entities hit e
            \<and> extract_entities (realize h dc) q context_opt True = Inr es
            \<and> lookup_hit (realize h dc) q keys context_opt (fst s) es emb hit \<and> accepted (dc_scoring dc) es context_opt hit
            \<and> built_values h buckets dc (snd s) (dc_namespace dc, ve_id e) = Some val))"
proof -
  note con = realize_contract[OF assms(1), of dc]
  have "lower_stable (lib_lower (h_libs h))" using assms(1) by (simp add: services_def)
  then have norm: "normalises (lib_lower (h_libs h)) (dc_entity dc)" and ns: "namespace_new raw = Inr (dc_namespace dc)"
    using assms(2) build_entity_normalises[of "h_libs h" "h_features h"] by (auto simp: build_cache_def result_simps)
  have "list_all (op_storable (h_new_v5 h) (realize h dc) storable (tp_accepts (lib_lower (h_libs h)))) ops"
    using assms(4) built_ops_storable[OF assms(1) norm ns] by (auto simp: list_all_iff)
  then have inv: "vector_ok (lib_lower (h_libs h)) rows (dc_namespace dc) (fst s)"
    "no_dangling (realize h dc) (vector_entries rows) (built_values h buckets dc) storable s"
    using cache_contract.cache_run_no_dangling[OF con] assms(3) unfolding s built_consistent_def by blast+
  obtain v obs where vo: "s = (v, obs)" by (cases s)
  note sound = cache_contract.cache_get_sound[OF con inv(1)[unfolded vo fst_conv] TrueI inv(2)[unfolded vo] assms(6)[unfolded vo]]
  have "\<exists>hit e es emb. vector_entries rows v (dc_namespace dc) (hit_id hit) = Some e \<and> set keys \<subseteq> set (ve_keys e)
            \<and> hit_stands_for_entities hit e
            \<and> extract_entities (realize h dc) q context_opt True = Inr es
            \<and> lookup_hit (realize h dc) q keys context_opt v es emb hit \<and> accepted (dc_scoring dc) es context_opt hit
            \<and> built_values h buckets dc obs (dc_namespace dc, ve_id e) = Some val" if "r = Inr (Some val)" for val
    using sound(2)[OF that] semantic_match_accepted[OF norm] by (metis realize_simps(1))
  with sound(1) inv vo show ?thesis unfolding built_consistent_def by simp
qed

section \<open>Example\<close>

text \<open>A namespace with turbopuffer and S3. The vector service holds one row and accepts no writes.\<close>

definition remote_store :: tp_store where
  "remote_store = \<lparr>tp_api_key = ''k'', tp_base_url = tp_default_base_url, tp_namespace_prefix = DEFAULT_NAMESPACE_PREFIX,
     tp_dims = Map.empty\<rparr>"

definition remote_entry :: vector_entry where
  "remote_entry = \<lparr>ve_id = example_id, ve_vector = \<lparr>emb_dim = Dim 1, emb_values = [f32_one]\<rparr>, ve_keys = [Key ''k''],
     ve_entities = [Entity ''acme''], ve_context = None\<rparr>"

definition remote_row :: query_row where
  "remote_row = \<lparr>qr_id = entry_id_to_string example_id, qr_dist = f32_zero, qr_entities = [''acme''], qr_context = None\<rparr>"

definition remote_rows :: "unit \<Rightarrow> string \<Rightarrow> string \<Rightarrow> vector_entry option" where
  "remote_rows w url i =
     (if url = tp_at tp_default_base_url ''semisweet-prod'' \<and> i = entry_id_to_string example_id then Some remote_entry else None)"

fun remote_answers :: "json \<Rightarrow> bool" where
  "remote_answers (JObj [(_, JArr [leg])]) = leg_holds leg remote_entry"
| "remote_answers _ = False"

definition remote_tp :: "unit tp_http" where
  "remote_tp = \<lparr>tp_post = (\<lambda>url key body w.
       if url = tp_at tp_default_base_url ''semisweet-prod/query'' \<and> remote_answers body
       then (Inr (200, Inr ''hit''), w) else (Inl ''offline'', w)),
     tp_parse = (\<lambda>_. Inr [[remote_row]]), tp_status_text = (\<lambda>_. ''x''), tp_lower = ascii_lower\<rparr>"

definition bucket_client :: "(string \<Rightarrow> bytes option) s3_client" where
  "bucket_client = \<lparr>put_object = (\<lambda>key v s. (Inr 200, s(key \<mapsto> v))),
     get_object = (\<lambda>key s. (Inr (case s key of None \<Rightarrow> (404, []) | Some v \<Rightarrow> (200, v)), s)),
     delete_object = (\<lambda>key s. (Inr 204, s(key := None)))\<rparr>"

definition remote_libs :: "(unit, unit, unit, string, unit, unit, unit) libs" where
  "remote_libs = example_libs\<lparr>lib_env := (\<lambda>v. if v \<in> {''TURBOPUFFER_API_KEY'', ''AWS_ACCESS_KEY_ID'', ''AWS_SECRET_ACCESS_KEY''}
     then Some ''k'' else None)\<rparr>"

definition remote_host :: "(unit, unit, unit, string, unit, unit, unit, unit, string \<Rightarrow> bytes option) host" where
  "remote_host = \<lparr>h_libs = remote_libs, h_features = default_features, h_ln = (\<lambda>x. x), h_order = (\<lambda>_. 0),
     h_term_order = (\<lambda>_. 0), h_zstd = example_zstd, h_fault = (\<lambda>_ _. None), h_pid = 42, h_tp = remote_tp,
     h_s3 = (\<lambda>_. bucket_client), h_new_v5 = example_v5, h_parse_config = (\<lambda>_. Inr example_config)\<rparr>"

definition remote_config :: namespace_config where
  "remote_config = example_config\<lparr>cfg_vector := TurbopufferChoice, cfg_object := S3Choice (Some ''b'') (Some ''r'') None ''p/''\<rparr>"

definition remote_dc :: "unit dyn_cache" where
  "remote_dc = \<lparr>dc_namespace = Namespace ''prod'',
     dc_entity = keyword_backend ascii_lower (\<lambda>n t _. split_whitespace t) (),
     dc_embedding = local_backend (lib_fastembed example_libs) \<lparr>lo_model = (), lo_dim = Dim 384, lo_query_instruction = QUERY_INSTRUCTION\<rparr>,
     dc_vector = BuiltTurbopuffer remote_store, dc_object = CompressedObject (BuiltS3 () ''p/''), dc_scoring = scoring_default\<rparr>"

definition remote_state :: "(vector_state \<times> unit) \<times> (disk \<times> (string \<Rightarrow> bytes option))" where
  "remote_state = ((TurbopufferState remote_store, ()),
     (empty_disk, [object_key ''p/'' (Namespace ''prod'') example_id \<mapsto> [0xFD, 1, 2]]))"

lemma remote_build: "build_cache remote_libs default_features '' prod '' remote_config = Inr remote_dc"
proof -
  have "namespace_new '' prod '' = Inr (Namespace ''prod'')" by code_simp
  moreover have "to_config (lib_fmt remote_libs) scoring_dto_default = Inr scoring_default"
    using to_config_of_dto[OF scoring_default_ok]
    by (simp add: scoring_dto_default_def dto_of_def Let_def)
  ultimately show ?thesis
    by (simp add: build_cache_def remote_config_def example_config_def default_features_def build_keyword_def keyword_new_def
        keyword_with_language_def build_local_def local_new_def dim_new_def MODEL_DIM_def build_turbopuffer_def tp_new_def
        tp_from_parts_def build_s3_def s3_new_def or_env_def remote_libs_def example_libs_def remote_dc_def remote_store_def)
qed

lemma tp_slash: "tp_name name \<Longrightarrow> CHR ''/'' \<notin> set name"
proof -
  assume "tp_name name"
  moreover have "\<not> tp_char (CHR ''/'')" by (simp add: tp_char_def)
  ultimately show ?thesis unfolding tp_name_def list_all_iff by blast
qed

text \<open>Only the last part of a URL is the name.\<close>

lemma last_part_eq:
  assumes "x @ CHR ''/'' # a = y @ CHR ''/'' # b" "CHR ''/'' \<notin> set a" "CHR ''/'' \<notin> set b"
  shows "x = y \<and> a = b"
proof -
  have part: "takeWhile (\<lambda>c. c \<noteq> CHR ''/'') (rev (p @ CHR ''/'' # q)) = rev q" if "CHR ''/'' \<notin> set q" for p q :: string
    unfolding rev_append rev.simps append_assoc using that by (subst takeWhile_append2) auto
  have "rev a = rev b" using part[OF assms(2), of x] part[OF assms(3), of y] assms(1) by metis
  with assms(1) show ?thesis by simp
qed

lemma tp_at_eq:
  assumes "tp_name n" "tp_name m"
  shows "tp_at base n = tp_at base' m \<longleftrightarrow> base = base' \<and> n = m"
proof
  assume "tp_at base n = tp_at base' m"
  then have "(base @ ''/v2/namespaces'') @ CHR ''/'' # n = (base' @ ''/v2/namespaces'') @ CHR ''/'' # m" by (simp add: tp_at_def)
  from last_part_eq[OF this tp_slash[OF assms(1)] tp_slash[OF assms(2)]] show "base = base' \<and> n = m" by simp
qed simp

lemma tp_at_query: "tp_at base n @ ''/query'' = tp_at base (n @ ''/query'')"
  by (simp add: tp_at_def)

lemma semisweet_prod: "tp_name ''semisweet-prod''" "api_base tp_default_base_url"
  by (simp_all add: tp_name_def tp_char_def api_base_def tp_default_base_url_def)

lemma remote_below:
  "tp_below remote_rows w base name i = (if base = tp_default_base_url \<and> name = ''semisweet-prod'' \<and> i = entry_id_to_string example_id
     then Some remote_entry else None)"
  using tp_at_eq[OF _ semisweet_prod(1)] semisweet_prod by (auto simp: tp_below_def remote_rows_def)

lemma remote_tp_service: "tp_service remote_tp remote_rows"
proof -
  have up: "\<not> remote_answers (upsert_body e)" for e by (simp add: upsert_body_def Let_def)
  have row: "row_shows remote_entry remote_row" by (simp add: row_shows_def remote_entry_def remote_row_def)
  have legs: "\<exists>leg. legs = [leg] \<and> leg_holds leg remote_entry" if "remote_answers (JObj [(''queries'', JArr legs)])" for legs
    using that by (cases legs; cases "tl legs") auto
  have q: "base = tp_default_base_url \<and> name = ''semisweet-prod''"
    if "tp_name name" "tp_at base name @ ''/query'' = tp_at tp_default_base_url ''semisweet-prod/query''" for base name
  proof -
    have "tp_at base name @ ''/query'' = tp_at tp_default_base_url ''semisweet-prod'' @ ''/query''"
      using that(2) unfolding tp_at_query append.simps .
    then have "tp_at base name = tp_at tp_default_base_url ''semisweet-prod''" by (rule iffD1[OF append_same_eq])
    then show ?thesis using tp_at_eq[OF that(1) semisweet_prod(1)] by blast
  qed
  show ?thesis
    unfolding tp_service_def
    using row q by (auto simp: remote_tp_def up remote_below tp_success_def remote_row_def dest!: legs split: if_splits)
qed

lemma bucket_service: "s3_service bucket_client (\<lambda>s. s)"
  by (auto simp: s3_service_def bucket_client_def s3_success_def success_def split: option.splits)

lemma remote_services: "services remote_host remote_rows (\<lambda>_ s. s)"
  using remote_tp_service bucket_service ascii_lower_stable example_zstd_round_trip
  by (simp add: services_def remote_host_def remote_tp_def remote_libs_def example_libs_def uuid_sized_def example_v5_def)

lemma remote_consistent: "built_consistent remote_host remote_rows (\<lambda>_ s. s) remote_dc remote_state"
proof -
  have "entity_normalize ascii_lower ''acme'' = Some (Entity ''acme'')" by code_simp
  then have acc: "tp_accepts ascii_lower remote_entry"
    by (simp add: tp_accepts_def remote_entry_def example_id_def entry_id_ok_def btree_ok_def)
  have rows: "tp_entries remote_rows (remote_store, ()) ns i = (if ns = Namespace ''prod'' \<and> i = example_id then Some remote_entry else None)" for ns i
    by (auto simp: tp_entries_def remote_below entry_id_to_string_inj physical_namespace_def remote_store_def
        DEFAULT_NAMESPACE_PREFIX_def namespace.expand)
  have "storable (Namespace ''prod'') example_id" by (simp add: storable_def example_id_def entry_id_ok_def)
  moreover have "tp_addressed (Namespace ''prod'') remote_store"
    using semisweet_prod by (simp add: tp_addressed_def remote_store_def physical_namespace_def DEFAULT_NAMESPACE_PREFIX_def)
  ultimately show ?thesis
    using acc
    by (auto simp: built_consistent_def remote_state_def rows tp_ok_def remote_host_def remote_libs_def example_libs_def no_dangling_def
        remote_dc_def built_values_def decoded_def s3_objects_def example_zstd_def remote_entry_def split: if_splits)
qed

lemma remote_get:
  "cache_get (realize remote_host remote_dc) (QueryText ''acme'') [Key ''k''] None remote_state = (Inr (Some [1, 2]), remote_state)"
proof -
  have norm: "entity_normalize ascii_lower ''acme'' = Some (Entity ''acme'')" "split_whitespace ''acme'' = [''acme'']" "trim ''acme'' = ''acme''"
    by code_simp+
  have "isl (embedding_new [f32_one]) = False" by code_simp
  then obtain emb where emb: "embedding_new [f32_one] = Inr emb" by (cases "embedding_new [f32_one]") auto
  have parse: "parse_row ascii_lower remote_row = Inr \<lparr>pr_id = example_id, pr_entities = [Entity ''acme''], pr_context = None\<rparr>"
    using parse_row_shown[of remote_entry remote_row ascii_lower] norm(1)
    by (simp add: row_shows_def remote_entry_def remote_row_def tp_accepts_def example_id_def entry_id_ok_def btree_ok_def)
  have hit: "f32_le DEFAULT_THRESHOLD (f32_sub f32_one f32_zero)"
    by (simp add: DEFAULT_THRESHOLD_def f32_le_def f32_key_def f32_one_def f32_zero_def f32_eval)
  have body: "remote_answers (query_body emb None \<lparr>keys_all = [Key ''k''], entities_any = [Entity ''acme'']\<rparr> n)" for n
    by (simp add: query_body_def filter_to_tp_def keys_clause_def entities_clause_def remote_entry_def)
  have q: "tp_query remote_tp (Namespace ''prod'') emb None \<lparr>keys_all = [Key ''k''], entities_any = [Entity ''acme'']\<rparr> n (remote_store, ())
      = (Inr [\<lparr>hit_id = example_id, dense_score = f32_sub f32_one f32_zero, sparse_score = f32_zero,
          hit_entities = [Entity ''acme''], hit_context = None\<rparr>], (remote_store, ()))" for n
    using body[of n] parse
    by (simp add: tp_url_def tp_at_def remote_store_def physical_namespace_def DEFAULT_NAMESPACE_PREFIX_def
        tp_query_def tp_execute_def remote_tp_def is_success_def fuse_multi_query_def fuse_ann_def) (simp add: remote_row_def)
  show ?thesis
    by (simp add: cache_get_def find_match_def extract_entities_def realize_def cache_new_def remote_dc_def remote_host_def
        keyword_backend_def keyword_extract_def norm List.map_filter_def btree_collect_def local_backend_def local_embed_query_def
        embed_one_def example_libs_def emb boxed_vector_def tp_backend_def on_vector_def on_service_def remote_state_def q try_state_def
        scoring_default_def FAST_M_def select_def accept_def hit btree_intersection_def compressed_store_def compressed_get_def
        decompress_def example_zstd_def boxed_snd_def on_snd_def s3_backend_def s3_get_def bucket_client_def success_def Let_def)
qed

theorem built_cache_sound_witness:
  "\<exists>(hit :: scored_hit) e. vector_entries remote_rows (fst remote_state) (Namespace ''prod'') (hit_id hit) = Some e
     \<and> built_values remote_host (\<lambda>_ s. s) remote_dc (snd remote_state) (Namespace ''prod'', ve_id e) = Some [1, 2]"
proof -
  have "build_cache (h_libs remote_host) (h_features remote_host) '' prod '' remote_config = Inr remote_dc"
    using remote_build by (simp add: remote_host_def)
  from built_cache_sound[OF remote_services this remote_consistent, of "[]" remote_state, simplified, OF remote_get]
  show ?thesis by (auto simp: remote_dc_def)
qed

end
