(* ===== verification/Conn.thy ===== *)
theory Conn
  imports Daemon_State
begin

text \<open>
  \<^verbatim>\<open>src/daemon/conn.rs\<close>: serving one connection. A connection is the list of frames still to be
  read (or the error reading one), the frames written, and how many writes the peer still accepts;
  the end of the list is the end of the stream. Handlers run between two steps of the write behind.
\<close>

section \<open>Error responses\<close>

fun backend_protocol_error :: "error \<Rightarrow> protocol_error" where
  "backend_protocol_error (NamespaceMissing namespace) = UnknownNamespace namespace"
| "backend_protocol_error (ProtocolVersionMismatch client daemon) = VersionMismatch client daemon"
| "backend_protocol_error (EntityExtraction e) = BackendInit (error_to_string (EntityExtraction e))"
| "backend_protocol_error (EmbeddingFailed e) = BackendInit (error_to_string (EmbeddingFailed e))"
| "backend_protocol_error (VectorStorage e) = BackendInit (error_to_string (VectorStorage e))"
| "backend_protocol_error (ObjectStorage e) = BackendInit (error_to_string (ObjectStorage e))"
| "backend_protocol_error (Compression e) = BackendInit (error_to_string (Compression e))"
| "backend_protocol_error DaemonShutdown = BackendInit (error_to_string DaemonShutdown)"
| "backend_protocol_error (Daemon m) = BackendInit (error_to_string (Daemon m))"
| "backend_protocol_error (Io e) = BackendInit (error_to_string (Io e))"
| "backend_protocol_error (Codec e) = BackendInit (error_to_string (Codec e))"
| "backend_protocol_error e = InvalidRequest (error_to_string e)"

definition backend_error :: "error \<Rightarrow> response" where
  "backend_error e = ErrorResponse (backend_protocol_error e)"

definition invalid_request :: "error \<Rightarrow> response" where
  "invalid_request e = ErrorResponse (InvalidRequest (error_to_string e))"

definition welcome_response :: "string \<Rightarrow> nat \<Rightarrow> response" where
  "welcome_response daemon_version protocol = Welcome daemon_version protocol"

section \<open>Requests to domain values\<close>

definition conn_resolve :: "('w, 's) daemon_state \<Rightarrow> string \<Rightarrow> response + ('w, 's) namespace_entry" where
  "conn_resolve st namespace =
     (case state_resolve st namespace of
        Inr (Some entry) \<Rightarrow> Inr entry
      | Inr None \<Rightarrow> Inl (ErrorResponse (UnknownNamespace namespace))
      | Inl e \<Rightarrow> Inl (backend_error e))"

fun reconstruct_keys :: "string list \<Rightarrow> key btree_set \<Rightarrow> response + key btree_set" where
  "reconstruct_keys [] key_set = Inr key_set"
| "reconstruct_keys (k # ks) key_set =
     (case key_new k of
        Inl e \<Rightarrow> Inl (invalid_request e)
      | Inr key \<Rightarrow> reconstruct_keys ks (btree_insert key key_set))"

type_synonym parts = "query_text \<times> key btree_set \<times> ctx option"

definition reconstruct :: "string \<Rightarrow> string list \<Rightarrow> string option \<Rightarrow> response + parts" where
  "reconstruct query keys context_opt =
     (case query_text_new query of
        Inl e \<Rightarrow> Inl (invalid_request e)
      | Inr q \<Rightarrow>
          case reconstruct_keys keys [] of
            Inl r \<Rightarrow> Inl r
          | Inr key_set \<Rightarrow>
              case context_opt of
                None \<Rightarrow> Inr (q, key_set, None)
              | Some c \<Rightarrow>
                  case ctx_new c of
                    Inl e \<Rightarrow> Inl (invalid_request e)
                  | Inr ctx \<Rightarrow> Inr (q, key_set, Some ctx))"

section \<open>Handlers\<close>

definition handle_register ::
  "('m, 't, 'sw, 'i, 'g, 'cred, 'bucket, 'w, 's) host \<Rightarrow> string \<Rightarrow> string
   \<Rightarrow> ('w, 's) daemon_state \<Rightarrow> response \<times> ('w, 's) daemon_state" where
  "handle_register h namespace config_json st =
     (case state_build_lock namespace st of
        (Inl e, st) \<Rightarrow> (backend_error e, st)
      | (Inr lock, st) \<Rightarrow>
          case state_resolve st namespace of
            Inr (Some _) \<Rightarrow> (Registered, st)
          | Inl e \<Rightarrow> (backend_error e, st)
          | Inr None \<Rightarrow>
              case h_parse_config h config_json of
                Inl e \<Rightarrow> (ErrorResponse (InvalidRequest (''invalid namespace config: '' @ e)), st)
              | Inr config \<Rightarrow>
                  case inference_run ds_pool_open
                         (\<lambda>st. (Some (build_cache (h_libs h) (h_features h) namespace config), st)) st of
                    (Inr (Inr dc), st) \<Rightarrow>
                      (case state_register namespace
                              \<lparr>ne_cache = realize h dc, ne_pending = pending_default,
                               ne_vector = initial_vector (dc_vector dc)\<rparr> st of
                         (Inr _, st) \<Rightarrow> (Registered, st)
                       | (Inl e, st) \<Rightarrow> (backend_error e, st))
                  | (Inr (Inl e), st) \<Rightarrow> (backend_error e, st)
                  | (Inl e, st) \<Rightarrow> (backend_error e, st))"

definition handle_get ::
  "(bytes \<Rightarrow> bytes \<Rightarrow> bytes) \<Rightarrow> string \<Rightarrow> string \<Rightarrow> string list \<Rightarrow> string option
   \<Rightarrow> ('w, 's) daemon_state \<Rightarrow> response \<times> ('w, 's) daemon_state" where
  "handle_get new_v5 namespace query keys context_opt st =
     (case conn_resolve st namespace of
        Inl r \<Rightarrow> (r, st)
      | Inr entry \<Rightarrow>
          case reconstruct query keys context_opt of
            Inl r \<Rightarrow> (r, st)
          | Inr (q, ks, ctx) \<Rightarrow>
              case pending_get (entry_id_derive new_v5 q ks ctx) (ne_pending entry) of
                Inr (Some v) \<Rightarrow> (Value (Some (arc_bytes v)), st)
              | Inl e \<Rightarrow> (backend_error e, st)
              | Inr None \<Rightarrow>
                  case inference_run ds_pool_open
                         (\<lambda>st. apfst Some (on_cache namespace entry (\<lambda>c. cache_get c q ks ctx) st)) st of
                    (Inr (Inr v), st) \<Rightarrow> (Value v, st)
                  | (Inr (Inl e), st) \<Rightarrow> (backend_error e, st)
                  | (Inl e, st) \<Rightarrow> (backend_error e, st))"

definition handle_set ::
  "(bytes \<Rightarrow> bytes \<Rightarrow> bytes) \<Rightarrow> string \<Rightarrow> string \<Rightarrow> string list \<Rightarrow> string option \<Rightarrow> bytes
   \<Rightarrow> ('w, 's) daemon_state \<Rightarrow> response \<times> ('w, 's) daemon_state" where
  "handle_set new_v5 namespace query keys context_opt v st =
     (case conn_resolve st namespace of
        Inl r \<Rightarrow> (r, st)
      | Inr entry \<Rightarrow>
          case reconstruct query keys context_opt of
            Inl r \<Rightarrow> (r, st)
          | Inr (q, ks, ctx) \<Rightarrow>
              let job = new_job new_v5 (ds_next_arc st) q ks ctx v;
                  st = st\<lparr>ds_next_arc := ds_next_arc st + 1\<rparr>
              in case pending_insert (job_id job) (job_value job) (ne_pending entry) of
                   (Inl e, _) \<Rightarrow> (backend_error e, st)
                 | (Inr _, p) \<Rightarrow>
                     let st = set_pending namespace entry p st in
                     case try_push (namespace, job) (ds_queue st) of
                       (True, queue) \<Rightarrow> (Accepted True, st\<lparr>ds_queue := queue\<rparr>)
                     | (False, _) \<Rightarrow>
                         case pending_remove_if (job_id job) (job_value job) p of
                           (Inl e, _) \<Rightarrow> (backend_error e, st)
                         | (Inr _, p') \<Rightarrow> (Accepted False, set_pending namespace entry p' st))"

definition handle_del ::
  "(bytes \<Rightarrow> bytes \<Rightarrow> bytes) \<Rightarrow> string \<Rightarrow> string \<Rightarrow> string list \<Rightarrow> string option
   \<Rightarrow> ('w, 's) daemon_state \<Rightarrow> response \<times> ('w, 's) daemon_state" where
  "handle_del new_v5 namespace query keys context_opt st =
     (case conn_resolve st namespace of
        Inl r \<Rightarrow> (r, st)
      | Inr entry \<Rightarrow>
          case reconstruct query keys context_opt of
            Inl r \<Rightarrow> (r, st)
          | Inr (q, ks, ctx) \<Rightarrow>
              case pending_remove (entry_id_derive new_v5 q ks ctx) (ne_pending entry) of
                (Inl e, _) \<Rightarrow> (backend_error e, st)
              | (Inr removed_pending, p) \<Rightarrow>
                  let entry = entry\<lparr>ne_pending := p\<rparr>; st = set_pending namespace entry p st in
                  case inference_run ds_pool_open
                         (\<lambda>st. apfst Some (on_cache namespace entry (\<lambda>c. cache_delete c q ks ctx) st)) st of
                    (Inr (Inr deleted), st) \<Rightarrow> (Deleted (removed_pending \<or> deleted), st)
                  | (Inr (Inl e), st) \<Rightarrow> (backend_error e, st)
                  | (Inl e, st) \<Rightarrow> (backend_error e, st))"

section \<open>The connection\<close>

record conn =
  inbox :: "(io_error + bytes) list"
  outbox :: "bytes list"
  sends_left :: "nat option"

definition conn_send :: "'m codec \<Rightarrow> 'm \<Rightarrow> conn \<Rightarrow> unit res \<times> conn" where
  "conn_send pc message c =
     (case encode pc message of
        Inl e \<Rightarrow> (Inl e, c)
      | Inr body \<Rightarrow>
          if length body > MAX_FRAME_BYTES then (Inl (Io (IoError (OtherKind ''InvalidInput'') ''frame size too big'')), c)
          else case sends_left c of
                 None \<Rightarrow> (Inr (), c\<lparr>outbox := outbox c @ [body]\<rparr>)
               | Some 0 \<Rightarrow> (Inl (Io (IoError (OtherKind ''BrokenPipe'') ''Broken pipe (os error 32)'')), c)
               | Some (Suc n) \<Rightarrow> (Inr (), c\<lparr>outbox := outbox c @ [body], sends_left := Some n\<rparr>))"

definition handshake :: "request codec \<Rightarrow> response codec \<Rightarrow> string \<Rightarrow> nat \<Rightarrow> conn \<Rightarrow> bool res \<times> conn" where
  "handshake rc pc daemon_version protocol c =
     (case inbox c of
        [] \<Rightarrow> (Inr False, c)
      | Inl e # rest \<Rightarrow> (Inl (Io e), c\<lparr>inbox := rest\<rparr>)
      | Inr frame # rest \<Rightarrow>
          let c = c\<lparr>inbox := rest\<rparr> in
          case decode rc frame of
            Inl e \<Rightarrow> (Inl e, c)
          | Inr (Hello _ client_protocol _) \<Rightarrow>
              if client_protocol \<noteq> protocol then
                (case conn_send pc (ErrorResponse (VersionMismatch client_protocol protocol)) c of
                   (Inl e, c) \<Rightarrow> (Inl e, c)
                 | (Inr _, c) \<Rightarrow> (Inr False, c))
              else
                (case conn_send pc (welcome_response daemon_version protocol) c of
                   (Inl e, c) \<Rightarrow> (Inl e, c)
                 | (Inr _, c) \<Rightarrow> (Inr True, c))
          | Inr _ \<Rightarrow> (Inr False, c))"

text \<open>The response to a request of an open connection; \<open>Bye\<close> also ends the loop.\<close>

fun respond ::
  "('m, 't, 'sw, 'i, 'g, 'cred, 'bucket, 'w, 's) host \<Rightarrow> string \<Rightarrow> nat \<Rightarrow> request
   \<Rightarrow> ('w, 's) daemon_state \<Rightarrow> response \<times> ('w, 's) daemon_state" where
  "respond h daemon_version protocol Ping st = (Pong, st)"
| "respond h daemon_version protocol Bye st = (Goodbye, st)"
| "respond h daemon_version protocol (Hello _ client_protocol _) st =
     (if client_protocol = protocol then (welcome_response daemon_version protocol, st)
      else (ErrorResponse (VersionMismatch client_protocol protocol), st))"
| "respond h daemon_version protocol (RegisterNamespace namespace config_json) st =
     handle_register h namespace config_json st"
| "respond h daemon_version protocol (Get namespace query keys context_opt) st =
     handle_get (h_new_v5 h) namespace query keys context_opt st"
| "respond h daemon_version protocol (Set namespace query keys context_opt v) st =
     handle_set (h_new_v5 h) namespace query keys context_opt v st"
| "respond h daemon_version protocol (Del namespace query keys context_opt) st =
     handle_del (h_new_v5 h) namespace query keys context_opt st"

fun message_loop ::
  "('m, 't, 'sw, 'i, 'g, 'cred, 'bucket, 'w, 's) host \<Rightarrow> request codec \<Rightarrow> response codec \<Rightarrow> string \<Rightarrow> nat
   \<Rightarrow> (io_error + bytes) list \<Rightarrow> conn \<Rightarrow> ('w, 's) daemon_state
   \<Rightarrow> unit res \<times> conn \<times> ('w, 's) daemon_state" where
  "message_loop h rc pc daemon_version protocol [] c st = (Inr (), c, st)"
| "message_loop h rc pc daemon_version protocol (Inl e # frames) c st = (Inl (Io e), c, st)"
| "message_loop h rc pc daemon_version protocol (Inr frame # frames) c st =
     (case decode rc frame of
        Inl e \<Rightarrow> (Inl e, c, st)
      | Inr request \<Rightarrow>
          case respond h daemon_version protocol request st of
            (response, st) \<Rightarrow>
              case conn_send pc response c of
                (Inl e, c) \<Rightarrow> (Inl e, c, st)
              | (Inr _, c) \<Rightarrow>
                  if request = Bye then (Inr (), c, st)
                  else message_loop h rc pc daemon_version protocol frames c st)"

datatype client_event = Connected | Disconnected

text \<open>The guard of a connection sends \<open>Connected\<close> when it is made and \<open>Disconnected\<close> when it is dropped, on every
  way out of the loop; sends are kept in the order made.\<close>

definition guard_enter :: "client_event list \<Rightarrow> client_event list" where
  "guard_enter events = events @ [Connected]"

definition guard_drop :: "client_event list \<Rightarrow> client_event list" where
  "guard_drop events = events @ [Disconnected]"

definition serve ::
  "('m, 't, 'sw, 'i, 'g, 'cred, 'bucket, 'w, 's) host \<Rightarrow> request codec \<Rightarrow> response codec \<Rightarrow> string \<Rightarrow> nat
   \<Rightarrow> conn \<Rightarrow> ('w, 's) daemon_state \<Rightarrow> client_event list \<times> conn \<times> ('w, 's) daemon_state" where
  "serve h rc pc daemon_version protocol c st =
     (case handshake rc pc daemon_version protocol c of
        (Inr True, c) \<Rightarrow>
          (case message_loop h rc pc daemon_version protocol (inbox c) (c\<lparr>inbox := []\<rparr>) st of
             (_, c, st) \<Rightarrow> (guard_drop (guard_enter []), c, st))
      | (_, c) \<Rightarrow> ([], c, st))"

section \<open>Lemmas\<close>

lemma reconstruct_keys_iff:
  "reconstruct_keys keys acc = Inr ks \<longleftrightarrow>
     list_all (\<lambda>k. trim k \<noteq> []) keys \<and> ks = fold btree_insert (map (\<lambda>k. Key (trim k)) keys) acc"
proof (induction keys arbitrary: acc)
  case (Cons k keys)
  show ?case
  proof (cases "key_new k")
    case (Inl e)
    then have "trim k = []" using key_new_Inr_iff[of k "Key (trim k)"] by auto
    with Inl show ?thesis by simp
  next
    case (Inr key)
    then have "trim k \<noteq> [] \<and> key = Key (trim k)" by (simp add: key_new_Inr_iff)
    with Inr Cons.IH show ?thesis by simp
  qed
qed auto

lemma reconstruct_keys_collect:
  "reconstruct_keys keys [] = Inr ks \<longleftrightarrow>
     list_all (\<lambda>k. trim k \<noteq> []) keys \<and> ks = btree_collect (map (\<lambda>k. Key (trim k)) keys)"
  by (simp add: reconstruct_keys_iff btree_collect_def)

lemma conn_resolve_Inl: "conn_resolve st namespace = Inl r \<Longrightarrow> \<exists>e. r = ErrorResponse e"
  by (auto simp: conn_resolve_def backend_error_def split: sum.splits option.splits)

lemma reconstruct_keys_Inl: "reconstruct_keys keys acc = Inl r \<Longrightarrow> \<exists>e. r = ErrorResponse e"
  by (induction keys acc rule: reconstruct_keys.induct) (auto simp: invalid_request_def split: sum.splits)

lemma reconstruct_Inl: "reconstruct query keys context_opt = Inl r \<Longrightarrow> \<exists>e. r = ErrorResponse e"
  by (auto simp: reconstruct_def invalid_request_def split: sum.splits option.splits dest: reconstruct_keys_Inl)

lemmas refusals = conn_resolve_Inl reconstruct_Inl

text \<open>What a resolved request works on.\<close>

lemma conn_resolve_Inr:
  "conn_resolve st namespace = Inr entry \<longleftrightarrow>
     \<not> ds_registry_poisoned st \<and> ds_registry st namespace = Some entry"
  by (auto simp: conn_resolve_def state_resolve_def split: option.splits)

lemma pending_insert_Inr:
  "pending_insert i v p = (Inr u, p') \<longleftrightarrow> \<not> pw_poisoned p \<and> p' = p\<lparr>pw_entries := (pw_entries p)(i \<mapsto> v)\<rparr>"
  by (auto simp: pending_insert_def pending_lock_def)

text \<open>An answered set recorded its job in the shadow and tried to queue it.\<close>

lemma handle_set_Accepted:
  assumes "handle_set new_v5 namespace query keys context_opt v st = (Accepted b, st')"
  obtains entry q ks ctx p job where
    "\<not> ds_registry_poisoned st" "ds_registry st namespace = Some entry" "\<not> pw_poisoned (ne_pending entry)"
    "reconstruct query keys context_opt = Inr (q, ks, ctx)" "job = new_job new_v5 (ds_next_arc st) q ks ctx v"
    "p = (pw_entries (ne_pending entry))(job_id job := if b then Some (job_value job) else None)"
    "b \<longleftrightarrow> length (ds_queue st) < WRITE_QUEUE_CAPACITY"
    "st' = st\<lparr>ds_next_arc := ds_next_arc st + 1,
       ds_registry := (ds_registry st)(namespace \<mapsto> entry\<lparr>ne_pending := (ne_pending entry)\<lparr>pw_entries := p\<rparr>\<rparr>),
       ds_queue := (if b then ds_queue st @ [(namespace, job)] else ds_queue st)\<rparr>"
proof -
  from assms obtain entry q ks ctx where
    e: "conn_resolve st namespace = Inr entry" and r: "reconstruct query keys context_opt = Inr (q, ks, ctx)"
    by (auto simp: handle_set_def split: sum.splits dest: refusals)
  let ?job = "new_job new_v5 (ds_next_arc st) q ks ctx v"
  have np: "\<not> pw_poisoned (ne_pending entry)"
    using assms e r by (auto simp: handle_set_def Let_def pending_insert_def pending_lock_def backend_error_def split: if_splits)
  show ?thesis
    using assms e r np
    by (intro that[of entry q ks ctx ?job]) (auto simp: handle_set_def Let_def conn_resolve_Inr pending_ops try_push_def
        set_pending_def ptr_eq_def split: if_splits)
qed

text \<open>The specification of an open connection: requests are answered one by one, in order, up to the
  first \<open>Bye\<close>.\<close>

fun answers ::
  "('m, 't, 'sw, 'i, 'g, 'cred, 'bucket, 'w, 's) host \<Rightarrow> string \<Rightarrow> nat \<Rightarrow> request list
   \<Rightarrow> ('w, 's) daemon_state \<Rightarrow> response list \<times> ('w, 's) daemon_state" where
  "answers h version protocol [] st = ([], st)"
| "answers h version protocol (r # rs) st =
     (case respond h version protocol r st of
        (response, st) \<Rightarrow>
          if r = Bye then ([response], st)
          else case answers h version protocol rs st of (responses, st) \<Rightarrow> (response # responses, st))"

definition framed :: "'m codec \<Rightarrow> 'm \<Rightarrow> bytes \<Rightarrow> bool" where
  "framed c m b \<longleftrightarrow> encode c m = Inr b \<and> length b \<le> MAX_FRAME_BYTES"

lemma framed_decode: "codec_ok c \<Longrightarrow> framed c m b \<Longrightarrow> decode c b = Inr m"
  by (auto simp: framed_def encode_def decode_def codec_ok_def map_err_def split: sum.splits)

lemma conn_send_framed:
  "framed pc r b \<Longrightarrow> sends_left c = None \<Longrightarrow> conn_send pc r c = (Inr (), c\<lparr>outbox := outbox c @ [b]\<rparr>)"
  by (auto simp: conn_send_def framed_def)

lemma message_loop_answers:
  assumes "codec_ok rc" and "codec_ok pc" and "list_all2 (framed rc) requests frames"
    and "list_all (\<lambda>r. \<exists>b. framed pc r b) (fst (answers h version protocol requests st))"
    and "sends_left c = None"
  shows "\<exists>bodies. message_loop h rc pc version protocol (map Inr frames) c st
      = (Inr (), c\<lparr>outbox := outbox c @ bodies\<rparr>, snd (answers h version protocol requests st))
    \<and> map (decode pc) bodies = map Inr (fst (answers h version protocol requests st))"
  using assms(3-5)
proof (induction requests frames arbitrary: c st rule: list_all2_induct)
  case Nil
  then show ?case by (intro exI[of _ "[]"]) simp
next
  case (Cons r rs f fs)
  have dec: "decode rc f = Inr r" by (rule framed_decode[OF assms(1) Cons(1)])
  obtain response st' where resp: "respond h version protocol r st = (response, st')" by fastforce
  show ?case
  proof (cases "r = Bye")
    case True
    with Cons.prems resp obtain b where b: "framed pc response b" by auto
    with True dec resp Cons.prems show ?thesis
      by (intro exI[of _ "[b]"]) (simp add: conn_send_framed framed_decode[OF assms(2)])
  next
    case False
    obtain responses st'' where rest: "answers h version protocol rs st' = (responses, st'')" by fastforce
    with Cons.prems resp False obtain b where b: "framed pc response b"
      and all: "list_all (\<lambda>r. \<exists>b. framed pc r b) responses" by auto
    let ?c = "c\<lparr>outbox := outbox c @ [b]\<rparr>"
    from Cons.IH[of st' ?c] rest all Cons.prems(2) obtain bodies where
      "message_loop h rc pc version protocol (map Inr fs) ?c st' = (Inr (), ?c\<lparr>outbox := outbox ?c @ bodies\<rparr>, st'')"
      "map (decode pc) bodies = map Inr responses" by auto
    with False dec resp rest b Cons.prems(2) show ?thesis
      by (intro exI[of _ "b # bodies"]) (simp add: conn_send_framed framed_decode[OF assms(2)])
  qed
qed

section \<open>Properties\<close>

text \<open>
  A request is understood exactly when its query, each of its keys and its context have a
  non-blank text; it then stands for the trimmed query, the sorted set of the trimmed keys and the
  trimmed context, whatever the order and the repetitions of the keys in the message.
\<close>
theorem reconstruct_iff:
  "reconstruct query keys context_opt = Inr parts \<longleftrightarrow>
     trim query \<noteq> [] \<and> list_all (\<lambda>k. trim k \<noteq> []) keys \<and> pred_option (\<lambda>c. trim c \<noteq> []) context_opt
     \<and> parts = (QueryText (trim query), btree_collect (map (\<lambda>k. Key (trim k)) keys),
                map_option (\<lambda>c. Context (trim c)) context_opt)"
proof (cases "query_text_new query")
  case (Inl e)
  then have "trim query = []" using query_text_new_Inr_iff[of query "QueryText (trim query)"] by auto
  with Inl show ?thesis by (simp add: reconstruct_def)
next
  case q: (Inr q)
  then have q': "trim query \<noteq> []" "q = QueryText (trim query)" by (simp_all add: query_text_new_Inr_iff)
  have ctx: "(\<exists>e. ctx_new c = Inl e) \<longleftrightarrow> trim c = []" for c
    using ctx_new_Inr_iff[of c] by (cases "ctx_new c") auto
  show ?thesis
  proof (cases "reconstruct_keys keys []")
    case (Inl r)
    then have "\<not> list_all (\<lambda>k. trim k \<noteq> []) keys" using reconstruct_keys_collect[of keys] by auto
    with Inl q show ?thesis by (simp add: reconstruct_def)
  next
    case (Inr ks)
    then have "list_all (\<lambda>k. trim k \<noteq> []) keys" "ks = btree_collect (map (\<lambda>k. Key (trim k)) keys)"
      by (simp_all add: reconstruct_keys_collect)
    with Inr q q' show ?thesis
      using ctx by (cases context_opt) (auto simp: reconstruct_def ctx_new_Inr_iff split: sum.splits)
  qed
qed

lemma handle_get_after_set:
  assumes "handle_set new_v5 namespace query keys context_opt v st = (Accepted True, st')"
    and "reconstruct query' keys' context_opt' = reconstruct query keys context_opt"
  shows "handle_get new_v5 namespace query' keys' context_opt' st' = (Value (Some v), st')"
  using assms(1)
proof (rule handle_set_Accepted)
  fix entry q ks ctx p job
  assume "ds_registry st namespace = Some entry" "\<not> ds_registry_poisoned st" "\<not> pw_poisoned (ne_pending entry)"
    "reconstruct query keys context_opt = Inr (q, ks, ctx)" "job = new_job new_v5 (ds_next_arc st) q ks ctx v"
    "p = (pw_entries (ne_pending entry))(job_id job := if True then Some (job_value job) else None)"
    "st' = st\<lparr>ds_next_arc := ds_next_arc st + 1,
       ds_registry := (ds_registry st)(namespace \<mapsto> entry\<lparr>ne_pending := (ne_pending entry)\<lparr>pw_entries := p\<rparr>\<rparr>),
       ds_queue := (if True then ds_queue st @ [(namespace, job)] else ds_queue st)\<rparr>"
  then show ?thesis
    using assms(2) by (simp add: handle_get_def conn_resolve_def state_resolve_def pending_ops new_job_def)
qed

text \<open>
  Read your writes through the daemon: after an accepted set, a get of the same query, keys and
  context answers the value at once, from the shadow and without running a backend, before any
  worker has stored it. The keys may be sent in another order and every text with other blanks
  around it.
\<close>
theorem daemon_read_your_write:
  assumes "handle_set new_v5 namespace query keys context_opt v st = (Accepted True, st')"
    and "reconstruct query' keys' context_opt' = reconstruct query keys context_opt"
  shows "handle_get new_v5 namespace query' keys' context_opt' st' = (Value (Some v), st')"
  using assms by (rule handle_get_after_set)

text \<open>
  A delete that is answered has emptied the shadow: no value of the entry is left in it, so that a
  later get cannot be served from a write that was still in flight, and the delete reports True when
  there was one.
\<close>
theorem delete_clears_shadow:
  assumes "handle_del new_v5 namespace query keys context_opt st = (Deleted b, st')"
    and "reconstruct query keys context_opt = Inr (q, ks, ctx)"
    and "ds_registry st namespace = Some entry"
  shows "(\<exists>entry'. ds_registry st' namespace = Some entry'
      \<and> pending_get (entry_id_derive new_v5 q ks ctx) (ne_pending entry') = Inr None)
    \<and> (pw_entries (ne_pending entry) (entry_id_derive new_v5 q ks ctx) \<noteq> None \<longrightarrow> b)"
proof -
  have reg: "conn_resolve st namespace = Inr entry"
    using assms(1,3) by (auto simp: handle_del_def conn_resolve_def state_resolve_def backend_error_def split: if_splits)
  have np: "\<not> pw_poisoned (ne_pending entry)"
    using assms(1,2) reg by (auto simp: handle_del_def pending_remove_def pending_lock_def backend_error_def split: if_splits)
  show ?thesis
    using assms(1,2) reg np
    by (auto simp: handle_del_def Let_def pending_ops inference_run_def on_cache_def set_pending_def
        backend_error_def split: prod.splits sum.splits if_splits)
qed

text \<open>
  Registration builds a namespace at most once: a namespace that is registered keeps its cache,
  its shadow and its store whatever configuration is sent again; a refused registration changes no
  namespace; and the first successful one adds exactly the cache that the configuration builds, with an
  empty shadow.
\<close>
theorem register_builds_once:
  assumes "handle_register h namespace config_json st = (r, st')"
  shows "(ds_registry st namespace \<noteq> None \<or> r \<noteq> Registered \<longrightarrow> ds_registry st' = ds_registry st)
    \<and> (ds_registry st namespace = None \<and> r = Registered \<longrightarrow>
        (\<exists>config dc. h_parse_config h config_json = Inr config
          \<and> build_cache (h_libs h) (h_features h) namespace config = Inr dc
          \<and> ds_registry st' = (ds_registry st)(namespace \<mapsto>
              \<lparr>ne_cache = realize h dc, ne_pending = pending_default, ne_vector = initial_vector (dc_vector dc)\<rparr>)))"
  using assms
  by (auto simp: handle_register_def state_build_lock_def state_resolve_def inference_run_def state_register_def
      backend_error_def Let_def split: if_splits option.splits sum.splits)

text \<open>
  An error of the daemon keeps its meaning for the Python caller: the exception raised from the
  protocol error is caught by the same built-in class as the exception the error itself would raise,
  whether or not the library's own classes are registered.
\<close>
theorem daemon_error_builtin:
  assumes "cells_ok cells"
  shows "py_subclass (py_err_type (protocol_error_to_py_err cells (backend_protocol_error e))) (error_builtin e)
    \<and> py_subclass (py_err_type (error_to_py_err cells e)) (error_builtin e)"
proof -
  note cells = cells_ok_cases[OF assms]
  have "py_subclass (py_err_type (build_py_err (config_cell cells) PyValueError m)) PyValueError"
    "py_subclass (py_err_type (build_py_err (namespace_cell cells) PyKeyError m)) PyKeyError"
    "py_subclass (py_err_type (build_py_err (backend_cell cells) PyRuntimeError m)) PyRuntimeError" for m
    using cells by (auto intro: build_py_err_subclass py_subclass_facts)
  then have "py_subclass (py_err_type (protocol_error_to_py_err cells (backend_protocol_error e))) (error_builtin e)"
    by (cases e) (simp_all add: py_subclass_facts)
  with error_to_py_err_builtin[OF assms] show ?thesis by blast
qed

theorem daemon_error_builtin_witness:
  "py_subclass (py_err_type (protocol_error_to_py_err (add_exceptions no_exceptions)
     (backend_protocol_error (MissingEnv ''K'')))) PyValueError"
  using daemon_error_builtin[of "add_exceptions no_exceptions" "MissingEnv ''K''"] by (simp add: cells_ok_def)

text \<open>
  The client count is exact: a connection announces itself once and takes it back once, in this
  order and on every way out of the message loop, if its first frame is a \<open>Hello\<close> of the daemon's
  protocol version that could be answered; any other connection is not counted, and it changes nothing
  of the daemon's state.
\<close>
theorem serve_events:
  "(\<exists>c' st'. serve h rc pc version protocol c st = ([Connected, Disconnected], c', st')
     \<and> (\<exists>frame rest client pid. inbox c = Inr frame # rest \<and> decode rc frame = Inr (Hello client protocol pid)
         \<and> fst (conn_send pc (Welcome version protocol) (c\<lparr>inbox := rest\<rparr>)) = Inr ()))
   \<or> (\<exists>c'. serve h rc pc version protocol c st = ([], c', st)
     \<and> \<not> (\<exists>frame rest client pid. inbox c = Inr frame # rest \<and> decode rc frame = Inr (Hello client protocol pid)
         \<and> fst (conn_send pc (Welcome version protocol) (c\<lparr>inbox := rest\<rparr>)) = Inr ()))"
  by (auto simp: serve_def guard_enter_def guard_drop_def handshake_def welcome_response_def Let_def
      split: list.split sum.splits request.splits prod.splits bool.splits if_splits)

text \<open>
  C22. A connection answers its requests one by one and in order: when the requests arrive well framed
  and the responses can be sent, the frames written decode to exactly the responses of the
  requests handled one after the other up to the first \<open>Bye\<close>, and the daemon is left in the state
  they lead to.
\<close>
theorem message_loop_in_order:
  assumes "codec_ok rc" and "codec_ok pc" and "list_all2 (framed rc) requests frames"
    and "list_all (\<lambda>r. \<exists>b. framed pc r b) (fst (answers h version protocol requests st))"
    and "outbox c = []" and "sends_left c = None"
  shows "\<exists>c'. message_loop h rc pc version protocol (map Inr frames) c st
      = (Inr (), c', snd (answers h version protocol requests st))
    \<and> map (decode pc) (outbox c') = map Inr (fst (answers h version protocol requests st))"
  using message_loop_answers[OF assms(1-4,6)] assms(5) by fastforce

text \<open>
  C35. A refused set undoes an accepted one: when the queue is full, a second set of the same entry
  replaces the shadow of the first and then removes its own, so the shadow is empty. The job of the
  first set is still queued, but when a worker runs it, it finds that it no longer holds the shadow and
  stores nothing: the write that was accepted is lost, although the one that replaced it was refused.
\<close>
theorem refused_set_drops_accepted_write:
  assumes "handle_set new_v5 namespace query keys context_opt v st = (Accepted True, st1)"
    and "handle_set new_v5 namespace query keys context_opt v' st1 = (Accepted False, st2)"
  shows "\<exists>entry job. ds_registry st2 namespace = Some entry \<and> (namespace, job) \<in> set (ds_queue st2)
    \<and> job_value job = Arc (ds_next_arc st) v
    \<and> pending_get (job_id job) (ne_pending entry) = Inr None
    \<and> write_job_run new_v5 namespace job (st2\<lparr>ds_queue := queue\<rparr>) = st2\<lparr>ds_queue := queue\<rparr>"
  using assms(1)
proof (rule handle_set_Accepted)
  fix entry q ks ctx p job
  assume 1: "\<not> ds_registry_poisoned st" "\<not> pw_poisoned (ne_pending entry)"
    "reconstruct query keys context_opt = Inr (q, ks, ctx)" "job = new_job new_v5 (ds_next_arc st) q ks ctx v"
    "st1 = st\<lparr>ds_next_arc := ds_next_arc st + 1,
       ds_registry := (ds_registry st)(namespace \<mapsto> entry\<lparr>ne_pending := (ne_pending entry)\<lparr>pw_entries := p\<rparr>\<rparr>),
       ds_queue := (if True then ds_queue st @ [(namespace, job)] else ds_queue st)\<rparr>"
  from assms(2) obtain p2 where 2: "ds_registry st2 namespace = Some (entry\<lparr>ne_pending := (ne_pending entry)\<lparr>pw_entries := p2\<rparr>\<rparr>)"
    "p2 (job_id job) = None" "ds_queue st2 = ds_queue st @ [(namespace, job)]"
    by (rule handle_set_Accepted) (use 1 in \<open>auto simp: new_job_def\<close>)
  have "write_job_run new_v5 namespace job (st2\<lparr>ds_queue := queue\<rparr>) = st2\<lparr>ds_queue := queue\<rparr>"
    using 1(2) 2 by (auto simp: write_job_run_def pending_ops split: sum.splits)
  moreover have "pending_get (job_id job) ((ne_pending entry)\<lparr>pw_entries := p2\<rparr>) = Inr None"
    using 1(2) 2(2) by (simp add: pending_ops)
  moreover have "job_value job = Arc (ds_next_arc st) v" using 1(4) by (simp add: new_job_def)
  ultimately show ?thesis
    by (intro exI[of _ "entry\<lparr>ne_pending := (ne_pending entry)\<lparr>pw_entries := p2\<rparr>\<rparr>"] exI[of _ job]) (simp add: 2(1,3))
qed

section \<open>Examples\<close>

definition example_host :: "(unit, unit, unit, string, unit, unit, unit, unit, unit) host" where
  "example_host = \<lparr>h_libs = example_libs, h_features = default_features, h_ln = (\<lambda>x. x), h_order = (\<lambda>_. 0),
     h_term_order = (\<lambda>_. 0), h_zstd = example_zstd, h_fault = (\<lambda>_ _. None), h_pid = 42,
     h_tp = \<lparr>tp_post = (\<lambda>_ _ _ w. (Inl ''offline'', w)), tp_parse = (\<lambda>_. Inl ''offline''), tp_status_text = (\<lambda>_. ''x''), tp_lower = ascii_lower\<rparr>,
     h_s3 = (\<lambda>_. \<lparr>put_object = (\<lambda>_ _ s. (Inl ''offline'', s)), get_object = (\<lambda>_ s. (Inl ''offline'', s)),
       delete_object = (\<lambda>_ s. (Inl ''offline'', s))\<rparr>),
     h_new_v5 = example_v5, h_parse_config = (\<lambda>_. Inr example_config)\<rparr>"

definition example_dc :: "unit dyn_cache" where
  "example_dc = \<lparr>dc_namespace = Namespace ''prod'', dc_entity = example_entity, dc_embedding = example_embedding,
     dc_vector = BuiltMemory, dc_object = CompressedObject (BuiltDisk ''/var''), dc_scoring = scoring_default\<rparr>"

definition example_daemon :: "nat \<Rightarrow> (unit, unit) daemon_state" where
  "example_daemon n = (daemon_state_new () (empty_disk, ()))\<lparr>
     ds_registry := ['' prod '' \<mapsto> \<lparr>ne_cache = realize example_host example_dc, ne_pending = pending_default,
       ne_vector = MemoryState memory_new\<rparr>],
     ds_queue := replicate n (''other'', example_job 0 [])\<rparr>"

lemma example_parts:
  "reconstruct ''q'' ['' b'', ''a''] None = Inr (QueryText ''q'', [Key ''a'', Key ''b''], None)"
  "reconstruct '' q '' [''a'', ''b'', ''a''] None = Inr (QueryText ''q'', [Key ''a'', Key ''b''], None)"
  by code_simp+

lemmas example_daemon_simps = example_daemon_def daemon_state_new_def conn_resolve_def state_resolve_def
  example_parts pending_ops pending_default_def Let_def try_push_def set_pending_def ptr_eq_def WRITE_QUEUE_CAPACITY_def

lemma example_handle_set:
  assumes "n < WRITE_QUEUE_CAPACITY"
  obtains st where
    "handle_set example_v5 '' prod '' ''q'' ['' b'', ''a''] None [1] (example_daemon n) = (Accepted True, st)"
    "ds_queue st = replicate n (''other'', example_job 0 []) @
       [('' prod '', new_job example_v5 0 (QueryText ''q'') [Key ''a'', Key ''b''] None [1])]"
    "ds_registry st '' prod '' = Some \<lparr>ne_cache = realize example_host example_dc,
       ne_pending = pending_default\<lparr>pw_entries := [entry_id_derive example_v5 (QueryText ''q'') [Key ''a'', Key ''b''] None \<mapsto> Arc 0 [1]]\<rparr>,
       ne_vector = MemoryState memory_new\<rparr>"
    "\<not> ds_registry_poisoned st" "ds_pool_open st"
  using assms
  by (intro that[of "snd (handle_set example_v5 '' prod '' ''q'' ['' b'', ''a''] None [1] (example_daemon n))"])
    (simp_all add: handle_set_def example_daemon_simps new_job_def)

theorem daemon_read_your_write_witness:
  "\<exists>st. handle_set example_v5 '' prod '' ''q'' ['' b'', ''a''] None [1] (example_daemon 0) = (Accepted True, st)
    \<and> handle_get example_v5 '' prod '' '' q '' [''a'', ''b'', ''a''] None st = (Value (Some [1]), st)"
proof -
  obtain st where st: "handle_set example_v5 '' prod '' ''q'' ['' b'', ''a''] None [1] (example_daemon 0) = (Accepted True, st)"
    by (rule example_handle_set[of 0]) (simp_all add: WRITE_QUEUE_CAPACITY_def)
  from daemon_read_your_write[OF st, of "'' q ''" "[''a'', ''b'', ''a'']" None] st show ?thesis
    by (simp add: example_parts)
qed

theorem refused_set_drops_accepted_write_witness:
  "\<exists>st1 st2 entry job.
     handle_set example_v5 '' prod '' ''q'' ['' b'', ''a''] None [1] (example_daemon 1023) = (Accepted True, st1)
     \<and> handle_set example_v5 '' prod '' ''q'' ['' b'', ''a''] None [2] st1 = (Accepted False, st2)
     \<and> ds_registry st2 '' prod '' = Some entry \<and> ('' prod '', job) \<in> set (ds_queue st2)
     \<and> write_job_run example_v5 '' prod '' job (st2\<lparr>ds_queue := []\<rparr>) = st2\<lparr>ds_queue := []\<rparr>"
proof -
  obtain st1 where st1: "handle_set example_v5 '' prod '' ''q'' ['' b'', ''a''] None [1] (example_daemon 1023) = (Accepted True, st1)"
    and facts: "length (ds_queue st1) = 1024" "\<not> ds_registry_poisoned st1"
    "ds_registry st1 '' prod '' = Some \<lparr>ne_cache = realize example_host example_dc,
       ne_pending = pending_default\<lparr>pw_entries := [entry_id_derive example_v5 (QueryText ''q'') [Key ''a'', Key ''b''] None \<mapsto> Arc 0 [1]]\<rparr>,
       ne_vector = MemoryState memory_new\<rparr>"
    by (rule example_handle_set[of 1023]) (simp_all add: WRITE_QUEUE_CAPACITY_def)
  then have "fst (handle_set example_v5 '' prod '' ''q'' ['' b'', ''a''] None [2] st1) = Accepted False"
    by (simp add: handle_set_def conn_resolve_def state_resolve_def example_parts pending_ops pending_default_def
        Let_def try_push_def set_pending_def ptr_eq_def WRITE_QUEUE_CAPACITY_def)
  then obtain st2 where st2: "handle_set example_v5 '' prod '' ''q'' ['' b'', ''a''] None [2] st1 = (Accepted False, st2)"
    by (metis prod.collapse)
  from refused_set_drops_accepted_write[OF st1 st2, of "[]"] st1 st2 show ?thesis by blast
qed

lemma example_handle_del:
  obtains st where "handle_del example_v5 '' prod '' ''q'' ['' b'', ''a''] None (example_daemon 0) = (Deleted False, st)"
  by (simp add: handle_del_def example_daemon_simps inference_run_def on_cache_def cache_delete_def find_match_def
      realize_def cache_new_def example_dc_def extract_entities_def example_entity_def example_embedding_def
      boxed_vector_def on_vector_def on_memory_def memory_backend_def memory_query_def memory_new_def try_state_def
      select_def)

theorem delete_clears_shadow_witness:
  "\<exists>st entry. handle_del example_v5 '' prod '' ''q'' ['' b'', ''a''] None (example_daemon 0) = (Deleted False, st)
     \<and> ds_registry st '' prod '' = Some entry
     \<and> pending_get (entry_id_derive example_v5 (QueryText ''q'') [Key ''a'', Key ''b''] None) (ne_pending entry) = Inr None"
proof -
  obtain st where st: "handle_del example_v5 '' prod '' ''q'' ['' b'', ''a''] None (example_daemon 0) = (Deleted False, st)"
    by (rule example_handle_del)
  have "\<exists>entry. ds_registry (example_daemon 0) '' prod '' = Some entry" by (simp add: example_daemon_simps)
  with delete_clears_shadow[OF st example_parts(1)] st show ?thesis by blast
qed

theorem register_builds_once_witness:
  "ds_registry (snd (handle_register example_host '' prod '' ''other'' (example_daemon 0))) = ds_registry (example_daemon 0)"
proof -
  have "ds_registry (example_daemon 0) '' prod '' \<noteq> None" by (simp add: example_daemon_simps)
  then show ?thesis
    using register_builds_once[of example_host "'' prod ''" "''other''" "example_daemon 0", OF prod.collapse[symmetric]] by simp
qed

definition ping_codec :: "request codec" where
  "ping_codec = \<lparr>to_stdvec = (\<lambda>m. if m = Ping then Inr [5] else if m = Bye then Inr [6] else Inl ''unsupported''),
     from_bytes = (\<lambda>b. if b = [5] then Inr Ping else if b = [6] then Inr Bye else Inl ''unsupported'')\<rparr>"

definition pong_codec :: "response codec" where
  "pong_codec = \<lparr>to_stdvec = (\<lambda>m. if m = Pong then Inr [5] else if m = Goodbye then Inr [6] else Inl ''unsupported''),
     from_bytes = (\<lambda>b. if b = [5] then Inr Pong else if b = [6] then Inr Goodbye else Inl ''unsupported'')\<rparr>"

theorem message_loop_in_order_witness:
  "\<exists>c'. message_loop example_host ping_codec pong_codec ''0.1'' 1 [Inr [5], Inr [6]]
      \<lparr>inbox = [], outbox = [], sends_left = None\<rparr> (example_daemon 0) = (Inr (), c', example_daemon 0)
    \<and> map (decode pong_codec) (outbox c') = [Inr Pong, Inr Goodbye]"
proof -
  have "codec_ok ping_codec" "codec_ok pong_codec"
    by (auto simp: codec_ok_def ping_codec_def pong_codec_def split: if_splits)
  moreover have "list_all2 (framed ping_codec) [Ping, Bye] [[5], [6]]"
    by (simp add: framed_def encode_def ping_codec_def MAX_FRAME_BYTES_def)
  moreover have "list_all (\<lambda>r. \<exists>b. framed pong_codec r b) [Pong, Goodbye]"
    by (simp add: framed_def encode_def pong_codec_def MAX_FRAME_BYTES_def)
  ultimately show ?thesis
    using message_loop_in_order[of ping_codec pong_codec "[Ping, Bye]" "[[5], [6]]" example_host "''0.1''" 1
        "example_daemon 0" "\<lparr>inbox = [], outbox = [], sends_left = None\<rparr>"] by simp
qed

end
