(* ===== verification/Daemon_Refinement.thy ===== *)
theory Daemon_Refinement
  imports Conn
begin

text \<open>
  The daemon against the cache it serves. For a namespace with the in-memory vector store and the
  on-disk object store, \<open>abs_store\<close> reads the two stores off the daemon's state, and the handlers
  together with an undisturbed worker do on them what the operations of \<^verbatim>\<open>src/cache.rs\<close> do.
\<close>

section \<open>Boxed stores\<close>

definition boxed :: "'w \<Rightarrow> 's \<Rightarrow> 'r \<times> (memory_store \<times> disk) \<Rightarrow> 'r \<times> ((vector_state \<times> 'w) \<times> (disk \<times> 's))" where
  "boxed w s res = (fst res, ((MemoryState (fst (snd res)), w), (snd (snd res), s)))"

definition local_of ::
  "('m, 't, 'sw, 'i, 'g, 'cred, 'bucket, 'w, 's) host \<Rightarrow> 'bucket dyn_cache \<Rightarrow> string \<Rightarrow> (memory_store, disk) cache" where
  "local_of h dc root_dir =
     local_cache (lib_lower (h_libs h)) (h_ln h) (h_order h) (h_term_order h) (h_zstd h) (h_fault h) (h_pid h)
       root_dir (dc_namespace dc) (dc_entity dc) (dc_embedding dc) (dc_scoring dc)"

lemmas boxed_defs = realize_def local_of_def local_cache_def cache_new_def boxed_vector_def boxed_fst_def
  compressed_store_def memory_backend_def disk_backend_def

lemma boxed_fields:
  assumes "dc_object dc = CompressedObject (BuiltDisk root_dir)"
  shows "cache_namespace (realize h dc) = cache_namespace (local_of h dc root_dir)"
    "cache_entity (realize h dc) = cache_entity (local_of h dc root_dir)"
    "cache_embedding (realize h dc) = cache_embedding (local_of h dc root_dir)"
    "cache_scoring (realize h dc) = cache_scoring (local_of h dc root_dir)"
  using assms by (simp_all add: boxed_defs)

lemma boxed_vector_ops:
  "vb_upsert (cache_vector (realize h dc)) ns e (MemoryState m, w)
     = apsnd (\<lambda>m'. (MemoryState m', w)) (vb_upsert (cache_vector (local_of h dc root_dir)) ns e m)"
  "vb_query (cache_vector (realize h dc)) ns v c f k (MemoryState m, w)
     = apsnd (\<lambda>m'. (MemoryState m', w)) (vb_query (cache_vector (local_of h dc root_dir)) ns v c f k m)"
  "vb_delete (cache_vector (realize h dc)) ns i (MemoryState m, w)
     = apsnd (\<lambda>m'. (MemoryState m', w)) (vb_delete (cache_vector (local_of h dc root_dir)) ns i m)"
  by (simp_all add: boxed_defs on_vector_def on_memory_def apsnd_def map_prod_def)

lemma boxed_object_ops:
  assumes "dc_object dc = CompressedObject (BuiltDisk root_dir)"
  shows "ob_put (cache_object (realize h dc)) ns i v (d, s)
      = apsnd (\<lambda>d'. (d', s)) (ob_put (cache_object (local_of h dc root_dir)) ns i v d)"
    "ob_get (cache_object (realize h dc)) ns i (d, s)
      = apsnd (\<lambda>d'. (d', s)) (ob_get (cache_object (local_of h dc root_dir)) ns i d)"
    "ob_delete (cache_object (realize h dc)) ns i (d, s)
      = apsnd (\<lambda>d'. (d', s)) (ob_delete (cache_object (local_of h dc root_dir)) ns i d)"
  using assms
  by (simp_all add: boxed_defs compressed_put_def compressed_get_def compressed_delete_def on_fst_def apsnd_def
      map_prod_def try_state_def split: sum.splits prod.splits option.splits)

lemma boxed_extract:
  assumes "dc_object dc = CompressedObject (BuiltDisk root_dir)"
  shows "extract_entities (realize h dc) q c fast = extract_entities (local_of h dc root_dir) q c fast"
  unfolding extract_entities_def boxed_fields[OF assms] ..

lemma boxed_prepare:
  assumes "dc_object dc = CompressedObject (BuiltDisk root_dir)"
  shows "cache_prepare new_v5 (realize h dc) q ks c = cache_prepare new_v5 (local_of h dc root_dir) q ks c"
  by (simp add: cache_prepare_def boxed_extract[OF assms] boxed_fields[OF assms])

lemma boxed_find_match:
  assumes "dc_object dc = CompressedObject (BuiltDisk root_dir)"
  shows "find_match (realize h dc) q ks c (MemoryState m, w)
     = apsnd (\<lambda>m'. (MemoryState m', w)) (find_match (local_of h dc root_dir) q ks c m)"
  by (simp add: find_match_def boxed_extract[OF assms] boxed_fields[OF assms] boxed_vector_ops[where root_dir = root_dir]
      Let_def try_state_def split: sum.splits prod.splits)

lemma boxed_get:
  assumes "dc_object dc = CompressedObject (BuiltDisk root_dir)"
  shows "cache_get (realize h dc) q ks c ((MemoryState m, w), (d, s)) = boxed w s (cache_get (local_of h dc root_dir) q ks c (m, d))"
  by (simp add: cache_get_def boxed_find_match[OF assms] boxed_fields[OF assms] boxed_object_ops[OF assms] boxed_def
      split: sum.splits prod.splits option.splits)

lemma boxed_commit:
  assumes "dc_object dc = CompressedObject (BuiltDisk root_dir)"
  shows "cache_commit (realize h dc) e v ((MemoryState m, w), (d, s)) = boxed w s (cache_commit (local_of h dc root_dir) e v (m, d))"
  by (simp add: cache_commit_def boxed_vector_ops[where root_dir = root_dir] boxed_fields[OF assms]
      boxed_object_ops[OF assms] boxed_def split: sum.splits prod.splits)

lemma boxed_delete:
  assumes "dc_object dc = CompressedObject (BuiltDisk root_dir)"
  shows "cache_delete (realize h dc) q ks c ((MemoryState m, w), (d, s)) = boxed w s (cache_delete (local_of h dc root_dir) q ks c (m, d))"
  by (simp add: cache_delete_def boxed_find_match[OF assms] boxed_vector_ops[where root_dir = root_dir]
      boxed_fields[OF assms] boxed_object_ops[OF assms] boxed_def split: sum.splits prod.splits option.splits)

section \<open>The daemon at rest\<close>

text \<open>The daemon serves a namespace from the stores \<open>\<sigma>\<close>, with nothing queued and an empty shadow.\<close>

definition at_rest ::
  "('m, 't, 'sw, 'i, 'g, 'cred, 'bucket, 'w, 's) host \<Rightarrow> 'bucket dyn_cache \<Rightarrow> string \<Rightarrow> string
   \<Rightarrow> ('w, 's) daemon_state \<Rightarrow> memory_store \<times> disk \<Rightarrow> bool" where
  "at_rest h dc root_dir namespace st \<sigma> \<longleftrightarrow>
     \<not> ds_registry_poisoned st \<and> ds_pool_open st \<and> ds_queue st = []
     \<and> dc_object dc = CompressedObject (BuiltDisk root_dir) \<and> fst (ds_objects st) = snd \<sigma>
     \<and> ds_registry st namespace = Some \<lparr>ne_cache = realize h dc, ne_pending = pending_default,
         ne_vector = MemoryState (fst \<sigma>)\<rparr>"

text \<open>What a client is told when the cache itself carries out its request. For a get and a delete that is the outcome
  of the cache's operation. The outcome of \<open>cache_set\<close> is told to nobody: the daemon acknowledges a well-formed
  set before it is carried out (\<open>Response::Accepted\<close> in \<^verbatim>\<open>src/daemon/conn.rs\<close>), so that
  only its effect on the stores is compared.\<close>

fun cache_answer ::
  "(bytes \<Rightarrow> bytes \<Rightarrow> bytes) \<Rightarrow> ('v, 'o) cache \<Rightarrow> request \<Rightarrow> 'v \<times> 'o \<Rightarrow> response \<times> ('v \<times> 'o)" where
  "cache_answer new_v5 c (Get namespace query keys context_opt) \<sigma> =
     (case reconstruct query keys context_opt of
        Inl r \<Rightarrow> (r, \<sigma>)
      | Inr (q, ks, ctx) \<Rightarrow>
          case cache_get c q ks ctx \<sigma> of (Inr v, \<sigma>') \<Rightarrow> (Value v, \<sigma>') | (Inl e, \<sigma>') \<Rightarrow> (backend_error e, \<sigma>'))"
| "cache_answer new_v5 c (Set namespace query keys context_opt v) \<sigma> =
     (case reconstruct query keys context_opt of
        Inl r \<Rightarrow> (r, \<sigma>)
      | Inr (q, ks, ctx) \<Rightarrow> (Accepted True, snd (cache_set new_v5 c q ks ctx v \<sigma>)))"
| "cache_answer new_v5 c (Del namespace query keys context_opt) \<sigma> =
     (case reconstruct query keys context_opt of
        Inl r \<Rightarrow> (r, \<sigma>)
      | Inr (q, ks, ctx) \<Rightarrow>
          case cache_delete c q ks ctx \<sigma> of (Inr b, \<sigma>') \<Rightarrow> (Deleted b, \<sigma>') | (Inl e, \<sigma>') \<Rightarrow> (backend_error e, \<sigma>'))"
| "cache_answer new_v5 c _ \<sigma> = (Pong, \<sigma>)"

fun concerns :: "string \<Rightarrow> request \<Rightarrow> bool" where
  "concerns namespace (Get n _ _ _) \<longleftrightarrow> n = namespace"
| "concerns namespace (Set n _ _ _ _) \<longleftrightarrow> n = namespace"
| "concerns namespace (Del n _ _ _) \<longleftrightarrow> n = namespace"
| "concerns namespace r \<longleftrightarrow> r = Ping"

text \<open>A request handled by the daemon, with a worker emptying the queue before the next one.\<close>

definition settled ::
  "('m, 't, 'sw, 'i, 'g, 'cred, 'bucket, 'w, 's) host \<Rightarrow> string \<Rightarrow> nat \<Rightarrow> request
   \<Rightarrow> ('w, 's) daemon_state \<Rightarrow> response \<times> ('w, 's) daemon_state" where
  "settled h version protocol r st = apsnd (worker_turn (h_new_v5 h)) (respond h version protocol r st)"

lemma at_rest_resolve:
  "at_rest h dc root_dir namespace st \<sigma> \<Longrightarrow> conn_resolve st namespace =
     Inr \<lparr>ne_cache = realize h dc, ne_pending = pending_default, ne_vector = MemoryState (fst \<sigma>)\<rparr>"
  by (simp add: at_rest_def conn_resolve_def state_resolve_def)

lemma settled_get:
  assumes "at_rest h dc root_dir namespace st \<sigma>"
  shows "fst (settled h version protocol (Get namespace query keys context_opt) st)
      = fst (cache_answer (h_new_v5 h) (local_of h dc root_dir) (Get namespace query keys context_opt) \<sigma>)
    \<and> at_rest h dc root_dir namespace (snd (settled h version protocol (Get namespace query keys context_opt) st))
        (snd (cache_answer (h_new_v5 h) (local_of h dc root_dir) (Get namespace query keys context_opt) \<sigma>))"
proof -
  obtain m d where \<sigma>: "\<sigma> = (m, d)" by fastforce
  from assms have b: "dc_object dc = CompressedObject (BuiltDisk root_dir)" by (simp add: at_rest_def)
  obtain w s where ws: "ds_service st = w" "ds_objects st = (d, s)"
    using assms \<sigma> by (cases "ds_objects st") (simp add: at_rest_def)
  show ?thesis
    using assms unfolding at_rest_def
    by (auto simp: settled_def handle_get_def at_rest_resolve[OF assms] pending_ops pending_default_def
        inference_run_def on_cache_def \<sigma> ws boxed_get[OF b] boxed_def worker_turn_def
        split: sum.splits prod.splits)
qed

lemma settled_del:
  assumes "at_rest h dc root_dir namespace st \<sigma>"
  shows "fst (settled h version protocol (Del namespace query keys context_opt) st)
      = fst (cache_answer (h_new_v5 h) (local_of h dc root_dir) (Del namespace query keys context_opt) \<sigma>)
    \<and> at_rest h dc root_dir namespace (snd (settled h version protocol (Del namespace query keys context_opt) st))
        (snd (cache_answer (h_new_v5 h) (local_of h dc root_dir) (Del namespace query keys context_opt) \<sigma>))"
proof -
  obtain m d where \<sigma>: "\<sigma> = (m, d)" by fastforce
  from assms have b: "dc_object dc = CompressedObject (BuiltDisk root_dir)" by (simp add: at_rest_def)
  obtain w s where ws: "ds_service st = w" "ds_objects st = (d, s)"
    using assms \<sigma> by (cases "ds_objects st") (simp add: at_rest_def)
  show ?thesis
    using assms unfolding at_rest_def
    by (auto simp: settled_def handle_del_def at_rest_resolve[OF assms] pending_ops pending_default_def
        inference_run_def on_cache_def set_pending_def Let_def \<sigma> ws boxed_delete[OF b] boxed_def worker_turn_def
        split: sum.splits prod.splits)
qed

lemma settled_set:
  assumes "at_rest h dc root_dir namespace st \<sigma>" and "prepares (h_new_v5 h) (local_of h dc root_dir)"
  shows "fst (settled h version protocol (Set namespace query keys context_opt v) st)
      = fst (cache_answer (h_new_v5 h) (local_of h dc root_dir) (Set namespace query keys context_opt v) \<sigma>)
    \<and> at_rest h dc root_dir namespace (snd (settled h version protocol (Set namespace query keys context_opt v) st))
        (snd (cache_answer (h_new_v5 h) (local_of h dc root_dir) (Set namespace query keys context_opt v) \<sigma>))"
proof (cases "reconstruct query keys context_opt")
  case (Inl r)
  then show ?thesis
    using assms(1) by (simp add: settled_def handle_set_def at_rest_resolve[OF assms(1)] worker_turn_def at_rest_def)
next
  case (Inr parts)
  obtain q ks ctx where parts: "parts = (q, ks, ctx)" by (cases parts)
  obtain m d where \<sigma>: "\<sigma> = (m, d)" by fastforce
  from assms have b: "dc_object dc = CompressedObject (BuiltDisk root_dir)" by (simp add: at_rest_def)
  obtain w s where ws: "ds_service st = w" "ds_objects st = (d, s)"
    using assms \<sigma> by (cases "ds_objects st") (simp add: at_rest_def)
  obtain e where e: "cache_prepare (h_new_v5 h) (local_of h dc root_dir) q ks ctx = Inr e"
    using assms(2) unfolding prepares_def by blast
  let ?j = "new_job (h_new_v5 h) (ds_next_arc st) q ks ctx v"
  let ?st = "st\<lparr>ds_next_arc := ds_next_arc st + 1, ds_registry := (ds_registry st)(namespace \<mapsto>
      \<lparr>ne_cache = realize h dc, ne_pending = pending_default\<lparr>pw_entries := [job_id ?j \<mapsto> job_value ?j]\<rparr>,
       ne_vector = MemoryState m\<rparr>), ds_queue := [(namespace, ?j)]\<rparr>"
  have "handle_set (h_new_v5 h) namespace query keys context_opt v st = (Accepted True, ?st)"
    using assms(1) Inr parts \<sigma> at_rest_resolve[OF assms(1)]
    by (simp add: handle_set_def at_rest_def pending_ops pending_default_def Let_def try_push_def set_pending_def
        WRITE_QUEUE_CAPACITY_def)
  then have set: "settled h version protocol (Set namespace query keys context_opt v) st = (Accepted True, worker_turn (h_new_v5 h) ?st)"
    by (simp add: settled_def)
  have com: "cache_set (h_new_v5 h) (local_of h dc root_dir) q ks ctx v (m, d)
      = cache_commit (local_of h dc root_dir) e v (m, d)"
    by (simp add: cache_set_def e)
  have job: "job_query ?j = q" "job_keys ?j = ks" "job_context ?j = ctx" "job_value ?j = Arc (ds_next_arc st) v"
    by (simp_all add: new_job_def)
  have "at_rest h dc root_dir namespace (worker_turn (h_new_v5 h) ?st)
      (snd (cache_set (h_new_v5 h) (local_of h dc root_dir) q ks ctx v (m, d)))"
    using assms(1) unfolding at_rest_def com
    by (simp add: worker_turn_def write_job_run_def job boxed_prepare[OF b] e pending_ops pending_default_def ptr_eq_def
        on_cache_def set_pending_def ws boxed_commit[OF b] boxed_def Let_def)
  with set Inr parts \<sigma> show ?thesis by simp
qed

lemma settled_refines:
  assumes "at_rest h dc root_dir namespace st \<sigma>" and "prepares (h_new_v5 h) (local_of h dc root_dir)"
    and "concerns namespace r"
  shows "fst (settled h version protocol r st) = fst (cache_answer (h_new_v5 h) (local_of h dc root_dir) r \<sigma>)
    \<and> at_rest h dc root_dir namespace (snd (settled h version protocol r st))
        (snd (cache_answer (h_new_v5 h) (local_of h dc root_dir) r \<sigma>))"
proof (cases r)
  case Ping
  then show ?thesis using assms(1) by (simp add: settled_def worker_turn_def at_rest_def)
qed (use assms settled_get[OF assms(1)] settled_del[OF assms(1)] settled_set[OF assms(1,2)] in simp_all)

fun run_settled ::
  "('m, 't, 'sw, 'i, 'g, 'cred, 'bucket, 'w, 's) host \<Rightarrow> string \<Rightarrow> nat \<Rightarrow> request list
   \<Rightarrow> ('w, 's) daemon_state \<Rightarrow> response list \<times> ('w, 's) daemon_state" where
  "run_settled h version protocol [] st = ([], st)"
| "run_settled h version protocol (r # rs) st =
     (case settled h version protocol r st of
        (a, st) \<Rightarrow> case run_settled h version protocol rs st of (as, st) \<Rightarrow> (a # as, st))"

fun run_cache ::
  "(bytes \<Rightarrow> bytes \<Rightarrow> bytes) \<Rightarrow> ('v, 'o) cache \<Rightarrow> request list \<Rightarrow> 'v \<times> 'o \<Rightarrow> response list \<times> ('v \<times> 'o)" where
  "run_cache new_v5 c [] \<sigma> = ([], \<sigma>)"
| "run_cache new_v5 c (r # rs) \<sigma> =
     (case cache_answer new_v5 c r \<sigma> of
        (a, \<sigma>) \<Rightarrow> case run_cache new_v5 c rs \<sigma> of (as, \<sigma>) \<Rightarrow> (a # as, \<sigma>))"

text \<open>
  C5. The daemon refines the cache it serves. Take a namespace in memory and on disk that can prepare every entry, with
  nothing queued, and any sequence of gets, sets and deletes for it, a worker emptying
  the queue after each request. The answers to gets and deletes are the outcomes of the cache's own
  operations on the two stores, a well-formed set is acknowledged at once, whatever the outcome of its write, an
  ill-formed request is refused as its reconstruction fails, and the stores
  are left as the cache's operations leave them.
\<close>
theorem daemon_refines_cache:
  assumes "at_rest h dc root_dir namespace st \<sigma>" and "prepares (h_new_v5 h) (local_of h dc root_dir)"
    and "list_all (concerns namespace) rs"
  shows "fst (run_settled h version protocol rs st) = fst (run_cache (h_new_v5 h) (local_of h dc root_dir) rs \<sigma>)
    \<and> at_rest h dc root_dir namespace (snd (run_settled h version protocol rs st))
        (snd (run_cache (h_new_v5 h) (local_of h dc root_dir) rs \<sigma>))"
  using assms(1,3)
proof (induction rs arbitrary: st \<sigma>)
  case (Cons r rs)
  then have "concerns namespace r" by simp
  from settled_refines[OF Cons.prems(1) assms(2) this, of version protocol]
    Cons.IH[of "snd (settled h version protocol r st)" "snd (cache_answer (h_new_v5 h) (local_of h dc root_dir) r \<sigma>)"] Cons.prems(2)
  show ?case by (simp add: case_prod_beta)
qed simp

lemma example_local_of: "local_of example_host example_dc ''/var'' = example_cache"
  by (simp add: local_of_def example_host_def example_dc_def example_cache_def example_libs_def)

lemma example_host_v5: "h_new_v5 example_host = example_v5"
  by (simp add: example_host_def)

lemma example_query_parts: "reconstruct ''q'' [] None = Inr (QueryText ''q'', [], None)"
  "reconstruct '' q'' [] None = Inr (QueryText ''q'', [], None)"
  by code_simp+

theorem daemon_refines_cache_witness:
  "fst (run_settled example_host ''1'' 1 [Set '' prod '' ''q'' [] None [1, 2], Get '' prod '' '' q'' [] None]
     (example_daemon 0)) = [Accepted True, Value (Some [1, 2])]"
proof -
  have "at_rest example_host example_dc ''/var'' '' prod '' (example_daemon 0) (memory_new, empty_disk)"
    by (simp add: at_rest_def example_daemon_def daemon_state_new_def example_dc_def)
  moreover have "prepares (h_new_v5 example_host) (local_of example_host example_dc ''/var'')"
    using example_prepares by (simp add: example_local_of example_host_v5)
  ultimately have "fst (run_settled example_host ''1'' 1 [Set '' prod '' ''q'' [] None [1, 2], Get '' prod '' '' q'' [] None]
      (example_daemon 0)) = fst (run_cache example_v5 example_cache
        [Set '' prod '' ''q'' [] None [1, 2], Get '' prod '' '' q'' [] None] (memory_new, empty_disk))"
    using daemon_refines_cache[of example_host example_dc "''/var''" "'' prod ''" "example_daemon 0"
        "(memory_new, empty_disk)" "[Set '' prod '' ''q'' [] None [1, 2], Get '' prod '' '' q'' [] None]" "''1''" 1]
    unfolding example_local_of example_host_v5 by simp
  then show ?thesis by (simp add: example_query_parts example_set example_get)
qed

end
