(* ===== verification/Daemon_Steps.thy ===== *)
theory Daemon_Steps
  imports Daemon_Refinement
begin

text \<open>
  The handlers of a connection (\<^verbatim>\<open>src/daemon/conn.rs\<close>) and the turns of a worker
  (\<^verbatim>\<open>src/daemon/writer.rs\<close>) are runs of the interleaving relation \<open>wb_step\<close>: what is shown of
  every interleaving holds of the daemon. \<open>serves\<close> relates the state of a daemon that
  serves one namespace to the state of the write behind with all workers waiting.
\<close>

section \<open>A worker's run\<close>

definition wb_at ::
  "('v, 'o) write_behind \<Rightarrow> nat \<Rightarrow> worker \<Rightarrow> nat \<Rightarrow> 'v \<times> 'o \<Rightarrow> pending_writes \<Rightarrow> ('v, 'o) write_behind" where
  "wb_at s w x n store p = s\<lparr>wb_pending := p, wb_workers := (wb_workers s)[w := x], wb_in_flight := n, wb_store := store\<rparr>"

lemma wb_at_steps:
  assumes w: "w < length (wb_workers s)"
  shows "wb_step new_v5 c (wb_at s w (Received job) n store p) (wb_at s w (Preparing job) (n + 1) store p)"
    "cache_prepare new_v5 c (job_query job) (job_keys job) (job_context job) = Inl e \<Longrightarrow>
      wb_step new_v5 c (wb_at s w (Preparing job) n store p) (wb_at s w Leaving n store p)"
    "cache_prepare new_v5 c (job_query job) (job_keys job) (job_context job) = Inr entry \<Longrightarrow>
      wb_step new_v5 c (wb_at s w (Preparing job) n store p) (wb_at s w (Checking job entry) n store p)"
    "pending_holds (job_id job) (job_value job) p \<noteq> Inr True \<Longrightarrow>
      wb_step new_v5 c (wb_at s w (Checking job entry) n store p) (wb_at s w Leaving n store p)"
    "pending_holds (job_id job) (job_value job) p = Inr True \<Longrightarrow>
      wb_step new_v5 c (wb_at s w (Checking job entry) n store p) (wb_at s w (Putting job entry) n store p)"
    "ob_put (cache_object c) (cache_namespace c) (ve_id entry) (arc_bytes (job_value job)) (snd store) = (r, obs) \<Longrightarrow>
      wb_step new_v5 c (wb_at s w (Putting job entry) n store p)
        (wb_at s w (case r of Inl _ \<Rightarrow> Cleaning job | Inr _ \<Rightarrow> Upserting job entry) n (fst store, obs) p)"
    "vb_upsert (cache_vector c) (cache_namespace c) entry (fst store) = (r', v) \<Longrightarrow>
      wb_step new_v5 c (wb_at s w (Upserting job entry) n store p) (wb_at s w (Cleaning job) n (v, snd store) p)"
    "pending_remove_if (job_id job) (job_value job) p = (b, p') \<Longrightarrow>
      wb_step new_v5 c (wb_at s w (Cleaning job) n store p) (wb_at s w Leaving n store p')"
    "wb_step new_v5 c (wb_at s w Leaving n store p) (wb_at s w Waiting (n - 1) store p)"
proof -
  show "wb_step new_v5 c (wb_at s w (Received job) n store p) (wb_at s w (Preparing job) (n + 1) store p)"
    using enter[of w "wb_at s w (Received job) n store p" job new_v5 c] w by (cases s) (simp add: wb_at_def)
  show "cache_prepare new_v5 c (job_query job) (job_keys job) (job_context job) = Inl e \<Longrightarrow>
      wb_step new_v5 c (wb_at s w (Preparing job) n store p) (wb_at s w Leaving n store p)"
    using prepare_failed[of w "wb_at s w (Preparing job) n store p" job new_v5 c e] w by (cases s) (simp add: wb_at_def)
  show "cache_prepare new_v5 c (job_query job) (job_keys job) (job_context job) = Inr entry \<Longrightarrow>
      wb_step new_v5 c (wb_at s w (Preparing job) n store p) (wb_at s w (Checking job entry) n store p)"
    using prepared[of w "wb_at s w (Preparing job) n store p" job new_v5 c entry] w by (cases s) (simp add: wb_at_def)
  show "pending_holds (job_id job) (job_value job) p \<noteq> Inr True \<Longrightarrow>
      wb_step new_v5 c (wb_at s w (Checking job entry) n store p) (wb_at s w Leaving n store p)"
    using stale[of w "wb_at s w (Checking job entry) n store p" job entry new_v5 c] w by (cases s) (simp add: wb_at_def)
  show "pending_holds (job_id job) (job_value job) p = Inr True \<Longrightarrow>
      wb_step new_v5 c (wb_at s w (Checking job entry) n store p) (wb_at s w (Putting job entry) n store p)"
    using wanted[of w "wb_at s w (Checking job entry) n store p" job entry new_v5 c] w by (cases s) (simp add: wb_at_def)
  show "ob_put (cache_object c) (cache_namespace c) (ve_id entry) (arc_bytes (job_value job)) (snd store) = (r, obs) \<Longrightarrow>
      wb_step new_v5 c (wb_at s w (Putting job entry) n store p)
        (wb_at s w (case r of Inl _ \<Rightarrow> Cleaning job | Inr _ \<Rightarrow> Upserting job entry) n (fst store, obs) p)"
    using put_object[of w "wb_at s w (Putting job entry) n store p" job entry c r obs new_v5] w by (cases s) (simp add: wb_at_def)
  show "vb_upsert (cache_vector c) (cache_namespace c) entry (fst store) = (r', v) \<Longrightarrow>
      wb_step new_v5 c (wb_at s w (Upserting job entry) n store p) (wb_at s w (Cleaning job) n (v, snd store) p)"
    using upsert_entry[of w "wb_at s w (Upserting job entry) n store p" job entry c r' v new_v5] w by (cases s) (simp add: wb_at_def)
  show "pending_remove_if (job_id job) (job_value job) p = (b, p') \<Longrightarrow>
      wb_step new_v5 c (wb_at s w (Cleaning job) n store p) (wb_at s w Leaving n store p')"
    using clean[of w "wb_at s w (Cleaning job) n store p" job b p' new_v5 c] w by (cases s) (simp add: wb_at_def)
  show "wb_step new_v5 c (wb_at s w Leaving n store p) (wb_at s w Waiting (n - 1) store p)"
    using leave[of w "wb_at s w Leaving n store p" new_v5 c] w by (cases s) (simp add: wb_at_def)
qed

text \<open>The effect of a job on the stores and the shadow, when nothing comes between its calls.\<close>

definition job_effect ::
  "(bytes \<Rightarrow> bytes \<Rightarrow> bytes) \<Rightarrow> ('v, 'o) cache \<Rightarrow> write_job \<Rightarrow> ('v \<times> 'o) \<times> pending_writes \<Rightarrow> ('v \<times> 'o) \<times> pending_writes" where
  "job_effect new_v5 c job sp =
     (case cache_prepare new_v5 c (job_query job) (job_keys job) (job_context job) of
        Inl e \<Rightarrow> sp
      | Inr entry \<Rightarrow>
          if pending_holds (job_id job) (job_value job) (snd sp) = Inr True
          then (snd (cache_commit c entry (arc_bytes (job_value job)) (fst sp)),
                snd (pending_remove_if (job_id job) (job_value job) (snd sp)))
          else sp)"

lemma commit_steps:
  assumes w: "w < length (wb_workers s)"
  shows "wb_steps new_v5 c (wb_at s w (Putting job entry) n store p)
    (wb_at s w (Cleaning job) n (snd (cache_commit c entry (arc_bytes (job_value job)) store)) p)"
proof -
  obtain r obs where put: "ob_put (cache_object c) (cache_namespace c) (ve_id entry) (arc_bytes (job_value job)) (snd store) = (r, obs)"
    by fastforce
  note s1 = wb_at_steps(6)[OF w put, of new_v5 n p]
  show ?thesis
  proof (cases r)
    case (Inl e)
    then show ?thesis using s1 put by (simp add: cache_commit_def r_into_rtranclp)
  next
    case (Inr u)
    obtain r' v where ups: "vb_upsert (cache_vector c) (cache_namespace c) entry (fst (fst store, obs)) = (r', v)" by fastforce
    note s2 = wb_at_steps(7)[OF w ups, of new_v5 job n p]
    have "snd (cache_commit c entry (arc_bytes (job_value job)) store) = (v, obs)"
      using put ups Inr by (simp add: cache_commit_def)
    with s1 s2 Inr show ?thesis by (simp add: converse_rtranclp_into_rtranclp r_into_rtranclp)
  qed
qed

lemma job_steps:
  assumes w: "w < length (wb_workers s)"
  shows "wb_steps new_v5 c (wb_at s w (Received job) n store p)
    (wb_at s w Waiting n (fst (job_effect new_v5 c job (store, p))) (snd (job_effect new_v5 c job (store, p))))"
proof -
  note st = wb_at_steps[OF w]
  have leave: "wb_step new_v5 c (wb_at s w Leaving (n + 1) store' p') (wb_at s w Waiting n store' p')" for store' p'
    using st(9)[of new_v5 c "n + 1"] by simp
  have start: "wb_step new_v5 c (wb_at s w (Received job) n store p) (wb_at s w (Preparing job) (n + 1) store p)" by (rule st(1))
  show ?thesis
  proof (cases "cache_prepare new_v5 c (job_query job) (job_keys job) (job_context job)")
    case (Inl e)
    note fail = st(2)[OF Inl, of "n + 1" store p]
    have "job_effect new_v5 c job (store, p) = (store, p)" using Inl by (simp add: job_effect_def)
    then show ?thesis using start fail leave by (metis (no_types, lifting) converse_rtranclp_into_rtranclp fst_conv r_into_rtranclp snd_conv)
  next
    case (Inr entry)
    note chk = st(3)[OF Inr, of "n + 1" store p]
    show ?thesis
    proof (cases "pending_holds (job_id job) (job_value job) p = Inr True")
      case False
      note skip = st(4)[OF False, of new_v5 c entry "n + 1" store]
      have "job_effect new_v5 c job (store, p) = (store, p)" using Inr False by (simp add: job_effect_def)
      then show ?thesis using start chk skip leave
        by (metis (no_types, lifting) converse_rtranclp_into_rtranclp fst_conv r_into_rtranclp snd_conv)
    next
      case True
      let ?store = "snd (cache_commit c entry (arc_bytes (job_value job)) store)"
      obtain b p' where rm: "pending_remove_if (job_id job) (job_value job) p = (b, p')" by fastforce
      have eff: "job_effect new_v5 c job (store, p) = (?store, p')" using Inr True rm by (simp add: job_effect_def)
      note go = st(5)[OF True, of new_v5 c entry "n + 1" store]
      note cl = st(8)[OF rm, of new_v5 c "n + 1" ?store]
      have 1: "wb_steps new_v5 c (wb_at s w (Received job) n store p) (wb_at s w (Putting job entry) (n + 1) store p)"
        using start chk go by (meson converse_rtranclp_into_rtranclp r_into_rtranclp)
      have 2: "wb_steps new_v5 c (wb_at s w (Cleaning job) (n + 1) ?store p) (wb_at s w Waiting n ?store p')"
        using cl leave by (meson converse_rtranclp_into_rtranclp r_into_rtranclp)
      show ?thesis
        using rtranclp_trans[OF rtranclp_trans[OF 1 commit_steps[OF w]] 2] unfolding eff fst_conv snd_conv .
    qed
  qed
qed

section \<open>The daemon as a write behind\<close>

definition view ::
  "('w, 's) namespace_entry \<Rightarrow> ('w, 's) daemon_state \<Rightarrow> (vector_state \<times> 'w, disk \<times> 's) write_behind" where
  "view entry st = \<lparr>wb_pending = ne_pending entry, wb_queue = map snd (ds_queue st), wb_setters = [],
     wb_workers = replicate WRITE_WORKERS Waiting, wb_lookups = [], wb_in_flight = 0, wb_next_arc = ds_next_arc st,
     wb_store = ((ne_vector entry, ds_service st), ds_objects st)\<rparr>"

definition serves ::
  "string \<Rightarrow> ('w, 's) daemon_cache \<Rightarrow> ('w, 's) daemon_state \<Rightarrow> (vector_state \<times> 'w, disk \<times> 's) write_behind \<Rightarrow> bool" where
  "serves namespace c st s \<longleftrightarrow>
     \<not> ds_registry_poisoned st \<and> ds_pool_open st \<and> list_all (\<lambda>(n, _). n = namespace) (ds_queue st)
     \<and> (\<exists>entry. ds_registry st namespace = Some entry \<and> ne_cache entry = c \<and> \<not> pw_poisoned (ne_pending entry) \<and> s = view entry st)"

lemma servesE:
  assumes "serves namespace c st s"
  obtains entry where "\<not> ds_registry_poisoned st" "ds_pool_open st" "list_all (\<lambda>(n, _). n = namespace) (ds_queue st)"
    "ds_registry st namespace = Some entry" "ne_cache entry = c" "\<not> pw_poisoned (ne_pending entry)" "s = view entry st"
    "conn_resolve st namespace = Inr entry"
  using assms by (auto simp: serves_def conn_resolve_Inr)

lemma set_steps:
  assumes "serves namespace c st s" "handle_set new_v5 namespace query keys context_opt v st = (r, st')"
  shows "\<exists>s'. wb_steps new_v5 c s s' \<and> serves namespace c st' s'"
  using assms(1)
proof (rule servesE)
  fix entry
  assume e: "\<not> ds_registry_poisoned st" "ds_pool_open st" "list_all (\<lambda>(n, _). n = namespace) (ds_queue st)"
    "ds_registry st namespace = Some entry" "ne_cache entry = c" "\<not> pw_poisoned (ne_pending entry)" "s = view entry st"
    "conn_resolve st namespace = Inr entry"
  show ?thesis
  proof (cases "reconstruct query keys context_opt")
    case (Inl a)
    then show ?thesis using assms e(8) by (auto simp: handle_set_def)
  next
    case (Inr parts)
    obtain q ks ctx where parts: "parts = (q, ks, ctx)" by (cases parts) auto
    let ?job = "new_job new_v5 (ds_next_arc st) q ks ctx v"
    let ?p = "(ne_pending entry)\<lparr>pw_entries := (pw_entries (ne_pending entry))(job_id ?job \<mapsto> job_value ?job)\<rparr>"
    let ?p' = "(ne_pending entry)\<lparr>pw_entries := (pw_entries (ne_pending entry))(job_id ?job := None)\<rparr>"
    let ?s1 = "s\<lparr>wb_pending := ?p, wb_next_arc := ds_next_arc st + 1, wb_setters := [Pushing ?job]\<rparr>"
    have 1: "wb_step new_v5 c s ?s1"
      using record_shadow[of ?job new_v5 s q ks ctx v ?p c] e(6,7) by (simp add: view_def pending_ops)
    show ?thesis
    proof (cases "length (ds_queue st) < WRITE_QUEUE_CAPACITY")
      case True
      let ?e = "entry\<lparr>ne_pending := ?p\<rparr>"
      have st': "st' = st\<lparr>ds_next_arc := ds_next_arc st + 1, ds_registry := (ds_registry st)(namespace \<mapsto> ?e),
          ds_queue := ds_queue st @ [(namespace, ?job)]\<rparr>"
        using assms(2) e(6,8) Inr parts True by (simp add: handle_set_def Let_def pending_ops try_push_def set_pending_def)
      have "wb_step new_v5 c ?s1 (view ?e st')"
        using enqueue[of 0 ?s1 ?job "wb_queue s @ [?job]" new_v5 c] True e(7) st'
        by (simp add: view_def try_push_def del_at_def)
      with 1 have "wb_steps new_v5 c s (view ?e st')" by (meson converse_rtranclp_into_rtranclp r_into_rtranclp)
      moreover have "serves namespace c st' (view ?e st')" using e st' by (auto simp: serves_def)
      ultimately show ?thesis by blast
    next
      case False
      let ?e = "entry\<lparr>ne_pending := ?p'\<rparr>"
      have st': "st' = st\<lparr>ds_next_arc := ds_next_arc st + 1, ds_registry := (ds_registry st)(namespace \<mapsto> ?e)\<rparr>"
        using assms(2) e(6,8) Inr parts False
        by (simp add: handle_set_def Let_def pending_ops try_push_def set_pending_def ptr_eq_def)
      have 2: "wb_step new_v5 c ?s1 (?s1\<lparr>wb_setters := [Retracting ?job]\<rparr>)"
        using full[of 0 ?s1 ?job "wb_queue s" new_v5 c] False e(7) by (simp add: view_def try_push_def)
      have "wb_step new_v5 c (?s1\<lparr>wb_setters := [Retracting ?job]\<rparr>) (view ?e st')"
        using retract[of 0 "?s1\<lparr>wb_setters := [Retracting ?job]\<rparr>" ?job "Inr True" ?p' new_v5 c] e(6,7) st'
        by (simp add: view_def pending_ops ptr_eq_def del_at_def)
      with 1 2 have "wb_steps new_v5 c s (view ?e st')" by (meson converse_rtranclp_into_rtranclp r_into_rtranclp)
      moreover have "serves namespace c st' (view ?e st')" using e st' by (auto simp: serves_def)
      ultimately show ?thesis by blast
    qed
  qed
qed

lemma del_steps:
  assumes "serves namespace c st s" "handle_del new_v5 namespace query keys context_opt st = (r, st')"
  shows "\<exists>s'. wb_steps new_v5 c s s' \<and> serves namespace c st' s'"
  using assms(1)
proof (rule servesE)
  fix entry
  assume e: "\<not> ds_registry_poisoned st" "ds_pool_open st" "list_all (\<lambda>(n, _). n = namespace) (ds_queue st)"
    "ds_registry st namespace = Some entry" "ne_cache entry = c" "\<not> pw_poisoned (ne_pending entry)" "s = view entry st"
    "conn_resolve st namespace = Inr entry"
  show ?thesis
  proof (cases "reconstruct query keys context_opt")
    case (Inl a)
    then show ?thesis using assms e(8) by (auto simp: handle_del_def)
  next
    case (Inr parts)
    obtain q ks ctx where parts: "parts = (q, ks, ctx)" by (cases parts) auto
    let ?i = "entry_id_derive new_v5 q ks ctx"
    let ?p = "(ne_pending entry)\<lparr>pw_entries := (pw_entries (ne_pending entry))(?i := None)\<rparr>"
    obtain out v w obs where del: "cache_delete c q ks ctx ((ne_vector entry, ds_service st), ds_objects st) = (out, ((v, w), obs))"
      by (metis prod.exhaust)
    let ?e = "entry\<lparr>ne_pending := ?p, ne_vector := v\<rparr>"
    have st': "st' = st\<lparr>ds_registry := (ds_registry st)(namespace \<mapsto> ?e), ds_service := w, ds_objects := obs\<rparr>"
      using assms(2) e(2,5,6,8) Inr parts del
      by (cases out) (simp_all add: handle_del_def Let_def pending_ops inference_run_def on_cache_def set_pending_def)
    have 1: "wb_step new_v5 c s (s\<lparr>wb_pending := ?p\<rparr>)"
      using drop_shadow[of ?i s _ ?p new_v5 c] e(6,7) by (simp add: view_def pending_ops)
    have "wb_steps new_v5 c (s\<lparr>wb_pending := ?p\<rparr>) (view ?e st')"
      using cache_delete_run[of c q ks ctx "s\<lparr>wb_pending := ?p\<rparr>" out "((v, w), obs)" new_v5] e(7) st' del by (simp add: view_def)
    with 1 have "wb_steps new_v5 c s (view ?e st')" by (rule converse_rtranclp_into_rtranclp)
    moreover have "serves namespace c st' (view ?e st')" using e st' by (auto simp: serves_def)
    ultimately show ?thesis by blast
  qed
qed

lemma get_steps:
  assumes "serves namespace c st s" "handle_get new_v5 namespace query keys context_opt st = (r, st')"
  shows "\<exists>s'. wb_steps new_v5 c s s' \<and> serves namespace c st' s'"
  using assms(1)
proof (rule servesE)
  fix entry
  assume e: "\<not> ds_registry_poisoned st" "ds_pool_open st" "list_all (\<lambda>(n, _). n = namespace) (ds_queue st)"
    "ds_registry st namespace = Some entry" "ne_cache entry = c" "\<not> pw_poisoned (ne_pending entry)" "s = view entry st"
    "conn_resolve st namespace = Inr entry"
  consider (same) "st' = st" | (looked) q ks ctx where
    "st' = snd (on_cache namespace entry (\<lambda>c. cache_get c q ks ctx) st)"
    using assms(2) e(2,6,8)
    by (auto simp: handle_get_def pending_ops inference_run_def case_prod_beta split: sum.splits option.splits)
  then show ?thesis
  proof cases
    case same
    then show ?thesis using assms(1) by blast
  next
    case (looked q ks ctx)
    obtain out v w obs where get: "cache_get c q ks ctx ((ne_vector entry, ds_service st), ds_objects st) = (out, ((v, w), obs))"
      by (metis prod.exhaust)
    let ?e = "entry\<lparr>ne_vector := v\<rparr>"
    have st': "st' = st\<lparr>ds_registry := (ds_registry st)(namespace \<mapsto> ?e), ds_service := w, ds_objects := obs\<rparr>"
      using looked e(5) get by (simp add: on_cache_def)
    have "wb_steps new_v5 c s (view ?e st')"
      using cache_get_run[of c q ks ctx s out "((v, w), obs)" new_v5] e(7) st' get by (simp add: view_def)
    moreover have "serves namespace c st' (view ?e st')" using e st' by (auto simp: serves_def)
    ultimately show ?thesis by blast
  qed
qed

lemma write_job_run_effect:
  assumes "ds_registry st namespace = Some entry"
    and "job_effect new_v5 (ne_cache entry) job (((ne_vector entry, ds_service st), ds_objects st), ne_pending entry) = (((v, w), obs), p)"
  shows "write_job_run new_v5 namespace job st =
    st\<lparr>ds_registry := (ds_registry st)(namespace \<mapsto> entry\<lparr>ne_pending := p, ne_vector := v\<rparr>), ds_service := w, ds_objects := obs\<rparr>"
  using assms
  by (cases st) (auto simp: write_job_run_def job_effect_def on_cache_def set_pending_def Let_def fun_upd_idem
      split: sum.splits if_splits prod.splits)

lemma turn_steps:
  assumes "serves namespace c st s"
  shows "\<exists>s'. wb_steps new_v5 c s s' \<and> serves namespace c (worker_turn new_v5 st) s'"
  using assms(1)
proof (rule servesE)
  fix entry
  assume e: "\<not> ds_registry_poisoned st" "ds_pool_open st" "list_all (\<lambda>(n, _). n = namespace) (ds_queue st)"
    "ds_registry st namespace = Some entry" "ne_cache entry = c" "\<not> pw_poisoned (ne_pending entry)" "s = view entry st"
    "conn_resolve st namespace = Inr entry"
  show ?thesis
  proof (cases "ds_queue st")
    case Nil
    then show ?thesis using assms by (auto simp: worker_turn_def)
  next
    case (Cons x queue)
    with e(3) obtain job where x: "x = (namespace, job)" by (cases x) auto
    obtain v w obs p where eff: "job_effect new_v5 c job (((ne_vector entry, ds_service st), ds_objects st), ne_pending entry) = (((v, w), obs), p)"
      by (metis prod.exhaust)
    let ?e = "entry\<lparr>ne_pending := p, ne_vector := v\<rparr>" and ?st = "st\<lparr>ds_queue := queue\<rparr>"
    let ?st' = "?st\<lparr>ds_registry := (ds_registry st)(namespace \<mapsto> ?e), ds_service := w, ds_objects := obs\<rparr>"
    have turn: "worker_turn new_v5 st = ?st'"
      using write_job_run_effect[of ?st namespace entry new_v5 job v w obs p] Cons x e(4,5) eff by (simp add: worker_turn_def)
    let ?s = "s\<lparr>wb_queue := map snd queue\<rparr>"
    have len: "0 < length (wb_workers ?s)" using e(7) by (simp add: view_def WRITE_WORKERS_def)
    have "wb_step new_v5 c s (wb_at ?s 0 (Received job) 0 (wb_store s) (wb_pending s))"
      using receive[of 0 s job "map snd queue" new_v5 c] Cons x e(7) len by (simp add: view_def wb_at_def WRITE_WORKERS_def)
    moreover have "wb_steps new_v5 c (wb_at ?s 0 (Received job) 0 (wb_store s) (wb_pending s)) (wb_at ?s 0 Waiting 0 ((v, w), obs) p)"
      using job_steps[OF len, of new_v5 c job 0 "wb_store s" "wb_pending s"] eff e(7) by (simp add: view_def)
    moreover have "wb_at ?s 0 Waiting 0 ((v, w), obs) p = view ?e ?st'"
      using e(7) by (simp add: wb_at_def view_def WRITE_WORKERS_def numeral_2_eq_2)
    ultimately have "wb_steps new_v5 c s (view ?e ?st')" by (metis converse_rtranclp_into_rtranclp)
    moreover have "\<not> pw_poisoned p"
      using eff e(6) by (auto simp: job_effect_def pending_ops split: sum.splits if_splits)
    then have "serves namespace c ?st' (view ?e ?st')" using e Cons by (auto simp: serves_def)
    ultimately show ?thesis unfolding turn by blast
  qed
qed

section \<open>Properties\<close>

datatype daemon_op = Request request | WorkerTurn

fun run_ops ::
  "('m, 't, 'sw, 'i, 'g, 'cred, 'bucket, 'w, 's) host \<Rightarrow> string \<Rightarrow> nat \<Rightarrow> daemon_op list
   \<Rightarrow> ('w, 's) daemon_state \<Rightarrow> ('w, 's) daemon_state" where
  "run_ops h version protocol [] st = st"
| "run_ops h version protocol (Request r # ops) st = run_ops h version protocol ops (snd (respond h version protocol r st))"
| "run_ops h version protocol (WorkerTurn # ops) st = run_ops h version protocol ops (worker_turn (h_new_v5 h) st)"

fun op_concerns :: "string \<Rightarrow> daemon_op \<Rightarrow> bool" where
  "op_concerns namespace (Request r) = concerns namespace r"
| "op_concerns namespace WorkerTurn = True"

text \<open>
  What leaves the pending value of an entry alone: requests that neither set nor delete the entry, and turns of a worker
  that take up a job of another one. \<open>request_id\<close> is the id of the entry a request names.
\<close>

definition request_id :: "(bytes \<Rightarrow> bytes \<Rightarrow> bytes) \<Rightarrow> string \<Rightarrow> string list \<Rightarrow> string option \<Rightarrow> entry_id option" where
  "request_id new_v5 query keys context_opt =
     (case reconstruct query keys context_opt of Inl _ \<Rightarrow> None | Inr (q, ks, ctx) \<Rightarrow> Some (entry_id_derive new_v5 q ks ctx))"

fun overwrites :: "(bytes \<Rightarrow> bytes \<Rightarrow> bytes) \<Rightarrow> string \<Rightarrow> entry_id option \<Rightarrow> request \<Rightarrow> bool" where
  "overwrites new_v5 n i (Set m query keys context_opt v) \<longleftrightarrow> m = n \<and> request_id new_v5 query keys context_opt = i"
| "overwrites new_v5 n i (Del m query keys context_opt) \<longleftrightarrow> m = n \<and> request_id new_v5 query keys context_opt = i"
| "overwrites new_v5 n i _ \<longleftrightarrow> False"

fun spares ::
  "('m, 't, 'sw, 'i, 'g, 'cred, 'bucket, 'w, 's) host \<Rightarrow> string \<Rightarrow> nat \<Rightarrow> string \<Rightarrow> entry_id option \<Rightarrow> daemon_op list
   \<Rightarrow> ('w, 's) daemon_state \<Rightarrow> bool" where
  "spares h version protocol n i [] st \<longleftrightarrow> True"
| "spares h version protocol n i (Request r # ops) st \<longleftrightarrow>
     \<not> overwrites (h_new_v5 h) n i r \<and> spares h version protocol n i ops (snd (respond h version protocol r st))"
| "spares h version protocol n i (WorkerTurn # ops) st \<longleftrightarrow>
     (case ds_queue st of [] \<Rightarrow> True | (m, job) # _ \<Rightarrow> m = n \<longrightarrow> Some (job_id job) \<noteq> i)
     \<and> spares h version protocol n i ops (worker_turn (h_new_v5 h) st)"

definition pending_at :: "string \<Rightarrow> entry_id \<Rightarrow> arc \<Rightarrow> ('w, 's) daemon_state \<Rightarrow> bool" where
  "pending_at n i a st \<longleftrightarrow> \<not> ds_registry_poisoned st
     \<and> (\<exists>entry. ds_registry st n = Some entry \<and> \<not> pw_poisoned (ne_pending entry) \<and> pw_entries (ne_pending entry) i = Some a)"

lemma pending_at_on_cache:
  "ds_registry st m = Some entry \<Longrightarrow> pending_at n i a (snd (on_cache m entry f st)) = pending_at n i a st"
  by (auto simp: pending_at_def on_cache_def split: prod.splits)

lemma pending_at_set_pending:
  "ds_registry st m = Some entry \<Longrightarrow> pending_at n i a st \<Longrightarrow>
     (m = n \<Longrightarrow> \<not> pw_poisoned p \<and> pw_entries p i = pw_entries (ne_pending entry) i) \<Longrightarrow>
     pending_at n i a (set_pending m entry' p st)"
  by (auto simp: pending_at_def set_pending_def)

lemma pending_remove_if_other:
  assumes "pending_remove_if j v p = (r, p')" "j \<noteq> i"
  shows "pw_entries p' i = pw_entries p i" "pw_poisoned p' = pw_poisoned p"
  using assms by (auto simp: pending_remove_if_def pending_lock_def split: if_splits option.splits)

lemma set_spares:
  assumes "pending_at n i a st" "\<not> (m = n \<and> request_id new_v5 query keys context_opt = Some i)"
  shows "pending_at n i a (snd (handle_set new_v5 m query keys context_opt v st))"
proof (cases "conn_resolve st m")
  case (Inr entry)
  then have reg: "ds_registry st m = Some entry" by (simp add: conn_resolve_Inr)
  show ?thesis
  proof (cases "reconstruct query keys context_opt")
    case (Inr parts)
    obtain q ks ctx where parts: "parts = (q, ks, ctx)" by (cases parts) auto
    have "m = n \<longrightarrow> entry_id_derive new_v5 q ks ctx \<noteq> i" using assms(2) Inr parts by (simp add: request_id_def)
    then show ?thesis
      using assms(1) reg Inr parts \<open>conn_resolve st m = Inr entry\<close>
      by (auto simp: handle_set_def Let_def try_push_def pending_at_def set_pending_def new_job_def pending_insert_def pending_lock_def
          pending_remove_if_def split: if_splits option.splits)
  qed (use assms(1) Inr in \<open>simp add: handle_set_def\<close>)
qed (use assms(1) in \<open>simp add: handle_set_def\<close>)

lemma del_spares:
  assumes "pending_at n i a st" "\<not> (m = n \<and> request_id new_v5 query keys context_opt = Some i)"
  shows "pending_at n i a (snd (handle_del new_v5 m query keys context_opt st))"
proof (cases "conn_resolve st m")
  case (Inr entry)
  then have reg: "ds_registry st m = Some entry" by (simp add: conn_resolve_Inr)
  show ?thesis
  proof (cases "reconstruct query keys context_opt")
    case (Inr parts)
    obtain q ks ctx where parts: "parts = (q, ks, ctx)" by (cases parts) auto
    let ?j = "entry_id_derive new_v5 q ks ctx"
    obtain r p where rm: "pending_remove ?j (ne_pending entry) = (r, p)" by fastforce
    have ne: "m = n \<longrightarrow> ?j \<noteq> i" using assms(2) Inr parts by (simp add: request_id_def)
    let ?e = "entry\<lparr>ne_pending := p\<rparr>" and ?st = "set_pending m (entry\<lparr>ne_pending := p\<rparr>) p st"
    have e: "ds_registry ?st m = Some ?e" by (simp add: set_pending_def)
    have "pending_at n i a ?st"
      using assms(1) reg rm ne by (intro pending_at_set_pending) (auto simp: pending_remove_def pending_lock_def pending_at_def split: if_splits)
    then show ?thesis
      using assms(1) Inr parts rm \<open>conn_resolve st m = Inr entry\<close>
      by (auto simp: handle_del_def inference_run_def Let_def case_prod_beta pending_at_on_cache[OF e] split: sum.splits option.splits if_splits)
  qed (use assms(1) Inr in \<open>simp add: handle_del_def\<close>)
qed (use assms(1) in \<open>simp add: handle_del_def\<close>)

lemma get_spares:
  assumes "pending_at n i a st"
  shows "pending_at n i a (snd (handle_get new_v5 m query keys context_opt st))"
proof (cases "conn_resolve st m")
  case (Inr entry)
  then have reg: "ds_registry st m = Some entry" by (simp add: conn_resolve_Inr)
  show ?thesis
    using assms Inr
    by (auto simp: handle_get_def inference_run_def case_prod_beta pending_at_on_cache[OF reg] split: sum.splits option.splits if_splits)
qed (use assms in \<open>simp add: handle_get_def\<close>)

lemma register_spares:
  assumes "pending_at n i a st"
  shows "pending_at n i a (snd (handle_register h m config_json st))"
  using assms
  by (auto simp: handle_register_def state_build_lock_def state_resolve_def state_register_def inference_run_def Let_def pending_at_def
      split: sum.splits option.splits if_splits prod.splits)

lemma respond_spares:
  assumes "pending_at n i a st" "\<not> overwrites (h_new_v5 h) n (Some i) r"
  shows "pending_at n i a (snd (respond h version protocol r st))"
  using assms set_spares[OF assms(1)] get_spares[OF assms(1)] del_spares[OF assms(1)] register_spares[OF assms(1)] by (cases r) auto

lemma turn_spares:
  assumes "pending_at n i a st" "case ds_queue st of [] \<Rightarrow> True | (m, job) # _ \<Rightarrow> m = n \<longrightarrow> Some (job_id job) \<noteq> Some i"
  shows "pending_at n i a (worker_turn new_v5 st)"
proof (cases "ds_queue st")
  case Nil
  then show ?thesis using assms(1) by (simp add: worker_turn_def)
next
  case (Cons x queue)
  obtain m job where x: "x = (m, job)" by (cases x)
  let ?st = "st\<lparr>ds_queue := queue\<rparr>"
  have at: "pending_at n i a ?st" using assms(1) by (simp add: pending_at_def)
  have "pending_at n i a (write_job_run new_v5 m job ?st)"
  proof (cases "ds_registry st m")
    case None
    then show ?thesis using at by (simp add: write_job_run_def)
  next
    case (Some entry)
    obtain v w obs p where eff: "job_effect new_v5 (ne_cache entry) job (((ne_vector entry, ds_service st), ds_objects st), ne_pending entry)
        = (((v, w), obs), p)" by (metis prod.exhaust)
    have "m = n \<Longrightarrow> pw_entries p i = pw_entries (ne_pending entry) i \<and> pw_poisoned p = pw_poisoned (ne_pending entry)"
      using eff assms(2) Cons x pending_remove_if_other[of "job_id job" "job_value job" "ne_pending entry" _ p i]
      by (auto simp: job_effect_def split: sum.splits if_splits) (metis prod.collapse)+
    then show ?thesis
      using write_job_run_effect[of ?st m entry new_v5 job v w obs p] Some eff at by (auto simp: pending_at_def)
  qed
  then show ?thesis using Cons x by (simp add: worker_turn_def)
qed

lemma run_spares:
  "pending_at n i a st \<Longrightarrow> spares h version protocol n (Some i) ops st \<Longrightarrow> pending_at n i a (run_ops h version protocol ops st)"
proof (induction ops arbitrary: st)
  case (Cons x ops)
  show ?case
  proof (cases x)
    case (Request r)
    with Cons.prems respond_spares[OF Cons.prems(1), of h r version protocol] show ?thesis using Cons.IH by simp
  next
    case WorkerTurn
    with Cons.prems turn_spares[OF Cons.prems(1), of "h_new_v5 h"] show ?thesis using Cons.IH by simp
  qed
qed simp

lemma accepted_pending:
  assumes "handle_set new_v5 n query keys context_opt v st = (Accepted True, st')"
  obtains i a where "request_id new_v5 query keys context_opt = Some i" "pending_at n i a st'" "arc_bytes a = v"
  using assms
proof (rule handle_set_Accepted)
  fix entry q ks ctx p job
  assume "\<not> ds_registry_poisoned st" "ds_registry st n = Some entry" "\<not> pw_poisoned (ne_pending entry)"
    "reconstruct query keys context_opt = Inr (q, ks, ctx)" "job = new_job new_v5 (ds_next_arc st) q ks ctx v"
    "p = (pw_entries (ne_pending entry))(job_id job := if True then Some (job_value job) else None)"
    "st' = st\<lparr>ds_next_arc := ds_next_arc st + 1,
       ds_registry := (ds_registry st)(n \<mapsto> entry\<lparr>ne_pending := (ne_pending entry)\<lparr>pw_entries := p\<rparr>\<rparr>),
       ds_queue := (if True then ds_queue st @ [(n, job)] else ds_queue st)\<rparr>"
  then show thesis
    by (intro that[of "job_id job" "job_value job"]) (simp_all add: request_id_def pending_at_def new_job_def)
qed

lemma pending_answers:
  assumes "pending_at n i a st" "request_id new_v5 query keys context_opt = Some i"
  shows "handle_get new_v5 n query keys context_opt st = (Value (Some (arc_bytes a)), st)"
  using assms
  by (auto simp: pending_at_def request_id_def handle_get_def conn_resolve_def state_resolve_def pending_ops split: sum.splits option.splits)

text \<open>The value of an accepted set is read back as long as the write has not been taken up, whatever else the daemon does.\<close>

lemma accepted_set_read_back:
  assumes "respond h version protocol (Set n query keys context_opt v) st = (Accepted True, st1)"
    and "spares h version protocol n (request_id (h_new_v5 h) query keys context_opt) ops st1"
    and "reconstruct query' keys' context_opt' = reconstruct query keys context_opt"
  shows "fst (respond h version protocol (Get n query' keys' context_opt') (run_ops h version protocol ops st1)) = Value (Some v)"
proof -
  have "handle_set (h_new_v5 h) n query keys context_opt v st = (Accepted True, st1)" using assms(1) by simp
  then obtain i a where i: "request_id (h_new_v5 h) query keys context_opt = Some i" "pending_at n i a st1" "arc_bytes a = v"
    by (rule accepted_pending)
  have "pending_at n i a (run_ops h version protocol ops st1)" by (rule run_spares[OF i(2) assms(2)[unfolded i(1)]])
  moreover have "request_id (h_new_v5 h) query' keys' context_opt' = Some i" using i(1) assms(3) by (simp add: request_id_def)
  ultimately have "handle_get (h_new_v5 h) n query' keys' context_opt' (run_ops h version protocol ops st1)
      = (Value (Some (arc_bytes a)), run_ops h version protocol ops st1)" by (rule pending_answers)
  with i(3) show ?thesis by simp
qed

lemma respond_steps:
  assumes "serves namespace c st s" "concerns namespace r"
  shows "\<exists>s'. wb_steps (h_new_v5 h) c s s' \<and> serves namespace c (snd (respond h version protocol r st)) s'"
proof (cases r)
  case (Get n query keys context_opt)
  then show ?thesis using assms(2) get_steps[OF assms(1)] by simp (metis prod.collapse)
next
  case (Set n query keys context_opt v)
  then show ?thesis using assms(2) set_steps[OF assms(1)] by simp (metis prod.collapse)
next
  case (Del n query keys context_opt)
  then show ?thesis using assms(2) del_steps[OF assms(1)] by simp (metis prod.collapse)
qed (use assms in auto)

lemma run_ops_steps:
  assumes "serves namespace c st s" "list_all (op_concerns namespace) ops"
  shows "\<exists>s'. wb_steps (h_new_v5 h) c s s' \<and> serves namespace c (run_ops h version protocol ops st) s'"
  using assms
proof (induction ops arbitrary: st s)
  case (Cons x ops)
  obtain st1 s1 where s1: "wb_steps (h_new_v5 h) c s s1" "serves namespace c st1 s1"
    and run: "run_ops h version protocol (x # ops) st = run_ops h version protocol ops st1"
  proof (cases x)
    case (Request r)
    with Cons.prems have "concerns namespace r" by simp
    from respond_steps[OF Cons.prems(1) this, of h version protocol] Request that show thesis by auto
  next
    case WorkerTurn
    with turn_steps[OF Cons.prems(1), of "h_new_v5 h"] that show thesis by auto
  qed
  from Cons.IH[OF s1(2)] Cons.prems(2) obtain s' where
    "wb_steps (h_new_v5 h) c s1 s'" "serves namespace c (run_ops h version protocol ops st1) s'" by auto
  with s1(1) run show ?case by (metis rtranclp_trans)
qed auto

text \<open>
  C6. The daemon serves a namespace as a write behind. Take a daemon with a freshly registered namespace, its queue empty and no value
  recorded yet, and any sequence of gets, sets and deletes for that namespace and of worker turns, with no other
  registration and no request for another namespace: it is a run of the interleaving relation, whatever
  the answers. If moreover every entry can be prepared, then after it each value in the shadow belongs to a job
  that is still queued, so that nothing is served from the shadow that no worker will take up.
\<close>
theorem daemon_is_write_behind:
  assumes "ds_registry st namespace = Some \<lparr>ne_cache = c, ne_pending = pending_default, ne_vector = v\<rparr>"
    and "\<not> ds_registry_poisoned st" "ds_pool_open st" "ds_queue st = []" "ds_next_arc st = 0"
    and "list_all (op_concerns namespace) ops"
    and st': "st' = run_ops h version protocol ops st"
  shows "\<exists>s'. wb_steps (h_new_v5 h) c (wb_new ((v, ds_service st), ds_objects st)) s' \<and> serves namespace c st' s'
    \<and> (prepares (h_new_v5 h) c \<longrightarrow>
        (\<exists>entry. ds_registry st' namespace = Some entry
          \<and> (\<forall>i a. pending_get i (ne_pending entry) = Inr (Some a) \<longrightarrow>
               (\<exists>job. (namespace, job) \<in> set (ds_queue st') \<and> job_id job = i \<and> job_value job = a))))"
proof -
  let ?s = "wb_new ((v, ds_service st), ds_objects st)"
  have "serves namespace c st ?s"
    using assms(1-5) by (simp add: serves_def view_def wb_new_def pending_default_def)
  from run_ops_steps[OF this assms(6), of h version protocol] obtain s' where
    s': "wb_steps (h_new_v5 h) c ?s s'" "serves namespace c st' s'" unfolding st' by blast
  have "\<exists>entry. ds_registry st' namespace = Some entry
      \<and> (\<forall>i a. pending_get i (ne_pending entry) = Inr (Some a) \<longrightarrow>
           (\<exists>job. (namespace, job) \<in> set (ds_queue st') \<and> job_id job = i \<and> job_value job = a))"
    if "prepares (h_new_v5 h) c"
    using s'(2)
  proof (rule servesE)
    fix entry
    assume e: "list_all (\<lambda>(n, _). n = namespace) (ds_queue st')" "ds_registry st' namespace = Some entry"
      "\<not> pw_poisoned (ne_pending entry)" "s' = view entry st'"
    have own: "owned s'" using wb_steps_owned[OF s'(1) wb_ok_new that] by (simp add: owned_def wb_new_def shadow_def pending_default_def)
    have live: "live s' = snd ` set (ds_queue st')"
      using e(4) by (auto simp: live_def view_def setter_jobs_def worker_jobs_def WRITE_WORKERS_def)
    have "\<exists>job. (namespace, job) \<in> set (ds_queue st') \<and> job_id job = i \<and> job_value job = a"
      if "pending_get i (ne_pending entry) = Inr (Some a)" for i a
    proof -
      from that e(3,4) have "shadow s' i = Some a" by (simp add: pending_ops shadow_def view_def)
      with own live obtain n job where "(n, job) \<in> set (ds_queue st')" "job_id job = i" "job_value job = a"
        by (fastforce simp: owned_def)
      with e(1) show ?thesis by (auto simp: list_all_iff)
    qed
    with e(2) show ?thesis by blast
  qed
  with s' show ?thesis by blast
qed

theorem daemon_is_write_behind_witness:
  "\<exists>s'. serves '' prod '' (realize example_host example_dc)
       (run_ops example_host ''1'' 1 [Request (Set '' prod '' ''q'' [] None [1, 2]), WorkerTurn] (example_daemon 0)) s'
     \<and> wb_steps example_v5 (realize example_host example_dc) (wb_new ((MemoryState memory_new, ()), (empty_disk, ()))) s'"
proof -
  have "ds_registry (example_daemon 0) '' prod '' = Some \<lparr>ne_cache = realize example_host example_dc,
      ne_pending = pending_default, ne_vector = MemoryState memory_new\<rparr>"
    "\<not> ds_registry_poisoned (example_daemon 0)" "ds_pool_open (example_daemon 0)" "ds_queue (example_daemon 0) = []"
    "ds_next_arc (example_daemon 0) = 0"
    "list_all (op_concerns '' prod '') [Request (Set '' prod '' ''q'' [] None [1, 2]), WorkerTurn]"
    by (simp_all add: example_daemon_def daemon_state_new_def)
  from daemon_is_write_behind[OF this refl, of example_host "''1''" 1] show ?thesis
    by (auto simp: example_host_v5 example_daemon_def daemon_state_new_def)
qed

end
