(* ===== verification/Daemon_Invariant.thy ===== *)
theory Daemon_Invariant
  imports Built_Cache Daemon_Steps
begin

text \<open>
  All namespaces of a daemon at once. The disk and the services are shared by the namespaces
  (\<^verbatim>\<open>src/daemon/state.rs\<close>), so that an operation of one could harm another. For a deployment in which
  every registration builds the same kind of stores under names without surrounding blanks (\<open>joins\<close>), which
  with turbopuffer consist of the characters it allows in names, no sequence of requests and worker turns makes any namespace inconsistent, and an operation on one
  namespace leaves the contents of the others as they are.
\<close>

section \<open>Operations of a cache and other namespaces\<close>

context cache_contract
begin

lemma commit_elsewhere:
  assumes "vinvar v" "oinvar obs" "usable (cache_namespace c) (ve_id entry)" "accepts entry"
    and "cache_commit c entry val (v, obs) = (r, (v', obs'))" and "m \<noteq> cache_namespace c"
  shows "entries v' m = entries v m" "usable m j \<Longrightarrow> objects obs' (m, j) = objects obs (m, j)"
  using cache_commit_effect(5,6)[OF assms(1-3,5,4)] assms(6) by auto

lemma delete_elsewhere:
  assumes "vinvar v" "oinvar obs" "no_dangling c entries objects usable (v, obs)"
    and "cache_delete c q keys context_opt (v, obs) = (r, (v', obs'))" and "m \<noteq> cache_namespace c"
  shows "entries v' m = entries v m" "usable m j \<Longrightarrow> objects obs' (m, j) = objects obs (m, j)"
proof -
  have "entries v' m = entries v m \<and> (usable m j \<longrightarrow> objects obs' (m, j) = objects obs (m, j))"
    using assms(1-4)
  proof (cases rule: cache_delete_cases)
    case (undecided i err)
    with vs.delete_entries[OF assms(1)] assms(5) show ?thesis by fastforce
  next
    case (removed hit e o_res)
    with vs.delete_ok[OF assms(1) removed(3)] os.delete_ok[OF assms(2) removed(2)] os.delete_err[OF assms(2) removed(2)] assms(5)
    show ?thesis by (cases o_res) auto
  qed simp
  then show "entries v' m = entries v m" "usable m j \<Longrightarrow> objects obs' (m, j) = objects obs (m, j)" by blast+
qed

lemma cache_step_elsewhere:
  assumes "op_storable new_v5 c usable accepts opr" "vinvar v" "oinvar obs" "no_dangling c entries objects usable (v, obs)"
    and "cache_step new_v5 c opr (v, obs) = (v', obs')" and "m \<noteq> cache_namespace c"
  shows "entries v' m = entries v m \<and> (usable m j \<longrightarrow> objects obs' (m, j) = objects obs (m, j))"
proof (cases opr)
  case (OpGet q keys context_opt)
  then show ?thesis
    using assms(5) cache_get_sound(1)[OF assms(2-4), of q keys context_opt] by (metis cache_step.simps(1) prod.collapse prod.inject)
next
  case (OpSet q keys context_opt val)
  show ?thesis
  proof (cases "cache_prepare new_v5 c q keys context_opt")
    case (Inl e)
    then show ?thesis using assms(5) OpSet by (simp add: cache_set_def)
  next
    case (Inr e)
    then have i: "ve_id e = entry_id_derive new_v5 q keys context_opt" by (auto simp: cache_prepare_def result_simps)
    obtain r where com: "cache_commit c e val (v, obs) = (r, (v', obs'))"
      using assms(5) OpSet Inr by (cases "cache_commit c e val (v, obs)") (simp add: cache_set_def)
    have "usable (cache_namespace c) (ve_id e)" "accepts e" using assms(1) OpSet Inr i by (simp_all add: set_storable_def)
    from commit_elsewhere[OF assms(2,3) this com assms(6)] show ?thesis by blast
  qed
next
  case (OpDelete q keys context_opt)
  then obtain r where "cache_delete c q keys context_opt (v, obs) = (r, (v', obs'))"
    using assms(5) by (metis cache_step.simps(3) prod.collapse)
  from delete_elsewhere[OF assms(2-4) this assms(6)] show ?thesis by blast
qed

end

text \<open>What the methods of the vector store keep of its state, the operations of a cache keep.\<close>

definition vector_keeps :: "'v vector_backend \<Rightarrow> ('v \<Rightarrow> bool) \<Rightarrow> bool" where
  "vector_keeps b K \<longleftrightarrow> (\<forall>ns e v. K v \<longrightarrow> K (snd (vb_upsert b ns e v))) \<and> (\<forall>ns i v. K v \<longrightarrow> K (snd (vb_delete b ns i v)))
     \<and> (\<forall>ns vec c f k v. K v \<longrightarrow> K (snd (vb_query b ns vec c f k v)))"

lemma find_match_keeps:
  assumes "vector_keeps (cache_vector c) K" "K v"
  shows "K (snd (find_match c q keys context_opt v))"
  using assms by (auto simp: find_match_def Let_def try_state_def vector_keeps_def split: sum.splits prod.splits) (metis snd_conv)+

lemma cache_ops_keep:
  assumes "vector_keeps (cache_vector c) K" "K (fst s)"
  shows "K (fst (snd (cache_get c q keys context_opt s)))" "K (fst (snd (cache_commit c entry val s)))"
    "K (fst (snd (cache_delete c q keys context_opt s)))"
proof -
  note m = find_match_keeps[OF assms, of q keys context_opt]
  have up: "K (snd (vb_upsert (cache_vector c) ns e v))" and de: "K (snd (vb_delete (cache_vector c) ns i v))" if "K v" for ns e i v
    using assms(1) that by (auto simp: vector_keeps_def)
  show "K (fst (snd (cache_get c q keys context_opt s)))"
    using m by (auto simp: cache_get_def split: prod.splits sum.splits option.splits)
  show "K (fst (snd (cache_commit c entry val s)))"
    using assms(2) up[OF assms(2)] by (auto simp: cache_commit_def split: prod.splits sum.splits) (metis snd_conv)
  show "K (fst (snd (cache_delete c q keys context_opt s)))"
    using m de by (auto simp: cache_delete_def split: prod.splits sum.splits option.splits) (metis snd_conv)+
qed

lemma cache_step_keeps:
  assumes "vector_keeps (cache_vector c) K" "K (fst s)"
  shows "K (fst (cache_step new_v5 c opr s))"
  using cache_ops_keep[OF assms] assms(2) by (cases opr) (auto simp: cache_set_def split: sum.splits)

text \<open>The kind of a vector store, as it was built.\<close>

fun vector_kind :: "built_vector \<Rightarrow> vector_state \<Rightarrow> bool" where
  "vector_kind BuiltMemory (MemoryState m) \<longleftrightarrow> True"
| "vector_kind (BuiltTurbopuffer t) (TurbopufferState t') \<longleftrightarrow>
     tp_base_url t' = tp_base_url t \<and> tp_namespace_prefix t' = tp_namespace_prefix t"
| "vector_kind _ _ \<longleftrightarrow> False"

lemma on_vector_kind:
  assumes "vector_kind vec (fst vw)"
    and "\<And>t w. tp_base_url (fst (snd (g (t, w)))) = tp_base_url t \<and> tp_namespace_prefix (fst (snd (g (t, w)))) = tp_namespace_prefix t"
  shows "vector_kind vec (fst (snd (on_vector f g vw)))"
proof (cases vw)
  case (Pair v w)
  with assms(1) have kind: "vector_kind vec v" by simp
  show ?thesis
  proof (cases v)
    case (MemoryState m)
    then show ?thesis using kind Pair by (cases vec) (auto simp: on_vector_def on_memory_def split: prod.splits)
  next
    case (TurbopufferState t)
    obtain r t' w' where g: "g (t, w) = (r, (t', w'))" by (metis prod.exhaust)
    then show ?thesis
      using kind Pair TurbopufferState assms(2)[of t w] by (cases vec) (auto simp: on_vector_def on_service_def)
  qed
qed

lemma vector_kind_kept: "vector_keeps (cache_vector (realize h dc)) (\<lambda>vw. vector_kind vec (fst vw))"
  unfolding vector_keeps_def realize_def cache_new_def cache.simps boxed_vector_def vector_backend.simps tp_backend_def
  by (intro conjI allI impI; erule on_vector_kind)
    (auto simp: tp_upsert_def tp_delete_def tp_query_def Let_def cache_dim_def split: prod.splits sum.splits)

lemma step_kind:
  assumes "vector_kind vec v" "cache_step new_v5 (realize h dc) opr ((v, w), obs) = ((v', w'), obs')"
  shows "vector_kind vec v'"
  using cache_step_keeps[OF vector_kind_kept[of h dc vec], of "((v, w), obs)" new_v5 opr] assms by simp

lemma initial_kind [simp]: "vector_kind vec (initial_vector vec)"
  by (cases vec) simp_all

text \<open>Stores of one kind: a namespace of turbopuffer is seen alike by all of them, and an in-memory store
  sees nothing of the service.\<close>

lemma kind_entries:
  assumes "vector_kind (BuiltTurbopuffer t) v1" "vector_kind (BuiltTurbopuffer t) v2"
  shows "vector_entries rows (v1, w) = vector_entries rows (v2, w)" "vector_ok lower rows ns (v1, w) \<longleftrightarrow> vector_ok lower rows ns (v2, w)"
proof -
  obtain t1 t2 where t: "v1 = TurbopufferState t1" "v2 = TurbopufferState t2" and u: "same_target t1 t2"
    using assms by (cases v1; cases v2) (auto simp: same_target_def)
  show "vector_entries rows (v1, w) = vector_entries rows (v2, w)" "vector_ok lower rows ns (v1, w) = vector_ok lower rows ns (v2, w)"
    by (simp_all add: t tp_ok_def same_target_keeps[OF u])
qed

lemma other_store:
  assumes "vector_kind vec v" "vector_kind vec v'" "vector_kind vec v2" "vector_ok lower rows ns (v', w')" "vector_ok lower rows m (v2, w)"
    and "vector_entries rows (v', w') m = vector_entries rows (v, w) m"
  shows "vector_ok lower rows m (v2, w') \<and> vector_entries rows (v2, w') m = vector_entries rows (v2, w) m"
proof (cases vec)
  case BuiltMemory
  then show ?thesis using assms(3,5) by (cases v2) auto
next
  case (BuiltTurbopuffer t)
  then obtain t2 where t2: "v2 = TurbopufferState t2" using assms(3) by (cases v2) auto
  have same: "vector_entries rows (v2, x) = vector_entries rows (v', x)" "vector_ok lower rows ns (v2, x) = vector_ok lower rows ns (v', x)"
    "vector_entries rows (v2, x) = vector_entries rows (v, x)" for x
    using kind_entries(1)[of t v2 v' rows x] kind_entries(2)[of t v2 v' lower rows ns x] kind_entries(1)[of t v2 v rows x] assms(1-3) BuiltTurbopuffer
    by simp_all
  have "vector_ok lower rows m (v2, w')" using same(2)[of w'] assms(4,5) by (simp add: t2)
  then show ?thesis using same(1,3) assms(6) by metis
qed

text \<open>The namespaces a store of this kind addresses: all, or those whose names turbopuffer allows.\<close>

fun addressed :: "built_vector \<Rightarrow> namespace \<Rightarrow> bool" where
  "addressed BuiltMemory ns \<longleftrightarrow> True"
| "addressed (BuiltTurbopuffer t) ns \<longleftrightarrow> tp_addressed ns t"

section \<open>The stores of a daemon\<close>

text \<open>The caches with their vector stores, the vector service and the objects.\<close>

type_synonym ('w, 's) stores = "(string \<rightharpoonup> ('w, 's) daemon_cache \<times> vector_state) \<times> 'w \<times> (disk \<times> 's)"

definition stores_of :: "('w, 's) daemon_state \<Rightarrow> ('w, 's) stores" where
  "stores_of st = (\<lambda>n. map_option (\<lambda>entry. (ne_cache entry, ne_vector entry)) (ds_registry st n), ds_service st, ds_objects st)"

text \<open>What a request or a turn of a worker for the namespace \<open>n\<close> does to them: nothing, one operation of
  the cache, or the registration of a cache with stores of the common kind.\<close>

inductive store_step ::
  "('m, 't, 'sw, 'i, 'g, 'cred, 'bucket, 'w, 's) host \<Rightarrow> built_vector \<Rightarrow> 'bucket compressed_object \<Rightarrow> string
   \<Rightarrow> ('w, 's) stores \<Rightarrow> ('w, 's) stores \<Rightarrow> bool"
  for h vec ob n where
  idle: "store_step h vec ob n s s"
| operate: "reg n = Some (c, v) \<Longrightarrow> op_context_ok opr
    \<Longrightarrow> cache_step (h_new_v5 h) c opr ((v, w), obs) = ((v', w'), obs')
    \<Longrightarrow> store_step h vec ob n (reg, w, obs) (reg(n \<mapsto> (c, v')), w', obs')"
| build: "build_cache (h_libs h) (h_features h) n config = Inr dc \<Longrightarrow> dc_vector dc = vec \<Longrightarrow> dc_object dc = ob
    \<Longrightarrow> trim n = n \<Longrightarrow> addressed vec (Namespace n)
    \<Longrightarrow> store_step h vec ob n (reg, w, obs) (reg(n \<mapsto> (realize h dc, initial_vector vec)), w, obs)"

section \<open>Consistency of all namespaces\<close>

text \<open>The value stored for an entry.\<close>

definition value_of ::
  "('m, 't, 'sw, 'i, 'g, 'cred, 'bucket, 'w, 's) host \<Rightarrow> ('bucket \<Rightarrow> 's \<Rightarrow> string \<Rightarrow> bytes option)
   \<Rightarrow> 'bucket compressed_object \<Rightarrow> disk \<times> 's \<Rightarrow> namespace \<Rightarrow> entry_id \<Rightarrow> bytes option" where
  "value_of h buckets ob obs m i = decoded (h_zstd h) (built_objects buckets (inner_object ob)) obs (m, i)"

definition namespace_ok ::
  "('m, 't, 'sw, 'i, 'g, 'cred, 'bucket, 'w, 's) host \<Rightarrow> ('w \<Rightarrow> string \<Rightarrow> string \<Rightarrow> vector_entry option)
   \<Rightarrow> ('bucket \<Rightarrow> 's \<Rightarrow> string \<Rightarrow> bytes option) \<Rightarrow> built_vector \<Rightarrow> 'bucket compressed_object
   \<Rightarrow> string \<Rightarrow> ('w, 's) daemon_cache \<times> vector_state \<Rightarrow> 'w \<Rightarrow> disk \<times> 's \<Rightarrow> bool" where
  "namespace_ok h rows buckets vec ob n cv w obs \<longleftrightarrow> vector_kind vec (snd cv) \<and> namespace_new n = Inr (Namespace n)
     \<and> (\<exists>dc. fst cv = realize h dc \<and> dc_namespace dc = Namespace n \<and> dc_object dc = ob
          \<and> normalises (lib_lower (h_libs h)) (dc_entity dc) \<and> built_consistent h rows buckets dc ((snd cv, w), obs))"

text \<open>A cache that is built later finds what the services hold.\<close>

definition found_ok ::
  "('m, 't, 'sw, 'i, 'g, 'cred, 'bucket, 'w, 's) host \<Rightarrow> ('w \<Rightarrow> string \<Rightarrow> string \<Rightarrow> vector_entry option)
   \<Rightarrow> ('bucket \<Rightarrow> 's \<Rightarrow> string \<Rightarrow> bytes option) \<Rightarrow> built_vector \<Rightarrow> 'bucket compressed_object \<Rightarrow> 'w \<Rightarrow> disk \<times> 's \<Rightarrow> bool" where
  "found_ok h rows buckets vec ob w obs \<longleftrightarrow>
     (\<forall>dc. dc_object dc = ob \<longrightarrow> addressed vec (dc_namespace dc) \<longrightarrow>
        built_consistent h rows buckets dc ((initial_vector vec, w), obs))"

fun stores_ok ::
  "('m, 't, 'sw, 'i, 'g, 'cred, 'bucket, 'w, 's) host \<Rightarrow> ('w \<Rightarrow> string \<Rightarrow> string \<Rightarrow> vector_entry option)
   \<Rightarrow> ('bucket \<Rightarrow> 's \<Rightarrow> string \<Rightarrow> bytes option) \<Rightarrow> built_vector \<Rightarrow> 'bucket compressed_object \<Rightarrow> ('w, 's) stores \<Rightarrow> bool" where
  "stores_ok h rows buckets vec ob (reg, w, obs) \<longleftrightarrow> found_ok h rows buckets vec ob w obs
     \<and> (\<forall>n cv. reg n = Some cv \<longrightarrow> namespace_ok h rows buckets vec ob n cv w obs)"

text \<open>Consistency depends on the contents of the namespace only.\<close>

lemma built_consistent_iff:
  assumes "dc_object dc = ob"
  shows "built_consistent h rows buckets dc (vw, obs) \<longleftrightarrow> vector_ok (lib_lower (h_libs h)) rows (dc_namespace dc) vw
    \<and> (\<forall>i e. vector_entries rows vw (dc_namespace dc) i = Some e \<longrightarrow> storable (dc_namespace dc) i
         \<and> value_of h buckets ob obs (dc_namespace dc) i \<noteq> None)"
  using assms by (simp add: built_consistent_def no_dangling_def built_values_def value_of_def)

lemma operate_effect:
  assumes "services h rows buckets" "namespace_ok h rows buckets vec ob n (c, v) w obs" "op_context_ok opr"
    and step: "cache_step (h_new_v5 h) c opr ((v, w), obs) = ((v', w'), obs')"
  shows "namespace_ok h rows buckets vec ob n (c, v') w' obs'"
    "m \<noteq> Namespace n \<Longrightarrow> vector_kind vec v2 \<Longrightarrow> vector_ok (lib_lower (h_libs h)) rows m (v2, w) \<Longrightarrow>
      vector_ok (lib_lower (h_libs h)) rows m (v2, w') \<and> vector_entries rows (v2, w') m = vector_entries rows (v2, w) m
      \<and> (storable m j \<longrightarrow> value_of h buckets ob obs' m j = value_of h buckets ob obs m j)"
proof -
  let ?l = "lib_lower (h_libs h)"
  from assms(2) obtain dc where dc: "c = realize h dc" "dc_namespace dc = Namespace n" "dc_object dc = ob"
    "normalises ?l (dc_entity dc)" "built_consistent h rows buckets dc ((v, w), obs)"
    and k: "vector_kind vec v" "namespace_new n = Inr (Namespace n)" by (auto simp: namespace_ok_def)
  note con = realize_contract[OF assms(1), of dc]
  have st: "op_storable (h_new_v5 h) (realize h dc) storable (tp_accepts ?l) opr"
    using built_ops_storable[OF assms(1) dc(4) _ assms(3)] k(2) dc(2) by simp
  have inv: "vector_ok ?l rows (dc_namespace dc) (v, w)" "no_dangling (realize h dc) (vector_entries rows) (built_values h buckets dc) storable ((v, w), obs)"
    using dc(5) by (simp_all add: built_consistent_def)
  have after: "built_consistent h rows buckets dc ((v', w'), obs')"
    using cache_contract.cache_step_no_dangling[OF con st, of "((v, w), obs)"] inv step dc(1) by (simp add: built_consistent_def)
  have k': "vector_kind vec v'" by (rule step_kind[OF k(1) step[unfolded dc(1)]])
  show "namespace_ok h rows buckets vec ob n (c, v') w' obs'"
    using k k' dc after by (auto simp: namespace_ok_def)
  assume m: "m \<noteq> Namespace n" "vector_kind vec v2" "vector_ok ?l rows m (v2, w)"
  have *: "vector_entries rows (v', w') m = vector_entries rows (v, w) m
      \<and> (storable m j \<longrightarrow> built_values h buckets dc obs' (m, j) = built_values h buckets dc obs (m, j))"
    using cache_contract.cache_step_elsewhere[OF con st inv(1) TrueI inv(2) step[unfolded dc(1)], of m j] m(1) dc(2) by simp
  have "vector_ok ?l rows (dc_namespace dc) (v', w')" using after by (simp add: built_consistent_def)
  then have "vector_ok ?l rows m (v2, w') \<and> vector_entries rows (v2, w') m = vector_entries rows (v2, w) m"
    using other_store[OF k(1) k' m(2) _ m(3)] * by blast
  moreover have "storable m j \<longrightarrow> value_of h buckets ob obs' m j = value_of h buckets ob obs m j"
    using * dc(3) by (simp add: value_of_def built_values_def)
  ultimately show "vector_ok ?l rows m (v2, w') \<and> vector_entries rows (v2, w') m = vector_entries rows (v2, w) m
      \<and> (storable m j \<longrightarrow> value_of h buckets ob obs' m j = value_of h buckets ob obs m j)" by blast
qed

lemma namespace_ok_elsewhere:
  assumes "namespace_ok h rows buckets vec ob m cv w obs" "vector_ok (lib_lower (h_libs h)) rows (Namespace m) (snd cv, w')"
    and "vector_entries rows (snd cv, w') (Namespace m) = vector_entries rows (snd cv, w) (Namespace m)"
    and "\<And>j. storable (Namespace m) j \<Longrightarrow> value_of h buckets ob obs' (Namespace m) j = value_of h buckets ob obs (Namespace m) j"
  shows "namespace_ok h rows buckets vec ob m cv w' obs'"
proof -
  from assms(1) obtain dc where dc: "fst cv = realize h dc" "dc_namespace dc = Namespace m" "dc_object dc = ob"
    "normalises (lib_lower (h_libs h)) (dc_entity dc)" "built_consistent h rows buckets dc ((snd cv, w), obs)"
    by (auto simp: namespace_ok_def)
  have "built_consistent h rows buckets dc ((snd cv, w'), obs')"
    using dc(5) assms(2-4) unfolding built_consistent_iff[OF dc(3)] dc(2) by metis
  with dc assms(1) show ?thesis by (auto simp: namespace_ok_def)
qed

lemma found_ok_kept:
  fixes ob :: "'bucket compressed_object"
  assumes "found_ok h rows buckets vec ob w obs" "namespace_ok h rows buckets vec ob n (c, v') w' obs'"
    and "\<And>m j. m \<noteq> Namespace n \<Longrightarrow> vector_ok (lib_lower (h_libs h)) rows m (initial_vector vec, w) \<Longrightarrow>
      vector_ok (lib_lower (h_libs h)) rows m (initial_vector vec, w')
      \<and> vector_entries rows (initial_vector vec, w') m = vector_entries rows (initial_vector vec, w) m
      \<and> (storable m j \<longrightarrow> value_of h buckets ob obs' m j = value_of h buckets ob obs m j)"
  shows "found_ok h rows buckets vec ob w' obs'"
  unfolding found_ok_def
proof (intro allI impI)
  fix dc :: "'bucket dyn_cache"
  assume ob: "dc_object dc = ob" and addr: "addressed vec (dc_namespace dc)"
  have base: "built_consistent h rows buckets dc ((initial_vector vec, w), obs)" using assms(1) ob addr by (simp add: found_ok_def)
  show "built_consistent h rows buckets dc ((initial_vector vec, w'), obs')"
  proof (cases "dc_namespace dc = Namespace n")
    case False
    have "vector_ok (lib_lower (h_libs h)) rows (dc_namespace dc) (initial_vector vec, w)" using base by (simp add: built_consistent_def)
    with base assms(3)[OF False] show ?thesis unfolding built_consistent_iff[OF ob] by metis
  next
    case True
    from assms(2) obtain dc' where dc': "dc_namespace dc' = Namespace n" "dc_object dc' = ob" "vector_kind vec v'"
      "built_consistent h rows buckets dc' ((v', w'), obs')" by (auto simp: namespace_ok_def)
    show ?thesis
    proof (cases vec)
      case BuiltMemory
      then show ?thesis using base unfolding built_consistent_iff[OF ob] by (simp add: memory_entries_def memory_new_def)
    next
      case (BuiltTurbopuffer t)
      note same = kind_entries[of t v' "initial_vector vec"]
      show ?thesis
        using dc'(4) same dc'(3) BuiltTurbopuffer unfolding built_consistent_iff[OF ob] built_consistent_iff[OF dc'(2)] dc'(1) True
        by (metis initial_kind)
    qed
  qed
qed

text \<open>Every step keeps all namespaces consistent, and the contents of the others as they are.\<close>

lemma store_step_ok:
  assumes "store_step h vec ob n s s'" "services h rows buckets" "stores_ok h rows buckets vec ob s"
  shows "stores_ok h rows buckets vec ob s'"
  using assms(1,3)
proof (cases rule: store_step.cases)
  case (operate reg c v opr w obs v' w' obs')
  from assms(3) operate have found: "found_ok h rows buckets vec ob w obs"
    and ok: "\<And>m cv. reg m = Some cv \<Longrightarrow> namespace_ok h rows buckets vec ob m cv w obs" by auto
  note eff = operate_effect[OF assms(2) ok[OF operate(3)] operate(4,5)]
  have "namespace_ok h rows buckets vec ob m cv w' obs'" if "reg m = Some cv" "m \<noteq> n" for m cv
  proof -
    note o = ok[OF that(1)]
    have k: "vector_kind vec (snd cv)" "vector_ok (lib_lower (h_libs h)) rows (Namespace m) (snd cv, w)"
      using o by (auto simp: namespace_ok_def built_consistent_def)
    show ?thesis using that(2) eff(2)[OF _ k] by (intro namespace_ok_elsewhere[OF o]) auto
  qed
  moreover have "found_ok h rows buckets vec ob w' obs'" using eff(2)[OF _ initial_kind] by (intro found_ok_kept[OF found eff(1)]) blast
  ultimately show ?thesis using eff(1) operate(2) by auto
next
  case (build config dc reg w obs)
  have l: "lower_stable (lib_lower (h_libs h))" using assms(2) by (simp add: services_def)
  have b: "normalises (lib_lower (h_libs h)) (dc_entity dc)" "namespace_new n = Inr (dc_namespace dc)"
    using build(3) build_entity_normalises[OF _ l, of "h_features h"] by (auto simp: build_cache_def result_simps)
  have ns: "dc_namespace dc = Namespace n" using namespace_new_Inr(1)[OF b(2)] build(6) by (cases "dc_namespace dc") simp
  have "namespace_ok h rows buckets vec ob n (realize h dc, initial_vector vec) w obs"
    using assms(3) build b ns by (auto simp: namespace_ok_def found_ok_def)
  then show ?thesis using assms(3) build by auto
qed simp

section \<open>Requests and turns of a worker\<close>

fun request_namespace :: "request \<Rightarrow> string" where
  "request_namespace (RegisterNamespace n _) = n"
| "request_namespace (Get n _ _ _) = n"
| "request_namespace (Set n _ _ _ _) = n"
| "request_namespace (Del n _ _ _) = n"
| "request_namespace _ = []"

text \<open>A registration that yields stores of the common kind, under a name without surrounding blanks which they address.\<close>

fun joins ::
  "('m, 't, 'sw, 'i, 'g, 'cred, 'bucket, 'w, 's) host \<Rightarrow> built_vector \<Rightarrow> 'bucket compressed_object \<Rightarrow> request \<Rightarrow> bool" where
  "joins h vec ob (RegisterNamespace n config_json) \<longleftrightarrow> trim n = n \<and> addressed vec (Namespace n)
     \<and> (case h_parse_config h config_json of
          Inl _ \<Rightarrow> True
        | Inr config \<Rightarrow>
            case build_cache (h_libs h) (h_features h) n config of
              Inl _ \<Rightarrow> True
            | Inr dc \<Rightarrow> dc_vector dc = vec \<and> dc_object dc = ob)"
| "joins h vec ob _ \<longleftrightarrow> True"

definition jobs_ok :: "('w, 's) daemon_state \<Rightarrow> bool" where
  "jobs_ok st \<longleftrightarrow> list_all (\<lambda>(_, job). op_context_ok (OpSet (job_query job) (job_keys job) (job_context job) [])) (ds_queue st)"

lemma stores_of_pending [simp]:
  "ds_registry st n = Some entry \<Longrightarrow> stores_of (set_pending n entry p st) = stores_of st"
  by (auto simp: stores_of_def set_pending_def)

lemma stores_of_other [simp]:
  "stores_of (st\<lparr>ds_queue := q\<rparr>) = stores_of st" "stores_of (st\<lparr>ds_next_arc := a\<rparr>) = stores_of st"
  "stores_of (st\<lparr>ds_build_locks := b\<rparr>) = stores_of st"
  by (simp_all add: stores_of_def)

lemma jobs_ok_other [simp]:
  "jobs_ok (set_pending n entry p st) = jobs_ok st" "jobs_ok (snd (on_cache n entry f st)) = jobs_ok st"
  "jobs_ok (st\<lparr>ds_next_arc := a\<rparr>) = jobs_ok st" "jobs_ok (st\<lparr>ds_build_locks := b\<rparr>) = jobs_ok st"
  "jobs_ok (st\<lparr>ds_registry := g\<rparr>) = jobs_ok st"
  by (simp_all add: jobs_ok_def set_pending_def on_cache_def split: prod.splits)

lemma on_cache_stores:
  assumes "ds_registry st n = Some entry" "op_context_ok opr"
    and "\<And>s. snd (f (ne_cache entry) s) = cache_step (h_new_v5 h) (ne_cache entry) opr s"
  shows "store_step h vec ob n (stores_of st) (stores_of (snd (on_cache n entry f st)))"
proof -
  obtain r v w obs where f: "f (ne_cache entry) ((ne_vector entry, ds_service st), ds_objects st) = (r, ((v, w), obs))"
    by (metis prod.exhaust)
  let ?reg = "\<lambda>m. map_option (\<lambda>e. (ne_cache e, ne_vector e)) (ds_registry st m)"
  have "stores_of (snd (on_cache n entry f st)) = (?reg(n \<mapsto> (ne_cache entry, v)), w, obs)"
    using f by (auto simp: on_cache_def stores_of_def)
  moreover have "cache_step (h_new_v5 h) (ne_cache entry) opr ((ne_vector entry, ds_service st), ds_objects st) = ((v, w), obs)"
    using assms(3) f by (metis snd_conv)
  ultimately show ?thesis using assms(1,2) by (simp add: stores_of_def store_step.operate)
qed

lemma reconstruct_context: "reconstruct query keys context_opt = Inr (q, ks, ctx) \<Longrightarrow> op_context_ok (OpSet q ks ctx v)"
  by (auto simp: reconstruct_def ctx_new_Inr_iff split: sum.splits option.splits)

lemma get_stores:
  assumes "jobs_ok st" "handle_get (h_new_v5 h) n query keys context_opt st = (r, st')"
  shows "store_step h vec ob n (stores_of st) (stores_of st') \<and> jobs_ok st'"
proof (cases "conn_resolve st n")
  case (Inl a)
  then show ?thesis using assms by (simp add: handle_get_def store_step.idle)
next
  case (Inr entry)
  consider (same) "st' = st" | (looked) q ks ctx where "st' = snd (on_cache n entry (\<lambda>c. cache_get c q ks ctx) st)"
    using assms(2) Inr
    by (auto simp: handle_get_def pending_ops inference_run_def case_prod_beta split: sum.splits option.splits if_splits)
  then show ?thesis
  proof cases
    case (looked q ks ctx)
    then show ?thesis
      using assms(1) Inr on_cache_stores[of st n entry "OpGet q ks ctx" "\<lambda>c. cache_get c q ks ctx" h vec ob]
      by (simp add: conn_resolve_Inr)
  qed (simp add: assms(1) store_step.idle)
qed

lemma handle_get_value:
  assumes "handle_get new_v5 n query keys context_opt st = (Value (Some val), st')"
  obtains entry q ks ctx where "ds_registry st n = Some entry" "conn_resolve st n = Inr entry"
    "reconstruct query keys context_opt = Inr (q, ks, ctx)"
    "(\<exists>a. pending_get (entry_id_derive new_v5 q ks ctx) (ne_pending entry) = Inr (Some a) \<and> arc_bytes a = val)
      \<or> fst (cache_get (ne_cache entry) q ks ctx ((ne_vector entry, ds_service st), ds_objects st)) = Inr (Some val)"
proof (cases "conn_resolve st n")
  case (Inl a)
  then show ?thesis using assms by (auto simp: handle_get_def conn_resolve_def backend_error_def split: sum.splits option.splits)
next
  case (Inr entry)
  show ?thesis
  proof (cases "reconstruct query keys context_opt")
    case (Inl a)
    then show ?thesis using assms \<open>conn_resolve st n = Inr entry\<close>
      by (auto simp: handle_get_def dest!: reconstruct_Inl)
  next
    case (Inr parts)
    obtain q ks ctx where parts: "parts = (q, ks, ctx)" by (cases parts) auto
    have "ds_registry st n = Some entry" using \<open>conn_resolve st n = Inr entry\<close> by (simp add: conn_resolve_Inr)
    then show ?thesis
      using that[of entry q ks ctx] assms Inr \<open>conn_resolve st n = Inr entry\<close> parts
      by (auto simp: handle_get_def backend_error_def inference_run_def on_cache_def split: sum.splits option.splits prod.splits if_splits)
  qed
qed

lemma del_stores:
  assumes "jobs_ok st" "handle_del (h_new_v5 h) n query keys context_opt st = (r, st')"
  shows "store_step h vec ob n (stores_of st) (stores_of st') \<and> jobs_ok st'"
proof (cases "conn_resolve st n")
  case (Inl a)
  then show ?thesis using assms by (simp add: handle_del_def store_step.idle)
next
  case (Inr entry)
  let ?e = "\<lambda>p. entry\<lparr>ne_pending := p\<rparr>" and ?st = "\<lambda>p. set_pending n (entry\<lparr>ne_pending := p\<rparr>) p st"
  have st: "stores_of (?st p) = stores_of st" "ds_registry (?st p) n = Some (?e p)" for p
    using Inr by (auto simp: stores_of_def set_pending_def conn_resolve_Inr)
  consider (same) "st' = st" | (dropped) p where "st' = ?st p"
    | (deleted) p q ks ctx where "st' = snd (on_cache n (?e p) (\<lambda>c. cache_delete c q ks ctx) (?st p))"
    using assms(2) Inr
    by (auto simp: handle_del_def pending_ops inference_run_def Let_def case_prod_beta split: sum.splits option.splits if_splits)
  then show ?thesis
  proof cases
    case (dropped p)
    then show ?thesis using assms(1) st[of p] by (simp add: store_step.idle)
  next
    case (deleted p q ks ctx)
    show ?thesis
      using assms(1) deleted st[of p]
        on_cache_stores[OF st(2), of "OpDelete q ks ctx" "\<lambda>c. cache_delete c q ks ctx" p h vec ob] by simp
  qed (simp add: assms(1) store_step.idle)
qed

lemma set_stores:
  assumes "jobs_ok st"
  shows "stores_of (snd (handle_set new_v5 n query keys context_opt v st)) = stores_of st
    \<and> jobs_ok (snd (handle_set new_v5 n query keys context_opt v st))"
proof (cases "reconstruct query keys context_opt")
  case (Inl r)
  then show ?thesis using assms by (auto simp: handle_set_def split: sum.splits)
next
  case (Inr parts)
  obtain q ks ctx where parts: "parts = (q, ks, ctx)" by (cases parts) auto
  note ctx = reconstruct_context[OF Inr[unfolded parts], of "[]"]
  show ?thesis
  proof (cases "conn_resolve st n")
    case (Inr entry)
    then have reg: "ds_registry st n = Some entry" by (simp add: conn_resolve_Inr)
    have "stores_of (st\<lparr>ds_next_arc := a, ds_registry := (ds_registry st)(n \<mapsto> entry\<lparr>ne_pending := p\<rparr>), ds_queue := k\<rparr>) = stores_of st" for a p k
      using reg by (auto simp: stores_of_def)
    then show ?thesis
      using assms ctx reg Inr \<open>reconstruct query keys context_opt = Inr parts\<close> parts
      by (auto simp: handle_set_def Let_def try_push_def set_pending_def new_job_def jobs_ok_def stores_of_def split: sum.splits prod.splits if_splits)
  qed (use assms in \<open>simp add: handle_set_def\<close>)
qed

lemma register_stores:
  assumes "jobs_ok st" "joins h vec ob (RegisterNamespace n config_json)" "handle_register h n config_json st = (r, st')"
  shows "store_step h vec ob n (stores_of st) (stores_of st') \<and> jobs_ok st'"
proof -
  have "\<exists>b. snd (state_build_lock n st) = st\<lparr>ds_build_locks := b\<rparr>"
    by (auto simp: state_build_lock_def Let_def intro: exI[of _ "ds_build_locks st"] split: option.splits)
  then obtain lock b where lock: "state_build_lock n st = (lock, st\<lparr>ds_build_locks := b\<rparr>)" by (metis prod.collapse)
  let ?st = "st\<lparr>ds_build_locks := b\<rparr>"
  consider (same) "st' = ?st"
    | (built) config dc where "h_parse_config h config_json = Inr config"
      "build_cache (h_libs h) (h_features h) n config = Inr dc"
      "st' = ?st\<lparr>ds_registry := (ds_registry st)(n \<mapsto> \<lparr>ne_cache = realize h dc, ne_pending = pending_default,
         ne_vector = initial_vector (dc_vector dc)\<rparr>)\<rparr>"
    using assms(3) lock
    by (auto simp: handle_register_def inference_run_def state_register_def split: sum.splits option.splits if_splits)
  then show ?thesis
  proof cases
    case (built config dc)
    let ?reg = "\<lambda>m. map_option (\<lambda>e. (ne_cache e, ne_vector e)) (ds_registry st m)"
    have dc: "dc_vector dc = vec" "dc_object dc = ob" "trim n = n" "addressed vec (Namespace n)" using assms(2) built by simp_all
    have "stores_of st' = (?reg(n \<mapsto> (realize h dc, initial_vector vec)), ds_service st, ds_objects st)"
      using built(3) dc(1) by (auto simp: stores_of_def)
    then show ?thesis using store_step.build[OF built(2) dc] assms(1) built(3) by (simp add: stores_of_def)
  qed (simp add: assms(1) store_step.idle)
qed

lemma respond_stores:
  assumes "jobs_ok st" "joins h vec ob r"
  shows "store_step h vec ob (request_namespace r) (stores_of st) (stores_of (snd (respond h version protocol r st)))
    \<and> jobs_ok (snd (respond h version protocol r st))"
  using assms get_stores[OF assms(1) prod.collapse[symmetric]] del_stores[OF assms(1) prod.collapse[symmetric]]
    register_stores[OF assms(1) _ prod.collapse[symmetric]] set_stores[OF assms(1)]
  by (cases r) (simp_all add: store_step.idle)

definition turn_namespace :: "('w, 's) daemon_state \<Rightarrow> string" where
  "turn_namespace st = (case ds_queue st of [] \<Rightarrow> [] | (n, _) # _ \<Rightarrow> n)"

lemma job_stores:
  assumes "op_context_ok (OpSet (job_query job) (job_keys job) (job_context job) [])" "reg n = Some (c, v)"
    and "job_effect (h_new_v5 h) c job (((v, w), obs), p) = (((v', w'), obs'), p')"
  shows "store_step h vec ob n (reg, w, obs) (reg(n \<mapsto> (c, v')), w', obs')"
proof -
  let ?op = "OpSet (job_query job) (job_keys job) (job_context job) (arc_bytes (job_value job))"
  have ctx: "op_context_ok ?op" using assms(1) by (cases "job_context job") simp_all
  from assms(3) consider "v' = v" "w' = w" "obs' = obs" | "cache_step (h_new_v5 h) c ?op ((v, w), obs) = ((v', w'), obs')"
    by (auto simp: job_effect_def cache_set_def split: sum.splits if_splits)
  then show ?thesis
  proof cases
    case 1
    then show ?thesis using assms(2) by (simp add: fun_upd_idem store_step.idle)
  next
    case 2
    from store_step.operate[of reg n c v, OF assms(2) ctx this] show ?thesis .
  qed
qed

lemma turn_stores:
  assumes "jobs_ok st"
  shows "store_step h vec ob (turn_namespace st) (stores_of st) (stores_of (worker_turn (h_new_v5 h) st))
    \<and> jobs_ok (worker_turn (h_new_v5 h) st)"
proof (cases "ds_queue st")
  case Nil
  then show ?thesis using assms by (simp add: worker_turn_def store_step.idle)
next
  case (Cons x queue)
  obtain n job where x: "x = (n, job)" by (cases x)
  let ?st = "st\<lparr>ds_queue := queue\<rparr>"
  have q: "op_context_ok (OpSet (job_query job) (job_keys job) (job_context job) [])" "jobs_ok ?st"
    using assms Cons x by (simp_all add: jobs_ok_def)
  show ?thesis
  proof (cases "ds_registry st n")
    case None
    then show ?thesis using Cons x q(2) by (simp add: worker_turn_def write_job_run_def store_step.idle)
  next
    case (Some entry)
    obtain v w obs p where eff: "job_effect (h_new_v5 h) (ne_cache entry) job
        (((ne_vector entry, ds_service st), ds_objects st), ne_pending entry) = (((v, w), obs), p)"
      by (metis prod.exhaust)
    let ?reg = "\<lambda>m. map_option (\<lambda>e. (ne_cache e, ne_vector e)) (ds_registry st m)"
    have turn: "worker_turn (h_new_v5 h) st = ?st\<lparr>ds_registry := (ds_registry st)(n \<mapsto> entry\<lparr>ne_pending := p, ne_vector := v\<rparr>),
        ds_service := w, ds_objects := obs\<rparr>"
      using write_job_run_effect[of ?st n entry "h_new_v5 h" job v w obs p] Cons x Some eff by (simp add: worker_turn_def)
    have "stores_of (worker_turn (h_new_v5 h) st) = (?reg(n \<mapsto> (ne_cache entry, v)), w, obs)"
      unfolding turn by (auto simp: stores_of_def)
    moreover have "jobs_ok (worker_turn (h_new_v5 h) st)" using q(2) unfolding turn by (simp add: jobs_ok_def)
    ultimately show ?thesis
      using job_stores[OF q(1) _ eff, of ?reg n vec ob] Some Cons x by (simp add: stores_of_def turn_namespace_def)
  qed
qed

section \<open>Runs of the daemon\<close>

fun op_joins ::
  "('m, 't, 'sw, 'i, 'g, 'cred, 'bucket, 'w, 's) host \<Rightarrow> built_vector \<Rightarrow> 'bucket compressed_object \<Rightarrow> daemon_op \<Rightarrow> bool" where
  "op_joins h vec ob (Request r) \<longleftrightarrow> joins h vec ob r"
| "op_joins h vec ob WorkerTurn \<longleftrightarrow> True"

lemma run_ops_stores:
  assumes "services h rows buckets" "list_all (op_joins h vec ob) ops" "jobs_ok st" "stores_ok h rows buckets vec ob (stores_of st)"
  shows "jobs_ok (run_ops h version protocol ops st) \<and> stores_ok h rows buckets vec ob (stores_of (run_ops h version protocol ops st))"
  using assms(2-4)
proof (induction ops arbitrary: st)
  case (Cons x ops)
  show ?case
  proof (cases x)
    case (Request r)
    with Cons.prems(1) have "joins h vec ob r" by simp
    note step = respond_stores[OF Cons.prems(2) this, of version protocol]
    with store_step_ok[OF _ assms(1) Cons.prems(3)] have "stores_ok h rows buckets vec ob (stores_of (snd (respond h version protocol r st)))"
      by blast
    then show ?thesis using step Cons.IH Cons.prems(1) Request by simp
  next
    case WorkerTurn
    note step = turn_stores[OF Cons.prems(2), of h vec ob]
    with store_step_ok[OF _ assms(1) Cons.prems(3)] have "stores_ok h rows buckets vec ob (stores_of (worker_turn (h_new_v5 h) st))"
      by blast
    then show ?thesis using step Cons.IH Cons.prems(1) WorkerTurn by simp
  qed
qed simp

lemma run_new_stores:
  assumes "services h rows buckets" "found_ok h rows buckets vec ob w obs" "list_all (op_joins h vec ob) ops"
    and "st = run_ops h version protocol ops (daemon_state_new w obs)"
  shows "jobs_ok st" "stores_ok h rows buckets vec ob (stores_of st)"
  using run_ops_stores[OF assms(1,3), of "daemon_state_new w obs" version protocol] assms(2,4)
  by (simp_all add: jobs_ok_def daemon_state_new_def stores_of_def)

lemma store_step_elsewhere:
  assumes "store_step h vec ob n (reg, w, obs) (reg', w', obs')" "services h rows buckets"
    and "stores_ok h rows buckets vec ob (reg, w, obs)" "reg m = Some (c, v)" "m \<noteq> n"
  shows "reg' m = Some (c, v) \<and> vector_entries rows (v, w') (Namespace m) = vector_entries rows (v, w) (Namespace m)
    \<and> (storable (Namespace m) j \<longrightarrow> value_of h buckets ob obs' (Namespace m) j = value_of h buckets ob obs (Namespace m) j)"
  using assms(1)
proof (cases rule: store_step.cases)
  case (operate c' v' opr v'')
  have n: "namespace_ok h rows buckets vec ob n (c', v') w obs" and m: "namespace_ok h rows buckets vec ob m (c, v) w obs"
    using assms(3,4) operate by auto
  have "vector_kind vec v" "vector_ok (lib_lower (h_libs h)) rows (Namespace m) (v, w)" using m by (auto simp: namespace_ok_def built_consistent_def)
  from operate_effect(2)[OF assms(2) n _ _ _ this, of _ v'' w' obs' j] operate assms(4,5) show ?thesis by auto
qed (use assms(4,5) in auto)

text \<open>The entry that a namespace holds under an id.\<close>

definition stored_entry ::
  "('w \<Rightarrow> string \<Rightarrow> string \<Rightarrow> vector_entry option) \<Rightarrow> ('w, 's) daemon_state \<Rightarrow> string \<Rightarrow> entry_id \<Rightarrow> vector_entry option" where
  "stored_entry rows st n i =
     (case ds_registry st n of None \<Rightarrow> None | Some entry \<Rightarrow> vector_entries rows (ne_vector entry, ds_service st) (Namespace n) i)"

lemma step_isolated:
  assumes "store_step h vec ob n (stores_of st) (stores_of st')" "services h rows buckets"
    and "stores_ok h rows buckets vec ob (stores_of st)" "ds_registry st m \<noteq> None" "m \<noteq> n"
  shows "stored_entry rows st' m i = stored_entry rows st m i
    \<and> (storable (Namespace m) i \<longrightarrow> value_of h buckets ob (ds_objects st') (Namespace m) i = value_of h buckets ob (ds_objects st) (Namespace m) i)"
proof -
  from assms(4) obtain e where "ds_registry st m = Some e" by blast
  with store_step_elsewhere[OF assms(1)[unfolded stores_of_def] assms(2) assms(3)[unfolded stores_of_def] _ assms(5), of "ne_cache e" "ne_vector e" i]
  show ?thesis by (auto simp: stored_entry_def)
qed

lemma registered_consistent:
  assumes "stores_ok h rows buckets vec ob (stores_of st)" "ds_registry st m = Some entry"
  obtains dc where "ne_cache entry = realize h dc" "dc_namespace dc = Namespace m" "dc_object dc = ob"
    "normalises (lib_lower (h_libs h)) (dc_entity dc)"
    "built_consistent h rows buckets dc ((ne_vector entry, ds_service st), ds_objects st)"
  using assms by (fastforce simp: stores_of_def namespace_ok_def)

text \<open>An entry that answers a lookup: it has the keys asked for, and the vector store returned a hit for it
  whose entities and scores pass the gates; those of the in-memory store are the scores of the entry.\<close>

definition answers_lookup ::
  "('m, 't, 'sw, 'i, 'g, 'cred, 'bucket, 'w, 's) host \<Rightarrow> ('w, 's) daemon_cache \<Rightarrow> query_text \<Rightarrow> key btree_set \<Rightarrow> ctx option
   \<Rightarrow> vector_state \<times> 'w \<Rightarrow> vector_entry \<Rightarrow> bool" where
  "answers_lookup h c q ks ctx vw e \<longleftrightarrow> set ks \<subseteq> set (ve_keys e)
     \<and> (\<exists>hit es emb. hit_stands_for_entities hit e \<and> lookup_hit c q ks ctx vw es emb hit
          \<and> (\<forall>m. fst vw = MemoryState m \<longrightarrow>
               memory_scores (lib_lower (h_libs h)) (h_ln h) (h_term_order h) m (cache_namespace c) emb ctx e hit)
          \<and> accepted (cache_scoring c) es ctx hit)"

lemma built_lookup_scores:
  assumes "memory_ok (lib_lower (h_libs h)) m" "lookup_hit (realize h dc) q ks ctx (MemoryState m, w) es emb hit"
    and "memory_entries m (dc_namespace dc) (hit_id hit) = Some e"
  shows "memory_scores (lib_lower (h_libs h)) (h_ln h) (h_term_order h) m (dc_namespace dc) emb ctx e hit"
proof -
  obtain hits f k m' where q: "memory_query (lib_lower (h_libs h)) (h_ln h) (h_order h) (h_term_order h) (dc_namespace dc) emb ctx f k m
      = (Inr hits, m')" "hit \<in> set hits"
    using assms(2) by (auto simp: lookup_hit_def realize_def cache_new_def boxed_vector_def on_vector_def on_memory_def
        memory_backend_def split: sum.splits prod.splits)
  from memory_query_scores[OF assms(1) q] assms(3) show ?thesis by auto
qed

lemma built_get_sound:
  assumes "services h rows buckets" "built_consistent h rows buckets dc (vw, obs)" "normalises (lib_lower (h_libs h)) (dc_entity dc)"
    and "fst (cache_get (realize h dc) q ks ctx (vw, obs)) = Inr (Some val)"
  shows "\<exists>i e. vector_entries rows vw (dc_namespace dc) i = Some e \<and> answers_lookup h (realize h dc) q ks ctx vw e
    \<and> value_of h buckets (dc_object dc) obs (dc_namespace dc) i = Some val"
proof -
  have inv: "vector_ok (lib_lower (h_libs h)) rows (dc_namespace dc) vw"
    "no_dangling (realize h dc) (vector_entries rows) (built_values h buckets dc) storable (vw, obs)"
    using assms(2) by (simp_all add: built_consistent_def)
  obtain s' where "cache_get (realize h dc) q ks ctx (vw, obs) = (Inr (Some val), s')" using assms(4) by (metis prod.collapse)
  from cache_contract.cache_get_sound(2)[OF realize_contract[OF assms(1)] inv(1) TrueI inv(2) this] obtain hit e where
    m: "semantic_match (realize h dc) (vector_entries rows) q ks ctx vw hit e" "built_values h buckets dc obs (dc_namespace dc, ve_id e) = Some val"
    by auto
  from semantic_match_accepted[OF assms(3) m(1)] obtain es emb where
    e: "vector_entries rows vw (dc_namespace dc) (hit_id hit) = Some e" "ve_id e = hit_id hit" "set ks \<subseteq> set (ve_keys e)" "hit_stands_for_entities hit e"
    and hit: "lookup_hit (realize h dc) q ks ctx vw es emb hit" "accepted (dc_scoring dc) es ctx hit" .
  have "memory_scores (lib_lower (h_libs h)) (h_ln h) (h_term_order h) m (dc_namespace dc) emb ctx e hit" if "fst vw = MemoryState m" for m
    using built_lookup_scores[of h m dc q ks ctx "snd vw" es emb hit e] that inv(1) hit(1) e(1) by (cases vw) simp
  with e hit have "answers_lookup h (realize h dc) q ks ctx vw e" unfolding answers_lookup_def by auto
  with e(1,2) m(2) show ?thesis by (auto simp: value_of_def built_values_def intro!: exI[of _ "ve_id e"])
qed

section \<open>Properties\<close>

text \<open>
  C4. Namespaces are isolated. In a daemon whose registrations all build stores of one kind, under names
  without surrounding blanks, which with turbopuffer consist of the characters it allows in names, a request leaves the entries and the values of every namespace but its own
  as they are, though the disk, the bucket and the vector service are shared, and so does the turn of a
  worker for every namespace but that of the job it takes; whatever calls fail, and whatever was done before.
\<close>
theorem namespaces_isolated:
  assumes "services h rows buckets" "found_ok h rows buckets vec ob w obs" "list_all (op_joins h vec ob) ops"
    and "st = run_ops h version protocol ops (daemon_state_new w obs)"
    and "ds_registry st m \<noteq> None" "joins h vec ob r"
    and "st' = snd (respond h version protocol r st) \<and> m \<noteq> request_namespace r
      \<or> st' = worker_turn (h_new_v5 h) st \<and> m \<noteq> turn_namespace st"
  shows "stored_entry rows st' m i = stored_entry rows st m i
    \<and> (storable (Namespace m) i \<longrightarrow> value_of h buckets ob (ds_objects st') (Namespace m) i = value_of h buckets ob (ds_objects st) (Namespace m) i)"
proof -
  note ok = run_new_stores[OF assms(1-4)]
  from assms(7) obtain n where "store_step h vec ob n (stores_of st) (stores_of st')" "m \<noteq> n"
    using respond_stores[OF ok(1) assms(6), of version protocol] turn_stores[OF ok(1), of h vec ob] by blast
  with step_isolated[OF _ assms(1) ok(2) assms(5)] show ?thesis by blast
qed


section \<open>Example\<close>

text \<open>Two namespaces over one turbopuffer account and one bucket, one of which holds an entry from an earlier run.\<close>

definition shared_host :: "(unit, unit, unit, string, unit, unit, unit, unit, string \<Rightarrow> bytes option) host" where
  "shared_host = remote_host\<lparr>h_parse_config := (\<lambda>_. Inr remote_config)\<rparr>"

definition shared_object :: "unit compressed_object" where
  "shared_object = CompressedObject (BuiltS3 () ''p/'')"

definition shared_daemon :: "(unit, string \<Rightarrow> bytes option) daemon_state" where
  "shared_daemon = run_ops shared_host ''1'' 1 [Request (RegisterNamespace ''prod'' ''cfg''), Request (RegisterNamespace ''dev'' ''cfg'')]
     (daemon_state_new () (snd remote_state))"

lemma shared_services: "services shared_host remote_rows (\<lambda>_ s. s)"
  using remote_services by (simp add: shared_host_def services_def)

lemma shared_realize: "realize shared_host dc = realize remote_host dc"
  by (cases "dc_object dc"; cases "inner_object (dc_object dc)") (simp_all add: realize_def shared_host_def)

lemma shared_consistent: "built_consistent shared_host rows buckets dc s = built_consistent remote_host rows buckets dc s"
  by (simp add: built_consistent_def no_dangling_def built_values_def shared_host_def)

lemma shared_found: "found_ok shared_host remote_rows (\<lambda>_ s. s) (BuiltTurbopuffer remote_store) shared_object () (snd remote_state)"
  unfolding found_ok_def shared_consistent
proof (intro allI impI)
  fix dc :: "unit dyn_cache"
  assume ob: "dc_object dc = shared_object" and addr: "addressed (BuiltTurbopuffer remote_store) (dc_namespace dc)"
  have r: "dc_object remote_dc = shared_object" "dc_namespace remote_dc = Namespace ''prod''" by (simp_all add: remote_dc_def shared_object_def)
  have base: "built_consistent remote_host remote_rows (\<lambda>_ s. s) remote_dc ((initial_vector (BuiltTurbopuffer remote_store), ()), snd remote_state)"
    using remote_consistent by (simp add: remote_state_def)
  have "tp_entries remote_rows (remote_store, ()) ns = Map.empty" if "ns \<noteq> Namespace ''prod''" for ns
    using that by (auto simp: tp_entries_def remote_below fun_eq_iff physical_namespace_def remote_store_def
        DEFAULT_NAMESPACE_PREFIX_def namespace.expand)
  then show "built_consistent remote_host remote_rows (\<lambda>_ s. s) dc ((initial_vector (BuiltTurbopuffer remote_store), ()), snd remote_state)"
    using base addr unfolding built_consistent_iff[OF ob] built_consistent_iff[OF r(1)] r(2)
    by (cases "dc_namespace dc = Namespace ''prod''") simp_all
qed

lemma shared_build:
  assumes "namespace_new n = Inr ns"
  shows "build_cache (h_libs shared_host) (h_features shared_host) n remote_config = Inr (remote_dc\<lparr>dc_namespace := ns\<rparr>)"
proof -
  have "namespace_new '' prod '' = Inr (Namespace ''prod'')" by code_simp
  then show ?thesis using assms remote_build by (auto simp: build_cache_def shared_host_def remote_host_def remote_dc_def result_simps)
qed

lemma shared_joins:
  assumes "namespace_new n = Inr (Namespace n)" "trim n = n" "tp_name (''semisweet-'' @ n)"
  shows "joins shared_host (BuiltTurbopuffer remote_store) shared_object (RegisterNamespace n config_json)"
  using shared_build[OF assms(1)] assms(2,3) semisweet_prod(2)
  by (simp add: tp_addressed_def remote_store_def physical_namespace_def DEFAULT_NAMESPACE_PREFIX_def shared_host_def remote_dc_def shared_object_def)

lemma shared_names:
  "namespace_new ''prod'' = Inr (Namespace ''prod'')" "namespace_new ''dev'' = Inr (Namespace ''dev'')" "trim ''prod'' = ''prod''" "trim ''dev'' = ''dev''"
  "tp_name (''semisweet-'' @ ''prod'')" "tp_name (''semisweet-'' @ ''dev'')"
  by code_simp+

lemma shared_ops:
  "list_all (op_joins shared_host (BuiltTurbopuffer remote_store) shared_object)
     [Request (RegisterNamespace ''prod'' ''cfg''), Request (RegisterNamespace ''dev'' ''cfg'')]"
  using shared_joins shared_names by simp

lemma shared_registry:
  "ds_registry shared_daemon ''prod'' = Some \<lparr>ne_cache = realize remote_host remote_dc, ne_pending = pending_default,
     ne_vector = TurbopufferState remote_store\<rparr>" "\<not> ds_registry_poisoned shared_daemon" "ds_pool_open shared_daemon"
  "((TurbopufferState remote_store, ds_service shared_daemon), ds_objects shared_daemon) = remote_state"
proof -
  have parse: "h_parse_config shared_host x = Inr remote_config" for x by (simp add: shared_host_def)
  have dc: "remote_dc\<lparr>dc_namespace := Namespace ''prod''\<rparr> = remote_dc" "dc_vector remote_dc = BuiltTurbopuffer remote_store"
    by (simp_all add: remote_dc_def)
  note run = shared_daemon_def handle_register_def state_build_lock_def daemon_state_new_def Let_def state_resolve_def parse
    inference_run_def shared_build[OF shared_names(1)] shared_build[OF shared_names(2)] state_register_def shared_realize dc
  show "ds_registry shared_daemon ''prod'' = Some \<lparr>ne_cache = realize remote_host remote_dc, ne_pending = pending_default,
     ne_vector = TurbopufferState remote_store\<rparr>" "\<not> ds_registry_poisoned shared_daemon" "ds_pool_open shared_daemon"
    "((TurbopufferState remote_store, ds_service shared_daemon), ds_objects shared_daemon) = remote_state"
    by (simp_all add: run) (simp add: remote_state_def)
qed

lemma shared_get:
  "respond shared_host ''1'' 1 (Get ''prod'' ''acme'' [''k''] None) shared_daemon
     = (Value (Some [1, 2]), snd (respond shared_host ''1'' 1 (Get ''prod'' ''acme'' [''k''] None) shared_daemon))"
proof -
  have "reconstruct ''acme'' [''k''] None = Inr (QueryText ''acme'', [Key ''k''], None)" by code_simp
  moreover have "conn_resolve shared_daemon ''prod'' = Inr \<lparr>ne_cache = realize remote_host remote_dc, ne_pending = pending_default,
     ne_vector = TurbopufferState remote_store\<rparr>" using shared_registry by (simp add: conn_resolve_Inr)
  moreover have "cache_get (realize remote_host remote_dc) (QueryText ''acme'') [Key ''k''] None
      ((TurbopufferState remote_store, ds_service shared_daemon), ds_objects shared_daemon)
      = (Inr (Some [1, 2]), ((TurbopufferState remote_store, ds_service shared_daemon), ds_objects shared_daemon))"
    unfolding shared_registry(4) by (rule remote_get)
  ultimately show ?thesis
    using shared_registry(3) by (simp add: handle_get_def pending_ops pending_default_def inference_run_def on_cache_def)
qed

theorem namespaces_isolated_witness:
  "stored_entry remote_rows (snd (respond shared_host ''1'' 1 (Del ''dev'' ''acme'' [''k''] None) shared_daemon)) ''prod'' example_id
     = Some remote_entry
   \<and> value_of shared_host (\<lambda>_ s. s) shared_object
       (ds_objects (snd (respond shared_host ''1'' 1 (Del ''dev'' ''acme'' [''k''] None) shared_daemon))) (Namespace ''prod'') example_id
     = value_of shared_host (\<lambda>_ s. s) shared_object (ds_objects shared_daemon) (Namespace ''prod'') example_id"
proof -
  let ?st = "snd (respond shared_host ''1'' 1 (Del ''dev'' ''acme'' [''k''] None) shared_daemon)"
  have "storable (Namespace ''prod'') example_id" by (simp add: storable_def example_id_def entry_id_ok_def)
  moreover have "stored_entry remote_rows shared_daemon ''prod'' example_id = Some remote_entry"
    using shared_registry(1) by (simp add: stored_entry_def tp_entries_def remote_below physical_namespace_def remote_store_def DEFAULT_NAMESPACE_PREFIX_def)
  ultimately show ?thesis
    using namespaces_isolated[OF shared_services shared_found shared_ops, of shared_daemon "''1''" 1 "''prod''" "Del ''dev'' ''acme'' [''k''] None" ?st example_id]
      shared_registry(1) by (simp add: shared_daemon_def)
qed


text \<open>
  Without the condition on names, namespaces are not isolated: the registry keeps names as they were sent while
  the namespace of a cache is trimmed, so that two names which differ in blanks around them are registered apart
  and share one namespace of the stores.
\<close>
lemma blank_names_share:
  fixes st
  defines "st \<equiv> run_ops shared_host ''1'' 1 [Request (RegisterNamespace ''prod'' ''cfg''), Request (RegisterNamespace '' prod '' ''cfg'')]
     (daemon_state_new () (snd remote_state))"
  shows "\<exists>a b. ds_registry st ''prod'' = Some a \<and> ds_registry st '' prod '' = Some b
    \<and> cache_namespace (ne_cache a) = Namespace ''prod'' \<and> cache_namespace (ne_cache b) = Namespace ''prod''"
proof -
  have blank: "namespace_new '' prod '' = Inr (Namespace ''prod'')" by code_simp
  have parse: "h_parse_config shared_host x = Inr remote_config" for x by (simp add: shared_host_def)
  show ?thesis
    by (simp add: st_def handle_register_def state_build_lock_def daemon_state_new_def Let_def state_resolve_def parse
        inference_run_def shared_build[OF shared_names(1)] shared_build[OF blank] state_register_def)
qed

end
