(* ===== verification/Write_Visibility.thy ===== *)
theory Write_Visibility
  imports Write_Behind
begin

text \<open>
  Why a worker drops the shadow of a job only after its commit (\<^verbatim>\<open>src/daemon/writer.rs\<close>): an
  accepted value is at every moment in the shadow or in the stores, however handlers and workers
  interleave, as long as nothing else happens to its entry and the stores do their work. The
  lemmas are proved once for every pair of stores that keep their contracts, in the locale
  \<open>cache_contract\<close>, and apply to the stores the registry builds, which keep them.
\<close>

section \<open>What workers carry\<close>

text \<open>A worker past the preparation holds the entry its job prepares.\<close>

fun carries :: "(bytes \<Rightarrow> bytes \<Rightarrow> bytes) \<Rightarrow> ('v, 'o) cache \<Rightarrow> worker \<Rightarrow> bool" where
  "carries new_v5 c (Checking j e) = (cache_prepare new_v5 c (job_query j) (job_keys j) (job_context j) = Inr e)"
| "carries new_v5 c (Putting j e) = (cache_prepare new_v5 c (job_query j) (job_keys j) (job_context j) = Inr e)"
| "carries new_v5 c (Upserting j e) = (cache_prepare new_v5 c (job_query j) (job_keys j) (job_context j) = Inr e)"
| "carries new_v5 c _ = True"

definition derived :: "(bytes \<Rightarrow> bytes \<Rightarrow> bytes) \<Rightarrow> write_job \<Rightarrow> bool" where
  "derived new_v5 j \<longleftrightarrow> job_id j = entry_id_derive new_v5 (job_query j) (job_keys j) (job_context j)"

definition wb_carries :: "(bytes \<Rightarrow> bytes \<Rightarrow> bytes) \<Rightarrow> ('v, 'o) cache \<Rightarrow> ('v, 'o) write_behind \<Rightarrow> bool" where
  "wb_carries new_v5 c s \<longleftrightarrow> (\<forall>w \<in> set (wb_workers s). carries new_v5 c w) \<and> (\<forall>j \<in> live s. derived new_v5 j)"

lemma carries_update:
  "\<forall>w \<in> set ws. carries new_v5 c w \<Longrightarrow> carries new_v5 c y \<Longrightarrow> \<forall>w \<in> set (ws[n := y]). carries new_v5 c w"
  using set_update_subset_insert[of ws n y] by blast

lemma carries_nth: "\<forall>w \<in> set ws. carries new_v5 c w \<Longrightarrow> n < length ws \<Longrightarrow> carries new_v5 c (ws ! n)"
  by simp

lemma wb_step_workers_carry:
  assumes "wb_step new_v5 c s s'" "\<forall>w \<in> set (wb_workers s). carries new_v5 c w"
  shows "\<forall>w \<in> set (wb_workers s'). carries new_v5 c w"
  using assms
proof (induction rule: wb_step.induct)
  case (wanted w s job entry)
  have "carries new_v5 c (Putting job entry)" using carries_nth[OF wanted(4,1)] wanted(2) by simp
  from carries_update[OF wanted(4) this, of w] show ?case by simp
next
  case (put_object w s job entry r obs)
  have "carries new_v5 c (case r of Inl _ \<Rightarrow> Cleaning job | Inr _ \<Rightarrow> Upserting job entry)"
    using carries_nth[OF put_object(4,1)] put_object(2) by (cases r) simp_all
  from carries_update[OF put_object(4) this, of w] show ?case by simp
qed (auto dest!: subsetD[OF set_update_subset_insert])

lemma wb_step_live_derived:
  assumes "wb_step new_v5 c s s'" "wb_ok s" "\<forall>j \<in> live s. derived new_v5 j"
  shows "\<forall>j \<in> live s'. derived new_v5 j"
proof (cases "\<exists>job q keys context_opt v. job = new_job new_v5 (wb_next_arc s) q keys context_opt v \<and> live s' = insert job (live s)")
  case True
  then show ?thesis using assms(3) by (auto simp: derived_def new_job_def)
next
  case False
  have np: "\<not> pw_poisoned (wb_pending s)" using assms(2) by (simp add: wb_ok_def)
  have "live s' \<subseteq> live s"
    using assms(1) False
  proof (cases rule: wb_step.cases)
    case (record_shadow job q keys context_opt v p)
    then have "live s' = insert job (live s)" by (auto simp: live_def live_simps)
    with record_shadow False show ?thesis by blast
  qed (use wb_step_effect[OF assms(1) np] in \<open>auto\<close>)
  with assms(3) show ?thesis by blast
qed

lemma wb_step_carries: "wb_step new_v5 c s s' \<Longrightarrow> wb_ok s \<Longrightarrow> wb_carries new_v5 c s \<Longrightarrow> wb_carries new_v5 c s'"
  unfolding wb_carries_def using wb_step_workers_carry wb_step_live_derived by metis

lemma wb_carries_new: "wb_carries new_v5 c (wb_new store)"
  by (auto simp: wb_carries_def wb_new_def live_def setter_jobs_def worker_jobs_def)

lemma prepare_id: "cache_prepare new_v5 c q keys context_opt = Inr e \<Longrightarrow> ve_id e = entry_id_derive new_v5 q keys context_opt"
  by (auto simp: cache_prepare_def result_simps)

section \<open>Quiet steps\<close>

text \<open>The next calls of the workers on the stores succeed.\<close>

fun call_works :: "('v, 'o) cache \<Rightarrow> 'v \<times> 'o \<Rightarrow> worker \<Rightarrow> bool" where
  "call_works c store (Putting j e) =
     (fst (ob_put (cache_object c) (cache_namespace c) (ve_id e) (arc_bytes (job_value j)) (snd store)) = Inr ())"
| "call_works c store (Upserting j e) = (fst (vb_upsert (cache_vector c) (cache_namespace c) e (fst store)) = Inr ())"
| "call_works c store _ = True"

text \<open>A step in which nothing else happens to the entry \<open>i\<close>: no set of it is recorded, no handler removes its
  shadow, its entry or its object, and the calls of the workers on the stores succeed. Deletes, gets and
  sets of other entries are such steps.\<close>

definition quiet_step ::
  "(bytes \<Rightarrow> bytes \<Rightarrow> bytes) \<Rightarrow> ('v, 'o) cache \<Rightarrow> ('v \<Rightarrow> namespace \<Rightarrow> entry_id \<Rightarrow> vector_entry option)
   \<Rightarrow> ('o \<Rightarrow> namespace \<times> entry_id \<Rightarrow> bytes option) \<Rightarrow> entry_id \<Rightarrow> ('v, 'o) write_behind \<Rightarrow> ('v, 'o) write_behind \<Rightarrow> bool" where
  "quiet_step new_v5 c entries objects i s s' \<longleftrightarrow> wb_step new_v5 c s s'
     \<and> list_all (call_works c (wb_store s)) (wb_workers s)
     \<and> (\<forall>j \<in> live s' - live s. job_id j \<noteq> i)
     \<and> (wb_workers s' \<noteq> wb_workers s
        \<or> shadow s' i = shadow s i
          \<and> entries (fst (wb_store s')) (cache_namespace c) i = entries (fst (wb_store s)) (cache_namespace c) i
          \<and> objects (snd (wb_store s')) (cache_namespace c, i) = objects (snd (wb_store s)) (cache_namespace c, i))"

lemma quiet_stepI:
  assumes "wb_step new_v5 c s s'" "list_all (call_works c (wb_store s)) (wb_workers s)" "live s' \<subseteq> live s"
    and "wb_workers s' \<noteq> wb_workers s \<or> shadow s' = shadow s \<and> wb_store s' = wb_store s"
  shows "quiet_step new_v5 c entries objects i s s'"
  using assms by (auto simp: quiet_step_def)

text \<open>The entry of a job is stored with its value.\<close>

definition stored ::
  "(bytes \<Rightarrow> bytes \<Rightarrow> bytes) \<Rightarrow> ('v, 'o) cache \<Rightarrow> ('v \<Rightarrow> namespace \<Rightarrow> entry_id \<Rightarrow> vector_entry option)
   \<Rightarrow> ('o \<Rightarrow> namespace \<times> entry_id \<Rightarrow> bytes option) \<Rightarrow> write_job \<Rightarrow> 'v \<times> 'o \<Rightarrow> bool" where
  "stored new_v5 c entries objects j store \<longleftrightarrow>
     (\<exists>e. cache_prepare new_v5 c (job_query j) (job_keys j) (job_context j) = Inr e
        \<and> entries (fst store) (cache_namespace c) (job_id j) = Some e)
     \<and> objects (snd store) (cache_namespace c, job_id j) = Some (arc_bytes (job_value j))"

definition visible_inv ::
  "(bytes \<Rightarrow> bytes \<Rightarrow> bytes) \<Rightarrow> ('v, 'o) cache \<Rightarrow> ('v \<Rightarrow> namespace \<Rightarrow> entry_id \<Rightarrow> vector_entry option)
   \<Rightarrow> ('o \<Rightarrow> namespace \<times> entry_id \<Rightarrow> bytes option) \<Rightarrow> write_job \<Rightarrow> ('v, 'o) write_behind \<Rightarrow> bool" where
  "visible_inv new_v5 c entries objects j s \<longleftrightarrow>
     (\<forall>k \<in> live s. job_id k = job_id j \<longrightarrow> k = j)
     \<and> (shadow s (job_id j) = Some (job_value j) \<or> stored new_v5 c entries objects j (wb_store s))
     \<and> (\<forall>e. Upserting j e \<in> set (wb_workers s)
          \<longrightarrow> objects (snd (wb_store s)) (cache_namespace c, job_id j) = Some (arc_bytes (job_value j)))
     \<and> (Cleaning j \<in> set (wb_workers s) \<longrightarrow> stored new_v5 c entries objects j (wb_store s))"

definition store_inv ::
  "('v, 'o) cache \<Rightarrow> ('v \<Rightarrow> namespace \<Rightarrow> entry_id \<Rightarrow> vector_entry option) \<Rightarrow> ('v \<Rightarrow> bool) \<Rightarrow> ('o \<Rightarrow> bool)
   \<Rightarrow> (namespace \<Rightarrow> entry_id \<Rightarrow> bool) \<Rightarrow> 'v \<times> 'o \<Rightarrow> bool" where
  "store_inv c entries vinvar oinvar usable store \<longleftrightarrow> vinvar (fst store) \<and> oinvar (snd store)
     \<and> (\<forall>i e. entries (fst store) (cache_namespace c) i = Some e \<longrightarrow> usable (cache_namespace c) i)"

text \<open>The entries that gets and deletes have found have ids that can be stored.\<close>

definition wb_inv ::
  "('v, 'o) cache \<Rightarrow> ('v \<Rightarrow> namespace \<Rightarrow> entry_id \<Rightarrow> vector_entry option) \<Rightarrow> ('v \<Rightarrow> bool) \<Rightarrow> ('o \<Rightarrow> bool)
   \<Rightarrow> (namespace \<Rightarrow> entry_id \<Rightarrow> bool) \<Rightarrow> ('v, 'o) write_behind \<Rightarrow> bool" where
  "wb_inv c entries vinvar oinvar usable s \<longleftrightarrow> store_inv c entries vinvar oinvar usable (wb_store s)
     \<and> (\<forall>x \<in> set (wb_lookups s). usable (cache_namespace c) (lookup_id x))"

context cache_contract
begin

text \<open>The calls of gets and deletes keep the invariant of the stores.\<close>

lemma find_keeps:
  assumes "store_inv c entries vinvar oinvar usable store" "find_match c q keys context_opt (fst store) = (r, v)"
  shows "v = fst store" "r = Inr (Some hit) \<Longrightarrow> usable (cache_namespace c) (hit_id hit)"
proof -
  have inv: "vinvar (fst store)" using assms(1) by (simp add: store_inv_def)
  show "v = fst store" by (rule find_match_frame[OF inv assms(2)])
  show "usable (cache_namespace c) (hit_id hit)" if "r = Inr (Some hit)"
    using find_match_sound[OF inv assms(2)[unfolded that]] assms(1) by (auto simp: store_inv_def semantic_match_def)
qed

lemma delete_keeps:
  assumes "store_inv c entries vinvar oinvar usable store" "usable (cache_namespace c) i"
  shows "vb_delete (cache_vector c) (cache_namespace c) i (fst store) = (r, v) \<Longrightarrow> store_inv c entries vinvar oinvar usable (v, snd store)"
    and "ob_delete (cache_object c) (cache_namespace c) i (snd store) = (r', obs) \<Longrightarrow> store_inv c entries vinvar oinvar usable (fst store, obs)"
proof -
  have inv: "vinvar (fst store)" "oinvar (snd store)" using assms(1) by (simp_all add: store_inv_def)
  show "store_inv c entries vinvar oinvar usable (v, snd store)"
    if "vb_delete (cache_vector c) (cache_namespace c) i (fst store) = (r, v)"
    using vs.delete_invar[OF inv(1) that] vs.delete_entries[OF inv(1) that] assms(1) by (auto simp: store_inv_def split: if_splits)
  show "store_inv c entries vinvar oinvar usable (fst store, obs)"
    if "ob_delete (cache_object c) (cache_namespace c) i (snd store) = (r', obs)"
    using os.delete_invar[OF inv(2) assms(2) that] assms(1) by (simp add: store_inv_def)
qed

lemma carried_id:
  assumes "wb_carries new_v5 c s" "ids_usable new_v5 c usable accepts"
    and "w < length (wb_workers s)" "wb_workers s ! w \<in> {Putting job entry, Upserting job entry}"
  shows "ve_id entry = job_id job" "usable (cache_namespace c) (job_id job)" "job \<in> live s"
    "cache_prepare new_v5 c (job_query job) (job_keys job) (job_context job) = Inr entry" "accepts entry"
proof -
  have mem: "wb_workers s ! w \<in> set (wb_workers s)" using assms(3) by simp
  then show live: "job \<in> live s" using assms(4) by (force simp: live_def worker_jobs_def)
  have "carries new_v5 c (wb_workers s ! w)" using assms(1) mem by (simp add: wb_carries_def)
  then show prep: "cache_prepare new_v5 c (job_query job) (job_keys job) (job_context job) = Inr entry"
    using assms(4) by auto
  have "derived new_v5 job" using assms(1) live by (simp add: wb_carries_def)
  then show "ve_id entry = job_id job" "usable (cache_namespace c) (job_id job)" "accepts entry"
    using prepare_id[OF prep] prep assms(2) by (simp_all add: derived_def ids_usable_def set_storable_def)
qed

text \<open>What a put and an upsert of a worker do to the stores.\<close>

lemma put_effect:
  assumes "store_inv c entries vinvar oinvar usable store" "usable (cache_namespace c) i"
    and "ob_put (cache_object c) (cache_namespace c) i v (snd store) = (r, obs)"
  shows "store_inv c entries vinvar oinvar usable (fst store, obs)"
    and "r = Inr () \<Longrightarrow> usable (cache_namespace c) k \<Longrightarrow>
      objects obs (cache_namespace c, k) = (if k = i then Some v else objects (snd store) (cache_namespace c, k))"
  using assms os.put_invar[of "snd store" "cache_namespace c" i v r obs]
    os.put_ok[of "snd store" "cache_namespace c" i v obs] os.put_err[of "snd store" "cache_namespace c" i v _ obs]
  by (cases r; force simp: store_inv_def)+

lemma upsert_effect:
  assumes "store_inv c entries vinvar oinvar usable store" "usable (cache_namespace c) (ve_id e)" "accepts e"
    and "vb_upsert (cache_vector c) (cache_namespace c) e (fst store) = (r, v)"
  shows "store_inv c entries vinvar oinvar usable (v, snd store)"
    and "r = Inr () \<Longrightarrow> entries v (cache_namespace c) = (entries (fst store) (cache_namespace c))(ve_id e \<mapsto> e)"
proof -
  have inv: "vinvar (fst store)" using assms(1) by (simp add: store_inv_def)
  show "r = Inr () \<Longrightarrow> entries v (cache_namespace c) = (entries (fst store) (cache_namespace c))(ve_id e \<mapsto> e)"
    using vs.upsert_ok[OF inv assms(3)] assms(4) by simp
  have "entries v = entries (fst store)
      \<or> entries v (cache_namespace c) = (entries (fst store) (cache_namespace c))(ve_id e \<mapsto> e)"
    using vs.upsert_ok[OF inv assms(3)] vs.upsert_err[OF inv assms(3)] assms(4) by (cases r) fastforce+
  with vs.upsert_invar[OF inv assms(3,4)] assms(1,2) show "store_inv c entries vinvar oinvar usable (v, snd store)"
    by (auto simp: store_inv_def split: if_splits)
qed

lemma find_step_inv:
  assumes "wb_inv c entries vinvar oinvar usable s" "find_match c q keys context_opt (fst (wb_store s)) = (r, v)"
    and "\<And>i. lookup_id (found i) = i"
  shows "wb_inv c entries vinvar oinvar usable (s\<lparr>wb_store := (v, snd (wb_store s)),
    wb_lookups := wb_lookups s @ (case r of Inr (Some hit) \<Rightarrow> [found (hit_id hit)] | _ \<Rightarrow> [])\<rparr>)"
proof -
  have inv: "store_inv c entries vinvar oinvar usable (wb_store s)" using assms(1) by (simp add: wb_inv_def)
  show ?thesis
    using find_keeps[OF inv assms(2)] assms(1,3) by (auto simp: wb_inv_def split: sum.splits option.splits)
qed

lemma wb_step_inv:
  assumes "wb_step new_v5 c s s'" "wb_carries new_v5 c s" "wb_inv c entries vinvar oinvar usable s"
    and ids: "ids_usable new_v5 c usable accepts"
  shows "wb_inv c entries vinvar oinvar usable s'"
proof -
  have inv: "store_inv c entries vinvar oinvar usable (wb_store s)" using assms(3) by (simp add: wb_inv_def)
  have found: "usable (cache_namespace c) (lookup_id (wb_lookups s ! n))" if "n < length (wb_lookups s)" for n
    using assms(3) that by (simp add: wb_inv_def)
  have sub: "x \<in> set (wb_lookups s)" if "x \<in> set (del_at n (wb_lookups s))" for n x using that set_del_at by fast
  show ?thesis
    using assms(1)
  proof (cases rule: wb_step.cases)
    case (put_object w job entry r obs)
    then show ?thesis
      using put_effect(1)[OF inv] carried_id(1,2)[OF assms(2) ids put_object(2)] assms(3) by (auto simp: wb_inv_def)
  next
    case (upsert_entry w job entry r v)
    then show ?thesis
      using upsert_effect(1)[OF inv _ _ upsert_entry(4)] carried_id(1,2,5)[OF assms(2) ids upsert_entry(2), of job entry] assms(3)
      by (auto simp: wb_inv_def)
  next
    case (find_delete q keys context_opt r v)
    then show ?thesis using find_step_inv[OF assms(3) find_delete(2), of DelFound] by simp
  next
    case (delete_entry n i r v)
    have us: "usable (cache_namespace c) i" using found[OF delete_entry(2)] delete_entry(3) by simp
    have "x \<in> set (wb_lookups s) \<or> x = DelRemoved i" if "x \<in> set (wb_lookups s')" for x
      using that delete_entry(1) sub set_update_subset_insert[of "wb_lookups s" n "DelRemoved i"] by (auto split: sum.splits)
    with us have "\<forall>x \<in> set (wb_lookups s'). usable (cache_namespace c) (lookup_id x)"
      using assms(3) unfolding wb_inv_def by (metis lookup.sel(3))
    with delete_keeps(1)[OF inv us delete_entry(4)] delete_entry(1) show ?thesis by (simp add: wb_inv_def)
  next
    case (delete_object n i r obs)
    have us: "usable (cache_namespace c) i" using found[OF delete_object(2)] delete_object(3) by simp
    show ?thesis using delete_keeps(2)[OF inv us delete_object(4)] delete_object(1) sub assms(3) by (auto simp: wb_inv_def)
  next
    case (find_get q keys context_opt r v)
    then show ?thesis using find_step_inv[OF assms(3) find_get(2), of GetFound] by simp
  next
    case (get_object n i r obs)
    have "obs = snd (wb_store s)" by (rule os.get_frame[OF get_object(4)])
    then show ?thesis using get_object(1) sub assms(3) by (auto simp: wb_inv_def)
  qed (use assms(3) in \<open>simp_all add: wb_inv_def\<close>)
qed

lemma wb_steps_reachable:
  assumes "wb_steps new_v5 c s s'" "wb_ok s" "wb_carries new_v5 c s" "wb_inv c entries vinvar oinvar usable s"
    and "ids_usable new_v5 c usable accepts"
  shows "wb_ok s' \<and> wb_carries new_v5 c s' \<and> wb_inv c entries vinvar oinvar usable s'"
  using assms by (induction rule: rtranclp_induct) (auto intro: wb_step_ok wb_step_carries wb_step_inv)

lemma stored_after_put:
  assumes "store_inv c entries vinvar oinvar usable store" "usable (cache_namespace c) (job_id k)" "usable (cache_namespace c) (job_id j)"
    and "ob_put (cache_object c) (cache_namespace c) (job_id k) (arc_bytes (job_value k)) (snd store) = (Inr (), obs)"
    and "job_id k = job_id j \<Longrightarrow> k = j"
  shows "stored new_v5 c entries objects j store \<Longrightarrow> stored new_v5 c entries objects j (fst store, obs)"
    and "k = j \<or> objects (snd store) (cache_namespace c, job_id j) = Some (arc_bytes (job_value j))
      \<Longrightarrow> objects obs (cache_namespace c, job_id j) = Some (arc_bytes (job_value j))"
proof -
  have eff: "objects obs (cache_namespace c, job_id j) =
      (if k = j then Some (arc_bytes (job_value j)) else objects (snd store) (cache_namespace c, job_id j))"
  proof (cases "job_id k = job_id j")
    case True
    then show ?thesis using put_effect(2)[OF assms(1,2,4) refl assms(3)] assms(5) by simp
  next
    case False
    then have "job_id j \<noteq> job_id k" "k \<noteq> j" by auto
    then show ?thesis using put_effect(2)[OF assms(1,2,4) refl assms(3)] by simp
  qed
  show "k = j \<or> objects (snd store) (cache_namespace c, job_id j) = Some (arc_bytes (job_value j))
      \<Longrightarrow> objects obs (cache_namespace c, job_id j) = Some (arc_bytes (job_value j))"
    unfolding eff by auto
  show "stored new_v5 c entries objects j store \<Longrightarrow> stored new_v5 c entries objects j (fst store, obs)"
    by (simp add: stored_def eff)
qed

lemma stored_after_upsert:
  assumes "store_inv c entries vinvar oinvar usable store" "usable (cache_namespace c) (job_id k)" "ve_id entry = job_id k"
    and "vb_upsert (cache_vector c) (cache_namespace c) entry (fst store) = (Inr (), v)"
    and "cache_prepare new_v5 c (job_query k) (job_keys k) (job_context k) = Inr entry"
    and "job_id k = job_id j \<Longrightarrow> k = j" and "accepts entry"
  shows "stored new_v5 c entries objects j store \<Longrightarrow> stored new_v5 c entries objects j (v, snd store)"
    and "k = j \<Longrightarrow> objects (snd store) (cache_namespace c, job_id j) = Some (arc_bytes (job_value j))
      \<Longrightarrow> stored new_v5 c entries objects j (v, snd store)"
proof -
  have eff: "entries v (cache_namespace c) = (entries (fst store) (cache_namespace c))(job_id k \<mapsto> entry)"
    using upsert_effect(2)[OF assms(1) _ assms(7,4)] assms(2,3) by simp
  show mine: "k = j \<Longrightarrow> objects (snd store) (cache_namespace c, job_id j) = Some (arc_bytes (job_value j))
      \<Longrightarrow> stored new_v5 c entries objects j (v, snd store)"
    using assms(5) by (simp add: stored_def eff)
  show "stored new_v5 c entries objects j (v, snd store)" if "stored new_v5 c entries objects j store"
  proof (cases "k = j")
    case True
    then show ?thesis using mine that by (simp add: stored_def)
  next
    case False
    then have "job_id j \<noteq> job_id k" using assms(6) by metis
    then show ?thesis using that by (simp add: stored_def eff)
  qed
qed

lemma visible_invI:
  assumes "\<forall>k \<in> live s. job_id k = job_id j \<longrightarrow> k = j"
    and "shadow s (job_id j) = Some (job_value j) \<or> stored new_v5 c entries objects j (wb_store s)"
    and "\<And>e. Upserting j e \<in> set (wb_workers s)
          \<Longrightarrow> objects (snd (wb_store s)) (cache_namespace c, job_id j) = Some (arc_bytes (job_value j))"
    and "Cleaning j \<in> set (wb_workers s) \<Longrightarrow> stored new_v5 c entries objects j (wb_store s)"
  shows "visible_inv new_v5 c entries objects j s"
  using assms unfolding visible_inv_def by blast

lemma visible_invD:
  assumes "visible_inv new_v5 c entries objects j s"
  shows "k \<in> live s \<Longrightarrow> job_id k = job_id j \<Longrightarrow> k = j"
    and "shadow s (job_id j) = Some (job_value j) \<or> stored new_v5 c entries objects j (wb_store s)"
    and "Upserting j e \<in> set (wb_workers s)
          \<Longrightarrow> objects (snd (wb_store s)) (cache_namespace c, job_id j) = Some (arc_bytes (job_value j))"
    and "Cleaning j \<in> set (wb_workers s) \<Longrightarrow> stored new_v5 c entries objects j (wb_store s)"
  using assms unfolding visible_inv_def by blast+

text \<open>A step on the workers alone that neither starts an upsert nor a clean-up.\<close>

lemma visible_inv_worker:
  assumes vis: "visible_inv new_v5 c entries objects j s" and "\<forall>k \<in> live s'. job_id k = job_id j \<longrightarrow> k = j"
    and "shadow s' = shadow s" and st: "wb_store s' = wb_store s" and ws: "wb_workers s' = (wb_workers s)[w := y]"
    and y: "\<And>e. y \<noteq> Upserting j e" "y \<noteq> Cleaning j"
  shows "visible_inv new_v5 c entries objects j s'"
proof -
  have "x \<in> set (wb_workers s)" if "x \<in> set (wb_workers s')" "x \<noteq> y" for x
    using that ws set_update_subset_insert[of "wb_workers s" w y] by auto
  with y have "Upserting j e \<in> set (wb_workers s)" if "Upserting j e \<in> set (wb_workers s')" for e
    using that by metis
  moreover have "Cleaning j \<in> set (wb_workers s)" if "Cleaning j \<in> set (wb_workers s')"
    using that y(2) \<open>\<And>x. x \<in> set (wb_workers s') \<Longrightarrow> x \<noteq> y \<Longrightarrow> x \<in> set (wb_workers s)\<close> by metis
  ultimately show ?thesis
    using assms(2,3) st visible_invD[OF vis] by (intro visible_invI) auto
qed

lemma quiet_put_visible:
  assumes ids: "ids_usable new_v5 c usable accepts" and ok: "wb_ok s" and car: "wb_carries new_v5 c s"
    and inv: "store_inv c entries vinvar oinvar usable (wb_store s)" and us: "usable (cache_namespace c) (job_id j)"
    and vis: "visible_inv new_v5 c entries objects j s" and uniq: "\<forall>k \<in> live s'. job_id k = job_id j \<longrightarrow> k = j"
    and w: "w < length (wb_workers s)" "wb_workers s ! w = Putting job entry"
    and put: "ob_put (cache_object c) (cache_namespace c) (ve_id entry) (arc_bytes (job_value job)) (snd (wb_store s)) = (Inr (), obs)"
    and s': "s' = s\<lparr>wb_store := (fst (wb_store s), obs), wb_workers := (wb_workers s)[w := Upserting job entry]\<rparr>"
  shows "visible_inv new_v5 c entries objects j s'"
proof -
  note id = carried_id[OF car ids w(1), of job entry, unfolded w(2), simplified]
  note put' = put[unfolded id(1)]
  note kept = stored_after_put[OF inv id(2) us put' visible_invD(1)[OF vis id(3)]]
  have sub: "x \<in> set (wb_workers s)" if "x \<in> set (wb_workers s')" "x \<noteq> Upserting job entry" for x
    using that s' set_update_subset_insert[of "wb_workers s" w "Upserting job entry"] by auto
  have st: "wb_store s' = (fst (wb_store s), obs)" "shadow s' = shadow s" using s' by (simp_all add: shadow_def)
  show ?thesis
  proof (rule visible_invI)
    show "shadow s' (job_id j) = Some (job_value j) \<or> stored new_v5 c entries objects j (wb_store s')"
      unfolding st using visible_invD(2)[OF vis] kept(1) by blast
  next
    fix e assume "Upserting j e \<in> set (wb_workers s')"
    then have "job = j \<or> Upserting j e \<in> set (wb_workers s)" using sub by blast
    then show "objects (snd (wb_store s')) (cache_namespace c, job_id j) = Some (arc_bytes (job_value j))"
      unfolding st using kept(2) visible_invD(3)[OF vis] by auto
  next
    assume "Cleaning j \<in> set (wb_workers s')"
    then show "stored new_v5 c entries objects j (wb_store s')"
      unfolding st using kept(1) visible_invD(4)[OF vis] sub by blast
  qed (rule uniq)
qed

lemma quiet_upsert_visible:
  assumes ids: "ids_usable new_v5 c usable accepts" and ok: "wb_ok s" and car: "wb_carries new_v5 c s"
    and inv: "store_inv c entries vinvar oinvar usable (wb_store s)"
    and vis: "visible_inv new_v5 c entries objects j s" and uniq: "\<forall>k \<in> live s'. job_id k = job_id j \<longrightarrow> k = j"
    and w: "w < length (wb_workers s)" "wb_workers s ! w = Upserting job entry"
    and ups: "vb_upsert (cache_vector c) (cache_namespace c) entry (fst (wb_store s)) = (Inr (), v)"
    and s': "s' = s\<lparr>wb_store := (v, snd (wb_store s)), wb_workers := (wb_workers s)[w := Cleaning job]\<rparr>"
  shows "visible_inv new_v5 c entries objects j s'"
proof -
  note id = carried_id[OF car ids w(1), of job entry, unfolded w(2), simplified]
  note kept = stored_after_upsert[OF inv id(2,1) ups id(4) visible_invD(1)[OF vis id(3)] id(5)]
  have mem: "Upserting job entry \<in> set (wb_workers s)" using w nth_mem by metis
  have sub: "x \<in> set (wb_workers s)" if "x \<in> set (wb_workers s')" "x \<noteq> Cleaning job" for x
    using that s' set_update_subset_insert[of "wb_workers s" w "Cleaning job"] by auto
  have st: "wb_store s' = (v, snd (wb_store s))" "shadow s' = shadow s" using s' by (simp_all add: shadow_def)
  show ?thesis
  proof (rule visible_invI)
    show "shadow s' (job_id j) = Some (job_value j) \<or> stored new_v5 c entries objects j (wb_store s')"
      unfolding st using visible_invD(2)[OF vis] kept(1) by blast
  next
    fix e assume "Upserting j e \<in> set (wb_workers s')"
    then show "objects (snd (wb_store s')) (cache_namespace c, job_id j) = Some (arc_bytes (job_value j))"
      unfolding st using visible_invD(3)[OF vis] sub by auto
  next
    assume "Cleaning j \<in> set (wb_workers s')"
    then have "job = j \<or> Cleaning j \<in> set (wb_workers s)" using sub by blast
    then show "stored new_v5 c entries objects j (wb_store s')"
      unfolding st using kept visible_invD(3,4)[OF vis] mem by blast
  qed (rule uniq)
qed

lemma quiet_clean_visible:
  assumes ok: "wb_ok s"
    and vis: "visible_inv new_v5 c entries objects j s" and uniq: "\<forall>k \<in> live s'. job_id k = job_id j \<longrightarrow> k = j"
    and w: "w < length (wb_workers s)" "wb_workers s ! w = Cleaning job"
    and p: "pending_remove_if (job_id job) (job_value job) (wb_pending s) = (r, p)"
    and s': "s' = s\<lparr>wb_pending := p, wb_workers := (wb_workers s)[w := Leaving]\<rparr>"
  shows "visible_inv new_v5 c entries objects j s'"
proof -
  have np: "\<not> pw_poisoned (wb_pending s)" using ok by (simp add: wb_ok_def)
  have mem: "Cleaning job \<in> set (wb_workers s)" using w nth_mem by metis
  then have live: "job \<in> live s" by (force simp: live_def worker_jobs_def)
  have "shadow s' (job_id j) = shadow s (job_id j) \<or> job = j"
    using p s' visible_invD(1)[OF vis live] by (auto simp: pending_ops[OF np] shadow_def split: if_splits)
  then have "shadow s' (job_id j) = Some (job_value j) \<or> stored new_v5 c entries objects j (wb_store s)"
    using visible_invD(2,4)[OF vis] mem by metis
  moreover have "x \<in> set (wb_workers s)" if "x \<in> set (wb_workers s')" "x \<noteq> Leaving" for x
    using that s' set_update_subset_insert[of "wb_workers s" w Leaving] by auto
  moreover have "wb_store s' = wb_store s" using s' by simp
  ultimately show ?thesis
    using uniq visible_invD(3,4)[OF vis] by (intro visible_invI) auto
qed

lemma quiet_step_visible:
  assumes ids: "ids_usable new_v5 c usable accepts" and quiet: "quiet_step new_v5 c entries objects (job_id j) s s'" and ok: "wb_ok s" and car: "wb_carries new_v5 c s"
    and inv: "store_inv c entries vinvar oinvar usable (wb_store s)" and us: "usable (cache_namespace c) (job_id j)"
    and vis: "visible_inv new_v5 c entries objects j s"
  shows "visible_inv new_v5 c entries objects j s'"
proof -
  have works: "call_works c (wb_store s) (wb_workers s ! w)" if "w < length (wb_workers s)" for w
    using quiet that by (simp add: quiet_step_def list_all_length)
  have uniq: "\<forall>k \<in> live s'. job_id k = job_id j \<longrightarrow> k = j"
    using quiet visible_invD(1)[OF vis] by (auto simp: quiet_step_def)
  show ?thesis
  proof (cases "wb_workers s' = wb_workers s")
    case True
    with quiet have "shadow s' (job_id j) = shadow s (job_id j)"
      "entries (fst (wb_store s')) (cache_namespace c) (job_id j) = entries (fst (wb_store s)) (cache_namespace c) (job_id j)"
      "objects (snd (wb_store s')) (cache_namespace c, job_id j) = objects (snd (wb_store s)) (cache_namespace c, job_id j)"
      by (auto simp: quiet_step_def)
    with True vis uniq show ?thesis by (simp add: visible_inv_def stored_def)
  next
    case False
    note simple = visible_inv_worker[OF vis uniq]
    from quiet have "wb_step new_v5 c s s'" by (simp add: quiet_step_def)
    then show ?thesis
    proof (cases rule: wb_step.cases)
      case (put_object w job entry r obs)
      have "r = Inr ()" using works[OF put_object(2)] put_object(3,4) by simp
      with put_object show ?thesis by (intro quiet_put_visible[OF ids ok car inv us vis uniq put_object(2,3)]) auto
    next
      case (upsert_entry w job entry r v)
      have "r = Inr ()" using works[OF upsert_entry(2)] upsert_entry(3,4) by simp
      with upsert_entry show ?thesis by (intro quiet_upsert_visible[OF ids ok car inv vis uniq upsert_entry(2,3)]) auto
    next
      case (clean w job r p)
      then show ?thesis by (intro quiet_clean_visible[OF ok vis uniq clean(2-4)])
    next
      case (receive w job queue)
      then show ?thesis by (intro simple[of w "Received job"]) (simp_all add: shadow_def)
    next
      case (enter w job)
      then show ?thesis by (intro simple[of w "Preparing job"]) (simp_all add: shadow_def)
    next
      case (prepare_failed w job e)
      then show ?thesis by (intro simple[of w "Leaving"]) (simp_all add: shadow_def)
    next
      case (prepared w job entry)
      then show ?thesis by (intro simple[of w "Checking job entry"]) (simp_all add: shadow_def)
    next
      case (stale w job entry)
      then show ?thesis by (intro simple[of w "Leaving"]) (simp_all add: shadow_def)
    next
      case (wanted w job entry)
      then show ?thesis by (intro simple[of w "Putting job entry"]) (simp_all add: shadow_def)
    next
      case (leave w)
      then show ?thesis by (intro simple[of w "Waiting"]) (simp_all add: shadow_def)
    qed (use False in simp_all)
  qed
qed

lemma quiet_steps_visible:
  assumes "(quiet_step new_v5 c entries objects (job_id j))\<^sup>*\<^sup>* s s'" "wb_ok s" "wb_carries new_v5 c s" and ids: "ids_usable new_v5 c usable accepts"
    and "wb_inv c entries vinvar oinvar usable s" "usable (cache_namespace c) (job_id j)"
    and "visible_inv new_v5 c entries objects j s"
  shows "visible_inv new_v5 c entries objects j s' \<and> wb_ok s' \<and> wb_carries new_v5 c s' \<and> wb_inv c entries vinvar oinvar usable s'"
  using assms(1)
proof (induction rule: rtranclp_induct)
  case (step y z)
  then have st: "wb_step new_v5 c y z" by (simp add: quiet_step_def)
  have "store_inv c entries vinvar oinvar usable (wb_store y)" using step(3) by (simp add: wb_inv_def)
  with step(3) assms(6) have "visible_inv new_v5 c entries objects j z" using quiet_step_visible[OF ids step(2)] by blast
  moreover have "wb_ok z" "wb_carries new_v5 c z" using wb_step_ok[OF st] wb_step_carries[OF st] step(3) by blast+
  moreover have "wb_inv c entries vinvar oinvar usable z" using wb_step_inv[OF st _ _ ids] step(3) by blast
  ultimately show ?case by blast
qed (use assms in blast)

end

section \<open>Properties\<close>

lemma recorded_visible:
  assumes "\<forall>k \<in> live s. job_id k \<noteq> job_id j" "wb_ok s" "pending_insert (job_id j) (job_value j) (wb_pending s) = (Inr (), p)"
    and "s' = s\<lparr>wb_pending := p, wb_next_arc := n, wb_setters := wb_setters s @ [Pushing j]\<rparr>"
  shows "visible_inv new_v5 c entries objects j s'"
proof -
  have np: "\<not> pw_poisoned (wb_pending s)" using assms(2) by (simp add: wb_ok_def)
  have "j \<notin> live s" using assms(1) by auto
  then have no: "x \<notin> set (wb_workers s)" if "worker_job x = Some j" for x
    using that by (auto simp: live_def worker_jobs_def)
  have "live s' = insert j (live s)" using assms(4) by (auto simp: live_def live_simps)
  moreover have "shadow s' (job_id j) = Some (job_value j)" using assms(3,4) by (auto simp: pending_ops[OF np] shadow_def)
  moreover have "Upserting j e \<notin> set (wb_workers s')" "Cleaning j \<notin> set (wb_workers s')" for e
    using assms(4) no[of "Upserting j e"] no[of "Cleaning j"] by simp_all
  ultimately show ?thesis using assms(1) by (auto simp: visible_inv_def)
qed

text \<open>
  C9. An accepted value is never out of sight, in every cache whose stores keep their contracts and which can
  store what it prepares. From any state the daemon can reach, when a set records its value and
  no other write of the entry is under way, then in every interleaving of handlers and
  workers that follows, deletes of other entries included, the value is in the shadow or its entry and its object
  are in the stores, until another set of the entry is recorded, a handler removes its shadow, entry or object, or a call of a worker
  on a store fails: dropping the shadow after the commit leaves no gap.
\<close>
theorem accepted_write_visible:
  assumes con: "cache_contract c entries vinvar objects oinvar usable accepts" and ids: "ids_usable new_v5 c usable accepts"
    and "store_inv c entries vinvar oinvar usable store"
    and "wb_steps new_v5 c (wb_new store) s0"
    and j: "j = new_job new_v5 (wb_next_arc s0) q keys context_opt v" and "\<forall>k \<in> live s0. job_id k \<noteq> job_id j"
    and "pending_insert (job_id j) (job_value j) (wb_pending s0) = (Inr (), p)"
    and s1: "s1 = s0\<lparr>wb_pending := p, wb_next_arc := wb_next_arc s0 + 1, wb_setters := wb_setters s0 @ [Pushing j]\<rparr>"
    and "(quiet_step new_v5 c entries objects (job_id j))\<^sup>*\<^sup>* s1 s"
  shows "pending_get (job_id j) (wb_pending s) = Inr (Some (job_value j))
    \<or> stored new_v5 c entries objects j (wb_store s)"
proof -
  have "wb_inv c entries vinvar oinvar usable (wb_new store)" using assms(3) by (simp add: wb_inv_def wb_new_def)
  then have s0: "wb_ok s0" "wb_carries new_v5 c s0" "wb_inv c entries vinvar oinvar usable s0"
    using cache_contract.wb_steps_reachable[OF con assms(4) wb_ok_new wb_carries_new _ ids] by blast+
  have "wb_step new_v5 c s0 s1" using record_shadow[OF j assms(7)] unfolding s1 .
  then have ok: "wb_ok s1" "wb_carries new_v5 c s1" "wb_inv c entries vinvar oinvar usable s1"
    using s0 wb_step_ok wb_step_carries cache_contract.wb_step_inv[OF con _ s0(2,3) ids] by blast+
  have "visible_inv new_v5 c entries objects j s1"
    by (rule recorded_visible[OF assms(6) s0(1) assms(7) s1])
  moreover have "usable (cache_namespace c) (job_id j)" using ids by (simp add: ids_usable_def set_storable_def j new_job_def)
  ultimately have "visible_inv new_v5 c entries objects j s" "wb_ok s"
    using cache_contract.quiet_steps_visible[OF con assms(9) ok(1,2) ids ok(3)] by blast+
  then show ?thesis by (auto simp: visible_inv_def wb_ok_def pending_ops shadow_def)
qed

text \<open>The caches of the in-memory store with files are such caches, from the empty store on.\<close>

lemma local_cache_visible:
  assumes "zstd_round_trip z" "namespace_new raw = Inr ns" "uuid_sized new_v5"
    and "c = local_cache lower f32_ln order term_order z fault pid root_dir ns entity embedding scoring"
  shows "cache_contract c memory_entries (memory_ok lower) (decoded z (disk_objects root_dir)) (\<lambda>_. True) storable (\<lambda>_. True)"
    "ids_usable new_v5 c storable (\<lambda>_. True)" "store_inv c memory_entries (memory_ok lower) (\<lambda>_. True) storable (memory_new, d)"
  using local_cache_sound[OF assms(1)] local_cache_ids[OF assms(2,3)] memory_ok_new[of lower]
  by (simp_all add: assms(4) store_inv_def memory_entries_def memory_new_def)

text \<open>A whole write: recorded, queued, and carried through by a worker, which drops the shadow after its commit.\<close>

definition example_committed :: "(memory_store, disk) write_behind" where
  "example_committed = (wb_new (memory_new, empty_disk))\<lparr>wb_next_arc := 1, wb_workers := [Waiting, Waiting],
     wb_store := example_put [1] (memory_new, empty_disk)\<rparr>"

definition example_recorded :: "(memory_store, disk) write_behind" where
  "example_recorded = (wb_new (memory_new, empty_disk))\<lparr>
     wb_pending := pending_default\<lparr>pw_entries := [job_id (example_job 0 [1]) \<mapsto> Arc 0 [1]]\<rparr>,
     wb_next_arc := 1, wb_setters := [Pushing (example_job 0 [1])]\<rparr>"

lemma example_first_write:
  "ob_put (cache_object example_cache) (cache_namespace example_cache) (ve_id example_write_entry) [1] empty_disk
     = (Inr (), snd (example_put [1] (memory_new, empty_disk)))"
  "vb_upsert (cache_vector example_cache) (cache_namespace example_cache) example_write_entry memory_new
     = (Inr (), fst (example_put [1] (memory_new, empty_disk)))"
  by (simp_all add: example_eval)

lemma example_quiet_run:
  "(quiet_step example_v5 example_cache entries objects i)\<^sup>*\<^sup>* example_recorded example_committed"
proof -
  let ?j = "example_job 0 [1]" and ?e = example_write_entry and ?st = "example_put [1] (memory_new, empty_disk)"
  let ?s2 = "example_recorded\<lparr>wb_setters := [], wb_queue := [?j]\<rparr>"
  let ?at = "\<lambda>x n st. example_recorded\<lparr>wb_setters := [], wb_workers := [x, Waiting], wb_in_flight := n, wb_store := st\<rparr>"
  note w = WRITE_WORKERS_def numeral_2_eq_2 wb_new_def example_recorded_def pending_default_def
  note live = live_def setter_jobs_def worker_jobs_def
  have job: "job_query ?j = QueryText ''q''" "job_keys ?j = []" "job_context ?j = None" by (simp_all add: example_job_def new_job_def)
  note q = quiet_stepI[where entries = entries and objects = objects and i = i]
  have "quiet_step example_v5 example_cache entries objects i example_recorded ?s2"
    using enqueue[of 0 example_recorded ?j "[?j]" example_v5 example_cache]
    by (intro q) (auto simp: w live shadow_def try_push_def WRITE_QUEUE_CAPACITY_def del_at_def)
  moreover have "quiet_step example_v5 example_cache entries objects i ?s2 (?at (Received ?j) 0 (memory_new, empty_disk))"
    using receive[of 0 ?s2 ?j "[]" example_v5 example_cache] by (intro q) (auto simp: w live)
  moreover have "quiet_step example_v5 example_cache entries objects i (?at (Received ?j) 0 (memory_new, empty_disk)) (?at (Preparing ?j) 1 (memory_new, empty_disk))"
    using enter[of 0 "?at (Received ?j) 0 (memory_new, empty_disk)" ?j example_v5 example_cache] by (intro q) (auto simp: w live)
  moreover have "quiet_step example_v5 example_cache entries objects i (?at (Preparing ?j) 1 (memory_new, empty_disk)) (?at (Checking ?j ?e) 1 (memory_new, empty_disk))"
    using prepared[of 0 "?at (Preparing ?j) 1 (memory_new, empty_disk)" ?j example_v5 example_cache ?e] example_prepared
    by (intro q) (auto simp: w live job)
  moreover have "quiet_step example_v5 example_cache entries objects i (?at (Checking ?j ?e) 1 (memory_new, empty_disk)) (?at (Putting ?j ?e) 1 (memory_new, empty_disk))"
    using wanted[of 0 "?at (Checking ?j ?e) 1 (memory_new, empty_disk)" ?j ?e example_v5 example_cache]
    by (intro q) (auto simp: w live pending_ops ptr_eq_def)
  moreover have "quiet_step example_v5 example_cache entries objects i (?at (Putting ?j ?e) 1 (memory_new, empty_disk)) (?at (Upserting ?j ?e) 1 (memory_new, snd ?st))"
    using put_object[of 0 "?at (Putting ?j ?e) 1 (memory_new, empty_disk)" ?j ?e example_cache "Inr ()" "snd ?st" example_v5] example_first_write(1)
    by (intro q) (auto simp: w live)
  moreover have "quiet_step example_v5 example_cache entries objects i (?at (Upserting ?j ?e) 1 (memory_new, snd ?st)) (?at (Cleaning ?j) 1 ?st)"
    using upsert_entry[of 0 "?at (Upserting ?j ?e) 1 (memory_new, snd ?st)" ?j ?e example_cache "Inr ()" "fst ?st" example_v5] example_first_write(2)
    by (intro q) (auto simp: w live)
  moreover have "quiet_step example_v5 example_cache entries objects i (?at (Cleaning ?j) 1 ?st) ((?at Leaving 1 ?st)\<lparr>wb_pending := pending_default\<rparr>)"
    using clean[of 0 "?at (Cleaning ?j) 1 ?st" ?j "Inr True" pending_default example_v5 example_cache]
    by (intro q) (auto simp: w live pending_ops ptr_eq_def)
  moreover have "quiet_step example_v5 example_cache entries objects i ((?at Leaving 1 ?st)\<lparr>wb_pending := pending_default\<rparr>) example_committed"
    using leave[of 0 "(?at Leaving 1 ?st)\<lparr>wb_pending := pending_default\<rparr>" example_v5 example_cache]
    by (intro q) (auto simp: w live example_committed_def)
  ultimately show ?thesis by (meson converse_rtranclp_into_rtranclp rtranclp.rtrancl_refl)
qed

theorem accepted_write_visible_witness:
  "pending_get (job_id (example_job 0 [1])) (wb_pending example_committed) = Inr None
   \<and> stored example_v5 example_cache memory_entries (decoded example_zstd (disk_objects ''/var'')) (example_job 0 [1]) (wb_store example_committed)"
proof -
  let ?s0 = "wb_new (memory_new, empty_disk)" and ?j = "example_job 0 [1]"
  let ?p = "pending_default\<lparr>pw_entries := [job_id ?j \<mapsto> Arc 0 [1]]\<rparr>"
  have j: "?j = new_job example_v5 (wb_next_arc ?s0) (QueryText ''q'') [] None [1]" by (simp add: example_job_def wb_new_def)
  have v: "job_value ?j = Arc 0 [1]" by simp
  have ns: "namespace_new ''prod'' = Inr (Namespace ''prod'')" by code_simp
  have v5: "uuid_sized example_v5" by (simp add: uuid_sized_def example_v5_def)
  have ins: "pending_insert (job_id ?j) (job_value ?j) (wb_pending ?s0) = (Inr (), ?p)"
    by (simp add: wb_new_def pending_default_def pending_insert_def pending_lock_def)
  have rec: "example_recorded = ?s0\<lparr>wb_pending := ?p, wb_next_arc := wb_next_arc ?s0 + 1, wb_setters := wb_setters ?s0 @ [Pushing ?j]\<rparr>"
    by (simp add: example_recorded_def wb_new_def)
  have live: "\<forall>k \<in> live ?s0. job_id k \<noteq> job_id ?j" by (simp add: wb_new_def live_def setter_jobs_def worker_jobs_def)
  have gone: "pending_get (job_id ?j) (wb_pending example_committed) = Inr None"
    by (simp add: example_committed_def wb_new_def pending_default_def pending_get_def pending_lock_def)
  from accepted_write_visible[OF local_cache_visible[OF example_zstd_round_trip ns v5 example_cache_def] rtranclp.rtrancl_refl j live ins rec
      example_quiet_run] gone show ?thesis by simp
qed

end
