(* ===== verification/Write_Panic.thy ===== *)
theory Write_Panic
  imports Write_Behind
begin

text \<open>
  Jobs that panic (\<^verbatim>\<open>src/daemon/writer.rs\<close>). Unlike the inference pool, a write worker does not catch
  the panic of its job: unwinding drops the in-flight guard and ends the thread. The channel stays
  connected through the receiver the queue keeps, so that sets are still accepted. The relation \<open>wbp_step\<close>
  adds these ends to the interleaving \<open>wb_step\<close>; a thread that is gone is no longer in the list of
  workers. A panic in the backends may come before or after the effect of the call.
\<close>

section \<open>Panics\<close>

text \<open>The thread of worker \<open>w\<close> ends and its guard is dropped.\<close>

definition unwind :: "nat \<Rightarrow> ('v, 'o) write_behind \<Rightarrow> ('v, 'o) write_behind" where
  "unwind w s = s\<lparr>wb_in_flight := wb_in_flight s - 1, wb_workers := del_at w (wb_workers s)\<rparr>"

inductive wbp_step ::
  "(bytes \<Rightarrow> bytes \<Rightarrow> bytes) \<Rightarrow> ('v, 'o) cache \<Rightarrow> ('v, 'o) write_behind \<Rightarrow> ('v, 'o) write_behind \<Rightarrow> bool"
  for new_v5 c where
  works:
    "wb_step new_v5 c s s' \<Longrightarrow> wbp_step new_v5 c s s'"
| prepare_panics:
    "w < length (wb_workers s) \<Longrightarrow> wb_workers s ! w = Preparing job \<Longrightarrow> wbp_step new_v5 c s (unwind w s)"
| put_panics:
    "w < length (wb_workers s) \<Longrightarrow> wb_workers s ! w = Putting job entry \<Longrightarrow>
     ob_put (cache_object c) (cache_namespace c) (ve_id entry) (arc_bytes (job_value job)) (snd (wb_store s)) = (r, obs) \<Longrightarrow>
     obs' \<in> {snd (wb_store s), obs} \<Longrightarrow>
     wbp_step new_v5 c s (unwind w (s\<lparr>wb_store := (fst (wb_store s), obs')\<rparr>))"
| upsert_panics:
    "w < length (wb_workers s) \<Longrightarrow> wb_workers s ! w = Upserting job entry \<Longrightarrow>
     vb_upsert (cache_vector c) (cache_namespace c) entry (fst (wb_store s)) = (r, v) \<Longrightarrow>
     v' \<in> {fst (wb_store s), v} \<Longrightarrow>
     wbp_step new_v5 c s (unwind w (s\<lparr>wb_store := (v', snd (wb_store s))\<rparr>))"

abbreviation wbp_steps ::
  "(bytes \<Rightarrow> bytes \<Rightarrow> bytes) \<Rightarrow> ('v, 'o) cache \<Rightarrow> ('v, 'o) write_behind \<Rightarrow> ('v, 'o) write_behind \<Rightarrow> bool" where
  "wbp_steps new_v5 c \<equiv> (wbp_step new_v5 c)\<^sup>*\<^sup>*"

text \<open>A step is one of the interleaving or the end of a worker inside its guard, in which only the stores
  may change besides.\<close>

lemma wbp_step_cases:
  assumes "wbp_step new_v5 c s s'"
  obtains (works) "wb_step new_v5 c s s'"
  | (ended) w store where "w < length (wb_workers s)" "guarded (wb_workers s ! w)" "s' = unwind w (s\<lparr>wb_store := store\<rparr>)"
  using assms
proof (cases rule: wbp_step.cases)
  case (prepare_panics w job)
  then show ?thesis by (intro ended[of w "wb_store s"]) simp_all
next
  case (put_panics w job entry r obs obs')
  then show ?thesis by (intro ended[of w "(fst (wb_store s), obs')"]) simp_all
next
  case (upsert_panics w job entry r v v')
  then show ?thesis by (intro ended[of w "(v', snd (wb_store s))"]) simp_all
qed

section \<open>What panics keep\<close>

lemma length_filter_del_at:
  assumes "n < length xs"
  shows "length (filter P (del_at n xs)) + (if P (xs ! n) then 1 else 0) = length (filter P xs)"
proof -
  have "length (filter P xs) = length (filter P (take n xs @ xs ! n # drop (Suc n) xs))"
    using id_take_nth_drop[OF assms] by simp
  then show ?thesis by (simp add: del_at_def)
qed

lemma length_del_at: "n < length xs \<Longrightarrow> length (del_at n xs) = length xs - 1"
  by (simp add: del_at_def)

lemma wbp_step_counts: "wbp_step new_v5 c s s' \<Longrightarrow> wb_counts s \<Longrightarrow> wb_counts s'"
proof (erule wbp_step_cases)
  fix w store
  assume "wb_counts s" "w < length (wb_workers s)" "guarded (wb_workers s ! w)" "s' = unwind w (s\<lparr>wb_store := store\<rparr>)"
  then show ?thesis
    using length_filter_del_at[of w "wb_workers s" guarded] length_del_at[of w "wb_workers s"]
    by (auto simp: wb_counts_def unwind_def)
qed (rule wb_step_counts)

lemma wbp_steps_counts: "wbp_steps new_v5 c s s' \<Longrightarrow> wb_counts s \<Longrightarrow> wb_counts s'"
  by (induction rule: rtranclp_induct) (auto intro: wbp_step_counts)

text \<open>No step brings a worker back, and without workers the queue only grows.\<close>

lemma wb_step_no_workers:
  "wb_step new_v5 c s s' \<Longrightarrow> wb_workers s = [] \<Longrightarrow> wb_workers s' = [] \<and> (\<exists>xs. wb_queue s' = wb_queue s @ xs)"
  by (induction rule: wb_step.induct) (auto simp: try_push_def split: if_splits)

lemma wbp_steps_no_workers:
  assumes "wbp_steps new_v5 c s s'" "wb_workers s = []"
  shows "wb_workers s' = [] \<and> (\<exists>xs. wb_queue s' = wb_queue s @ xs)"
  using assms(1)
proof (induction rule: rtranclp_induct)
  case (step s1 s2)
  from step(2) step(3) show ?case
  proof (cases rule: wbp_step_cases)
    case works
    with wb_step_no_workers[OF works] step(3) show ?thesis by force
  qed auto
qed (simp add: assms(2))

lemma works_steps: "wb_steps new_v5 c s s' \<Longrightarrow> wbp_steps new_v5 c s s'"
  by (erule rtranclp_mono[THEN predicate2D, rotated]) (auto intro: works)

section \<open>Workers come to rest\<close>

text \<open>From wherever it is, a worker can go on to wait for the next job, with the others as they are.\<close>

definition can_wait ::
  "(bytes \<Rightarrow> bytes \<Rightarrow> bytes) \<Rightarrow> ('v, 'o) cache \<Rightarrow> nat \<Rightarrow> ('v, 'o) write_behind \<Rightarrow> bool" where
  "can_wait new_v5 c w s \<longleftrightarrow> (\<exists>s'. wb_steps new_v5 c s s' \<and> wb_workers s' = (wb_workers s)[w := Waiting] \<and> wb_queue s' = wb_queue s)"

lemma can_wait_step:
  assumes "wb_step new_v5 c s s'" "wb_workers s' = (wb_workers s)[w := x]" "wb_queue s' = wb_queue s" "can_wait new_v5 c w s'"
  shows "can_wait new_v5 c w s"
proof -
  from assms(4) obtain s'' where "wb_steps new_v5 c s' s''" "wb_workers s'' = (wb_workers s')[w := Waiting]" "wb_queue s'' = wb_queue s'"
    unfolding can_wait_def by blast
  with assms(1-3) show ?thesis
    unfolding can_wait_def by (intro exI[of _ s'']) (simp add: converse_rtranclp_into_rtranclp)
qed

lemma can_wait_stages:
  assumes w: "w < length (wb_workers s)"
  shows "wb_workers s ! w = Waiting \<Longrightarrow> can_wait new_v5 c w s"
    and "wb_workers s ! w = Leaving \<Longrightarrow> can_wait new_v5 c w s"
proof -
  have rest: "can_wait new_v5 c w s" if "wb_workers s ! w = Waiting" "w < length (wb_workers s)" for s
    using that unfolding can_wait_def by (intro exI[of _ s]) (metis list_update_id rtranclp.rtrancl_refl)
  show "wb_workers s ! w = Waiting \<Longrightarrow> can_wait new_v5 c w s" using rest w by blast
  show "wb_workers s ! w = Leaving \<Longrightarrow> can_wait new_v5 c w s"
    using can_wait_step[OF leave[OF w]] rest w by simp
qed

lemma can_wait_cleaning:
  assumes "w < length (wb_workers s)" "wb_workers s ! w = Cleaning job"
  shows "can_wait new_v5 c w s"
proof -
  obtain r p where "pending_remove_if (job_id job) (job_value job) (wb_pending s) = (r, p)" by fastforce
  from can_wait_step[OF clean[OF assms this]] assms show ?thesis by (simp add: can_wait_stages(2))
qed

lemma can_wait_upserting:
  assumes "w < length (wb_workers s)" "wb_workers s ! w = Upserting job entry"
  shows "can_wait new_v5 c w s"
proof -
  obtain r v where "vb_upsert (cache_vector c) (cache_namespace c) entry (fst (wb_store s)) = (r, v)" by fastforce
  from can_wait_step[OF upsert_entry[OF assms this]] assms show ?thesis by (simp add: can_wait_cleaning)
qed

lemma can_wait_putting:
  assumes "w < length (wb_workers s)" "wb_workers s ! w = Putting job entry"
  shows "can_wait new_v5 c w s"
proof -
  obtain r obs where put: "ob_put (cache_object c) (cache_namespace c) (ve_id entry) (arc_bytes (job_value job)) (snd (wb_store s)) = (r, obs)"
    by fastforce
  from can_wait_step[OF put_object[OF assms put]] assms show ?thesis
    by (cases r) (simp_all add: can_wait_cleaning can_wait_upserting)
qed

lemma can_wait_checking:
  assumes "w < length (wb_workers s)" "wb_workers s ! w = Checking job entry"
  shows "can_wait new_v5 c w s"
proof (cases "pending_holds (job_id job) (job_value job) (wb_pending s) = Inr True")
  case True
  from can_wait_step[OF wanted[OF assms True]] assms show ?thesis by (simp add: can_wait_putting)
next
  case False
  from can_wait_step[OF stale[OF assms False]] assms show ?thesis by (simp add: can_wait_stages(2))
qed

lemma can_wait_preparing:
  assumes "w < length (wb_workers s)" "wb_workers s ! w = Preparing job"
  shows "can_wait new_v5 c w s"
proof (cases "cache_prepare new_v5 c (job_query job) (job_keys job) (job_context job)")
  case (Inl e)
  from can_wait_step[OF prepare_failed[OF assms Inl]] assms show ?thesis by (simp add: can_wait_stages(2))
next
  case (Inr entry)
  from can_wait_step[OF prepared[OF assms Inr]] assms show ?thesis by (simp add: can_wait_checking)
qed

lemma can_wait_always:
  assumes "w < length (wb_workers s)"
  shows "can_wait new_v5 c w s"
proof (cases "wb_workers s ! w")
  case (Received job)
  from can_wait_step[OF enter[OF assms Received]] assms show ?thesis by (simp add: can_wait_preparing)
qed (use assms in \<open>simp_all add: can_wait_stages can_wait_preparing can_wait_checking can_wait_putting can_wait_upserting can_wait_cleaning\<close>)

lemma all_wait:
  "\<exists>s'. wb_steps new_v5 c s s' \<and> wb_workers s' = replicate (length (wb_workers s)) Waiting \<and> wb_queue s' = wb_queue s"
proof -
  have "\<exists>s'. wb_steps new_v5 c s s' \<and> wb_workers s' = replicate n Waiting @ drop n (wb_workers s) \<and> wb_queue s' = wb_queue s"
    if "n \<le> length (wb_workers s)" for n
    using that
  proof (induction n)
    case (Suc n)
    then obtain s1 where s1: "wb_steps new_v5 c s s1" "wb_workers s1 = replicate n Waiting @ drop n (wb_workers s)" "wb_queue s1 = wb_queue s"
      by auto
    have n: "n < length (wb_workers s1)" using s1(2) Suc.prems by simp
    from can_wait_always[OF n, of new_v5 c] obtain s2 where
      s2: "wb_steps new_v5 c s1 s2" "wb_workers s2 = (wb_workers s1)[n := Waiting]" "wb_queue s2 = wb_queue s1"
      unfolding can_wait_def by blast
    have "wb_workers s2 = replicate (Suc n) Waiting @ drop (Suc n) (wb_workers s)"
      using s2(2) s1(2) Suc.prems by (simp add: list_update_append Cons_nth_drop_Suc[symmetric] replicate_append_same)
    with s1 s2 show ?case by (metis rtranclp_trans)
  qed auto
  from this[of "length (wb_workers s)"] show ?thesis by simp
qed

text \<open>A single worker left is enough to empty the queue.\<close>

lemma queue_empties:
  assumes "wb_workers s \<noteq> []"
  shows "\<exists>s'. wb_steps new_v5 c s s' \<and> wb_workers s' = replicate (length (wb_workers s)) Waiting \<and> wb_queue s' = []"
  using assms
proof (induction "length (wb_queue s)" arbitrary: s)
  case 0
  with all_wait[of new_v5 c s] show ?case by simp
next
  case (Suc n)
  obtain s1 where s1: "wb_steps new_v5 c s s1" "wb_workers s1 = replicate (length (wb_workers s)) Waiting" "wb_queue s1 = wb_queue s"
    using all_wait by blast
  from Suc(2) obtain job queue where q: "wb_queue s1 = job # queue" "length queue = n" using s1(3) by (metis length_Suc_conv)
  let ?s2 = "s1\<lparr>wb_queue := queue, wb_workers := (wb_workers s1)[0 := Received job]\<rparr>"
  have "0 < length (wb_workers s1)" "wb_workers s1 ! 0 = Waiting" using s1(2) Suc.prems by simp_all
  then have 2: "wb_step new_v5 c s1 ?s2" by (rule receive) (rule q(1))
  have "wb_workers ?s2 \<noteq> []" "length (wb_workers ?s2) = length (wb_workers s)" using s1(2) Suc.prems by simp_all
  with Suc.hyps(1)[of ?s2] q(2) obtain s3 where
    "wb_steps new_v5 c ?s2 s3" "wb_workers s3 = replicate (length (wb_workers s)) Waiting" "wb_queue s3 = []" by auto
  with s1(1) 2 show ?case by (meson converse_rtranclp_into_rtranclp rtranclp_trans)
qed

section \<open>Properties\<close>

text \<open>
  C14. When the drain can converge. However jobs panic, the in-flight count is the number of workers inside
  their guard, so a panic never holds the count up; and the queue can still come to report that it is
  drained exactly if a worker thread is left or nothing is queued. Since a panic ends the thread of its
  worker, two panics are enough for accepted writes that are never stored: from then on no run, whatever
  else happens, drains the queue, and every job in it stays.
\<close>
theorem drain_converges_iff:
  assumes "wbp_steps new_v5 c (wb_new store) s"
  shows "wb_in_flight s = length (filter guarded (wb_workers s))
    \<and> ((\<exists>s'. wb_steps new_v5 c s s' \<and> is_drained s') \<longleftrightarrow> wb_workers s \<noteq> [] \<or> wb_queue s = [])
    \<and> (wb_workers s = [] \<longrightarrow> (\<forall>s'. wbp_steps new_v5 c s s' \<longrightarrow> set (wb_queue s) \<subseteq> set (wb_queue s')))"
proof -
  have counts: "wb_counts s" by (rule wbp_steps_counts[OF assms wb_counts_new])
  have dead: "set (wb_queue s) \<subseteq> set (wb_queue s')" if "wb_workers s = []" "wbp_steps new_v5 c s s'" for s'
    using wbp_steps_no_workers[OF that(2,1)] by auto
  have "\<exists>s'. wb_steps new_v5 c s s' \<and> is_drained s'" if "wb_workers s \<noteq> []"
  proof -
    from queue_empties[OF that, of new_v5 c] obtain s' where
      s': "wb_steps new_v5 c s s'" "wb_workers s' = replicate (length (wb_workers s)) Waiting" "wb_queue s' = []" by blast
    have "wb_in_flight s' = 0" using wb_steps_counts[OF s'(1) counts] s'(2) by (simp add: wb_counts_def)
    with s' show ?thesis by (auto simp: is_drained_def)
  qed
  moreover have "is_drained s" if "wb_workers s = []" "wb_queue s = []" using that counts by (simp add: wb_counts_def is_drained_def)
  moreover have "wb_queue s = []" if "wb_workers s = []" "wb_steps new_v5 c s s'" "is_drained s'" for s'
  proof -
    from wbp_steps_no_workers[OF works_steps[OF that(2)] that(1)] that(3) show ?thesis by (auto simp: is_drained_def)
  qed
  ultimately show ?thesis using dead counts unfolding wb_counts_def by blast
qed

section \<open>Example\<close>

text \<open>Two jobs panic while they are prepared, and a third is accepted afterwards.\<close>

abbreviation panicked_job :: "nat \<Rightarrow> write_job" where
  "panicked_job n \<equiv> new_job example_v5 n (QueryText ''q'') [] None [1]"

definition panicked :: "(memory_store, disk) write_behind" where
  "panicked = (wb_new (memory_new, empty_disk))\<lparr>wb_pending := pending_default\<lparr>pw_entries := [job_id (panicked_job 2) \<mapsto> Arc 2 [1]]\<rparr>,
     wb_next_arc := 3, wb_workers := [], wb_queue := [panicked_job 2]\<rparr>"

text \<open>A set that is accepted, and a worker that takes the job and panics.\<close>

lemma set_run:
  assumes "\<not> pw_poisoned (wb_pending s)" "wb_setters s = []" "wb_queue s = []"
  shows "wb_steps new_v5 c s (s\<lparr>wb_pending := (wb_pending s)\<lparr>pw_entries := (pw_entries (wb_pending s))
      (entry_id_derive new_v5 q keys context_opt \<mapsto> Arc (wb_next_arc s) v)\<rparr>,
    wb_next_arc := wb_next_arc s + 1, wb_queue := [new_job new_v5 (wb_next_arc s) q keys context_opt v]\<rparr>)"
proof -
  let ?j = "new_job new_v5 (wb_next_arc s) q keys context_opt v"
  let ?p = "(wb_pending s)\<lparr>pw_entries := (pw_entries (wb_pending s))(job_id ?j \<mapsto> job_value ?j)\<rparr>"
  let ?s1 = "s\<lparr>wb_pending := ?p, wb_next_arc := wb_next_arc s + 1, wb_setters := [Pushing ?j]\<rparr>"
  have "wb_step new_v5 c s ?s1"
    using record_shadow[OF refl, of new_v5 s q keys context_opt v ?p c] assms by (simp add: pending_ops)
  moreover have "wb_step new_v5 c ?s1 (?s1\<lparr>wb_queue := [?j], wb_setters := []\<rparr>)"
    using enqueue[of 0 ?s1 ?j "[?j]" new_v5 c] assms by (simp add: try_push_def WRITE_QUEUE_CAPACITY_def del_at_def)
  ultimately show ?thesis
    using assms(2) by (cases s) (simp add: new_job_def converse_rtranclp_into_rtranclp r_into_rtranclp)
qed

lemma panic_run:
  assumes "wb_workers s = Waiting # ws" "wb_queue s = [job]"
  shows "wbp_steps new_v5 c s (s\<lparr>wb_workers := ws, wb_queue := []\<rparr>)"
proof -
  let ?s1 = "s\<lparr>wb_queue := [], wb_workers := Received job # ws\<rparr>"
  let ?s2 = "s\<lparr>wb_queue := [], wb_in_flight := wb_in_flight s + 1, wb_workers := Preparing job # ws\<rparr>"
  have "wbp_step new_v5 c s ?s1" using receive[of 0 s job "[]" new_v5 c] assms by (simp add: works)
  moreover have "wbp_step new_v5 c ?s1 ?s2" using enter[of 0 ?s1 job new_v5 c] by (simp add: works)
  moreover have "wbp_step new_v5 c ?s2 (unwind 0 ?s2)" by (rule prepare_panics) simp_all
  ultimately have "wbp_steps new_v5 c s (unwind 0 ?s2)" by (meson converse_rtranclp_into_rtranclp r_into_rtranclp)
  then show ?thesis by (cases s) (simp add: unwind_def del_at_def)
qed

lemma panicked_steps: "wbp_steps example_v5 c (wb_new (memory_new, empty_disk)) panicked"
proof -
  let ?s = "\<lambda>p n ws q. (wb_new (memory_new, empty_disk))\<lparr>wb_pending := pending_default\<lparr>pw_entries := p\<rparr>, wb_next_arc := n,
    wb_workers := ws, wb_queue := q\<rparr>"
  let ?i = "job_id (panicked_job 0)"
  have run: "wbp_steps example_v5 c (?s p n ws []) (?s (p(?i \<mapsto> Arc n [1])) (n + 1) ws [panicked_job n])" for p n ws
    using works_steps[OF set_run[of "?s p n ws []" example_v5 c "QueryText ''q''" "[]" None "[1]"]]
    by (simp add: wb_new_def pending_default_def new_job_def)
  have stop: "wbp_steps example_v5 c (?s p n (Waiting # ws) [panicked_job m]) (?s p n ws [])" for p n ws m
    using panic_run[of "?s p n (Waiting # ws) [panicked_job m]" ws "panicked_job m" example_v5 c] by simp
  have 1: "wbp_steps example_v5 c (?s Map.empty 0 [Waiting, Waiting] []) (?s [?i \<mapsto> Arc 1 [1]] 2 [] [])"
    using run[where p = Map.empty and n = 0 and ws = "[Waiting, Waiting]"] stop[where p = "[?i \<mapsto> Arc 0 [1]]" and n = 1 and ws = "[Waiting]" and m = 0]
      run[where p = "[?i \<mapsto> Arc 0 [1]]" and n = 1 and ws = "[Waiting]"] stop[where p = "[?i \<mapsto> Arc 1 [1]]" and n = 2 and ws = "[]" and m = 1]
    by (simp add: numeral_2_eq_2)
  have 2: "wbp_steps example_v5 c (?s [?i \<mapsto> Arc 1 [1]] 2 [] []) panicked"
    using run[where p = "[?i \<mapsto> Arc 1 [1]]" and n = 2 and ws = "[]"] by (simp add: panicked_def new_job_def)
  have 3: "?s Map.empty 0 [Waiting, Waiting] [] = wb_new (memory_new, empty_disk)"
    by (simp add: wb_new_def pending_default_def WRITE_WORKERS_def numeral_2_eq_2)
  from rtranclp_trans[OF 1 2] show ?thesis unfolding 3 .
qed

theorem drain_converges_iff_witness:
  "\<not> (\<exists>s'. wb_steps example_v5 example_cache panicked s' \<and> is_drained s')
   \<and> panicked_job 2 \<in> set (wb_queue panicked)"
  using drain_converges_iff[OF panicked_steps, of example_cache] by (simp add: panicked_def)

end
