(* ===== verification/Registration.thy ===== *)
theory Registration
  imports Conn
begin

text \<open>
  Concurrent registrations (\<open>handle_register\<close> of \<^verbatim>\<open>src/daemon/conn.rs\<close> with the build locks of
  \<^verbatim>\<open>src/daemon/state.rs\<close>). Each connection that registers a namespace is a process; its
  calls on the shared state interleave with those of the others and with the other handlers. A build
  lock is held from its acquisition to the answer; a task that is dropped releases it. The handlers and the
  turns of a worker of the daemon are runs of this relation (\<open>respond_run\<close>, \<open>worker_turn_same\<close>).
\<close>

section \<open>Interleaved registrations\<close>

datatype 'e registrar =
    Arrived string string \<comment> \<open>namespace, configuration\<close>
  | Queued string string nat \<comment> \<open>waiting for the lock\<close>
  | Holding string string nat
  | Building string string nat
  | Built string nat 'e
  | Answered string response
  | Dropped

record ('w, 's) registrations =
  rg_state :: "('w, 's) daemon_state"
  rg_holder :: "nat \<rightharpoonup> nat"
  rg_procs :: "('w, 's) namespace_entry registrar list"

definition reg_at :: "('w, 's) registrations \<Rightarrow> nat \<Rightarrow> ('w, 's) namespace_entry registrar \<Rightarrow> bool" where
  "reg_at s p x \<longleftrightarrow> p < length (rg_procs s) \<and> rg_procs s ! p = x"

definition reg_goes ::
  "('w, 's) registrations \<Rightarrow> nat \<Rightarrow> ('w, 's) namespace_entry registrar \<Rightarrow> ('w, 's) registrations" where
  "reg_goes s p x = s\<lparr>rg_procs := (rg_procs s)[p := x]\<rparr>"

definition reg_frees :: "nat \<Rightarrow> ('w, 's) registrations \<Rightarrow> ('w, 's) registrations" where
  "reg_frees l s = s\<lparr>rg_holder := (rg_holder s)(l := None)\<rparr>"

fun lock_of :: "'e registrar \<Rightarrow> nat option" where
  "lock_of (Holding _ _ l) = Some l"
| "lock_of (Building _ _ l) = Some l"
| "lock_of (Built _ l _) = Some l"
| "lock_of _ = None"

text \<open>
  A step per await point of the handler. A registration whose task is dropped leaves the relation at once and
  frees its lock; a build it had submitted to the pool may still run to its end there, but its result is discarded, so
  that it never reaches the registry. Building below means building for a task that is still there.
\<close>

inductive reg_step ::
  "('m, 't, 'sw, 'i, 'g, 'cred, 'bucket, 'w, 's) host \<Rightarrow> ('w, 's) registrations \<Rightarrow> ('w, 's) registrations \<Rightarrow> bool"
  for h where
  arrive: "reg_step h s (s\<lparr>rg_procs := rg_procs s @ [Arrived ns cfg]\<rparr>)"
| build_lock:
    "reg_at s p (Arrived ns cfg) \<Longrightarrow> state_build_lock ns (rg_state s) = (Inr l, st) \<Longrightarrow>
     reg_step h s (reg_goes (s\<lparr>rg_state := st\<rparr>) p (Queued ns cfg l))"
| build_lock_failed:
    "reg_at s p (Arrived ns cfg) \<Longrightarrow> state_build_lock ns (rg_state s) = (Inl e, st) \<Longrightarrow>
     reg_step h s (reg_goes (s\<lparr>rg_state := st\<rparr>) p (Answered ns (backend_error e)))"
| acquire:
    "reg_at s p (Queued ns cfg l) \<Longrightarrow> rg_holder s l = None \<Longrightarrow>
     reg_step h s (reg_goes (s\<lparr>rg_holder := (rg_holder s)(l \<mapsto> p)\<rparr>) p (Holding ns cfg l))"
| present:
    "reg_at s p (Holding ns cfg l) \<Longrightarrow> state_resolve (rg_state s) ns = Inr (Some entry) \<Longrightarrow>
     reg_step h s (reg_frees l (reg_goes s p (Answered ns Registered)))"
| resolve_failed:
    "reg_at s p (Holding ns cfg l) \<Longrightarrow> state_resolve (rg_state s) ns = Inl e \<Longrightarrow>
     reg_step h s (reg_frees l (reg_goes s p (Answered ns (backend_error e))))"
| bad_config:
    "reg_at s p (Holding ns cfg l) \<Longrightarrow> state_resolve (rg_state s) ns = Inr None \<Longrightarrow> h_parse_config h cfg = Inl e \<Longrightarrow>
     reg_step h s (reg_frees l (reg_goes s p
       (Answered ns (ErrorResponse (InvalidRequest (''invalid namespace config: '' @ e))))))"
| start_build:
    "reg_at s p (Holding ns cfg l) \<Longrightarrow> state_resolve (rg_state s) ns = Inr None \<Longrightarrow> h_parse_config h cfg = Inr config \<Longrightarrow>
     reg_step h s (reg_goes s p (Building ns cfg l))"
| build_failed:
    "reg_at s p (Building ns cfg l) \<Longrightarrow> h_parse_config h cfg = Inr config \<Longrightarrow>
     build_cache (h_libs h) (h_features h) ns config = Inl e \<Longrightarrow>
     reg_step h s (reg_frees l (reg_goes s p (Answered ns (backend_error e))))"
| pool_gone:
    "reg_at s p (Building ns cfg l) \<Longrightarrow>
     reg_step h s (reg_frees l (reg_goes s p (Answered ns (backend_error DaemonShutdown))))"
| build_ok:
    "reg_at s p (Building ns cfg l) \<Longrightarrow> h_parse_config h cfg = Inr config \<Longrightarrow>
     build_cache (h_libs h) (h_features h) ns config = Inr dc \<Longrightarrow>
     reg_step h s (reg_goes s p (Built ns l
       \<lparr>ne_cache = realize h dc, ne_pending = pending_default, ne_vector = initial_vector (dc_vector dc)\<rparr>))"
| register:
    "reg_at s p (Built ns l entry) \<Longrightarrow> state_register ns entry (rg_state s) = (Inr (), st) \<Longrightarrow>
     reg_step h s (reg_frees l (reg_goes (s\<lparr>rg_state := st\<rparr>) p (Answered ns Registered)))"
| register_failed:
    "reg_at s p (Built ns l entry) \<Longrightarrow> state_register ns entry (rg_state s) = (Inl e, st) \<Longrightarrow>
     reg_step h s (reg_frees l (reg_goes (s\<lparr>rg_state := st\<rparr>) p (Answered ns (backend_error e))))"
| dropped:
    "reg_at s p x \<Longrightarrow>
     reg_step h s ((reg_goes s p Dropped)\<lparr>rg_holder := (case lock_of x of Some l \<Rightarrow> (rg_holder s)(l := None) | None \<Rightarrow> rg_holder s)\<rparr>)"
| elsewhere: \<comment> \<open>other handlers and the workers keep the caches that are registered\<close>
    "(\<And>ns. map_option ne_cache (ds_registry st ns) = map_option ne_cache (ds_registry (rg_state s) ns)) \<Longrightarrow>
     ds_build_locks st = ds_build_locks (rg_state s) \<Longrightarrow>
     reg_step h s (s\<lparr>rg_state := st\<rparr>)"

section \<open>Invariants\<close>

definition locks_ok :: "(string \<rightharpoonup> nat) \<Rightarrow> bool" where
  "locks_ok m \<longleftrightarrow> finite (dom m) \<and> (\<forall>n l. m n = Some l \<longrightarrow> l < card (dom m)) \<and> inj_on m (dom m)"

definition cache_at :: "('w, 's) daemon_state \<Rightarrow> string \<Rightarrow> ('w, 's) daemon_cache option" where
  "cache_at st ns = map_option ne_cache (ds_registry st ns)"

fun reg_fits :: "('w, 's) registrations \<Rightarrow> nat \<Rightarrow> ('w, 's) namespace_entry registrar \<Rightarrow> bool" where
  "reg_fits s p (Queued ns _ l) \<longleftrightarrow> ds_build_locks (rg_state s) ns = Some l"
| "reg_fits s p (Holding ns _ l) \<longleftrightarrow> ds_build_locks (rg_state s) ns = Some l \<and> rg_holder s l = Some p"
| "reg_fits s p (Building ns _ l) \<longleftrightarrow> ds_build_locks (rg_state s) ns = Some l \<and> rg_holder s l = Some p \<and> cache_at (rg_state s) ns = None"
| "reg_fits s p (Built ns l _) \<longleftrightarrow> ds_build_locks (rg_state s) ns = Some l \<and> rg_holder s l = Some p \<and> cache_at (rg_state s) ns = None"
| "reg_fits s p (Answered ns r) \<longleftrightarrow> (r = Registered \<longrightarrow> cache_at (rg_state s) ns \<noteq> None)"
| "reg_fits s p _ \<longleftrightarrow> True"

definition reg_ok :: "('w, 's) registrations \<Rightarrow> bool" where
  "reg_ok s \<longleftrightarrow> locks_ok (ds_build_locks (rg_state s)) \<and> (\<forall>p < length (rg_procs s). reg_fits s p (rg_procs s ! p))"

lemma build_lock_ok:
  assumes "locks_ok (ds_build_locks st)" "state_build_lock ns st = (Inr l, st')"
  shows "locks_ok (ds_build_locks st')" "ds_build_locks st' ns = Some l" "ds_build_locks st \<subseteq>\<^sub>m ds_build_locks st'"
    "ds_registry st' = ds_registry st"
proof -
  let ?m = "ds_build_locks st"
  consider (old) "?m ns = Some l" "st' = st"
    | (new) "?m ns = None" "l = card (dom ?m)" "st' = st\<lparr>ds_build_locks := ?m(ns \<mapsto> l)\<rparr>"
    using assms(2) by (auto simp: state_build_lock_def Let_def split: if_splits option.splits)
  then have "locks_ok (ds_build_locks st') \<and> ds_build_locks st' ns = Some l \<and> ?m \<subseteq>\<^sub>m ds_build_locks st' \<and> ds_registry st' = ds_registry st"
  proof cases
    case old
    then show ?thesis using assms(1) by simp
  next
    case new
    have lt: "?m n = Some k \<Longrightarrow> k < card (dom ?m)" for n k using assms(1) by (auto simp: locks_ok_def)
    have "ns \<notin> dom ?m" "finite (dom ?m)" using new(1) assms(1) by (auto simp: locks_ok_def)
    then have card: "card (insert ns (dom ?m)) = Suc (card (dom ?m))" by simp
    have "inj_on (?m(ns \<mapsto> l)) (insert ns (dom ?m))"
      using assms(1) new(1,2) lt by (auto simp: locks_ok_def inj_on_def) (metis domI less_irrefl option.inject)+
    then have "locks_ok (?m(ns \<mapsto> l))"
      using assms(1) card new(2) lt by (auto simp: locks_ok_def less_SucI)
    with new show ?thesis by (auto simp: map_le_def)
  qed
  then show "locks_ok (ds_build_locks st')" "ds_build_locks st' ns = Some l" "ds_build_locks st \<subseteq>\<^sub>m ds_build_locks st'"
    "ds_registry st' = ds_registry st" by blast+
qed

text \<open>A step of process \<open>p\<close> leaves the others as they are if it touches no lock held by another and changes
  only the registration of a name whose lock it holds.\<close>

lemma reg_ok_step:
  assumes "reg_ok s" and "locks_ok (ds_build_locks (rg_state s'))"
    and le: "ds_build_locks (rg_state s) \<subseteq>\<^sub>m ds_build_locks (rg_state s')"
    and held: "\<And>l q. q \<noteq> p \<Longrightarrow> rg_holder s l = Some q \<Longrightarrow> rg_holder s' l = Some q"
    and cache: "\<And>ns. cache_at (rg_state s') ns = cache_at (rg_state s) ns
      \<or> (\<exists>l. ds_build_locks (rg_state s) ns = Some l \<and> rg_holder s l = Some p \<and> cache_at (rg_state s') ns \<noteq> None)"
    and procs: "rg_procs s' = (rg_procs s)[p := y]" and y: "p < length (rg_procs s) \<Longrightarrow> reg_fits s' p y"
  shows "reg_ok s'"
proof -
  have "reg_fits s' q (rg_procs s' ! q)" if q: "q < length (rg_procs s')" for q
  proof (cases "q = p")
    case True
    then show ?thesis using q y procs by simp
  next
    case False
    have len: "q < length (rg_procs s)" using q procs by simp
    then have fits: "reg_fits s q (rg_procs s ! q)" using assms(1) by (simp add: reg_ok_def)
    have lock: "ds_build_locks (rg_state s') n = Some l" if "ds_build_locks (rg_state s) n = Some l" for n l
      using le that by (metis domI map_le_def)
    have none: "cache_at (rg_state s') n = None"
      if "ds_build_locks (rg_state s) n = Some l" "rg_holder s l = Some q" "cache_at (rg_state s) n = None" for n l
      using cache[of n] that False by auto
    have some: "cache_at (rg_state s') n \<noteq> None" if "cache_at (rg_state s) n \<noteq> None" for n
      using cache[of n] that by auto
    show ?thesis
      using fits False procs lock none some held[OF False] by (cases "rg_procs s ! q") auto
  qed
  with assms(2) show ?thesis by (simp add: reg_ok_def)
qed

lemma reg_okD:
  assumes "reg_ok s" "reg_at s p x"
  shows "reg_fits s p x" "locks_ok (ds_build_locks (rg_state s))" "p < length (rg_procs s)"
  using assms by (auto simp: reg_ok_def reg_at_def)

lemmas reg_defs = reg_goes_def reg_frees_def

lemma reg_step_ok:
  assumes "reg_step h s s'" "reg_ok s"
  shows "reg_ok s'"
  using assms(1)
proof (cases rule: reg_step.cases)
  case (arrive ns cfg)
  have "reg_fits s' p x = reg_fits s p x" for p x using arrive by (cases x) simp_all
  then show ?thesis using assms(2) arrive by (auto simp: reg_ok_def nth_append less_Suc_eq)
next
  case (build_lock p ns cfg l st)
  note b = build_lock_ok[OF reg_okD(2)[OF assms(2) build_lock(2)] build_lock(3)]
  show ?thesis
    by (rule reg_ok_step[OF assms(2), of _ p "Queued ns cfg l"]) (use b build_lock in \<open>auto simp: reg_defs cache_at_def\<close>)
next
  case (build_lock_failed p ns cfg e st)
  then have "st = rg_state s" by (auto simp: state_build_lock_def Let_def split: if_splits option.splits)
  then show ?thesis
    using reg_okD[OF assms(2) build_lock_failed(2)] build_lock_failed(1)
    by (intro reg_ok_step[OF assms(2), of _ p "Answered ns (backend_error e)"]) (auto simp: reg_defs backend_error_def)
next
  case (acquire p ns cfg l)
  then show ?thesis
    using reg_okD[OF assms(2) acquire(2)]
    by (intro reg_ok_step[OF assms(2), of _ p "Holding ns cfg l"]) (auto simp: reg_defs)
next
  case (present p ns cfg l entry)
  then show ?thesis
    using reg_okD[OF assms(2) present(2)]
    by (intro reg_ok_step[OF assms(2), of _ p "Answered ns Registered"])
      (auto simp: reg_defs state_resolve_def cache_at_def split: if_splits)
next
  case (resolve_failed p ns cfg l e)
  then show ?thesis
    using reg_okD[OF assms(2) resolve_failed(2)]
    by (intro reg_ok_step[OF assms(2), of _ p "Answered ns (backend_error e)"]) (auto simp: reg_defs backend_error_def)
next
  case (bad_config p ns cfg l e)
  then show ?thesis
    using reg_okD[OF assms(2) bad_config(2)]
    by (intro reg_ok_step[OF assms(2), of _ p "Answered ns (ErrorResponse (InvalidRequest (''invalid namespace config: '' @ e)))"])
      (auto simp: reg_defs)
next
  case (start_build p ns cfg l config)
  then show ?thesis
    using reg_okD[OF assms(2) start_build(2)]
    by (intro reg_ok_step[OF assms(2), of _ p "Building ns cfg l"])
      (auto simp: reg_defs state_resolve_def cache_at_def split: if_splits)
next
  case (build_failed p ns cfg l config e)
  then show ?thesis
    using reg_okD[OF assms(2) build_failed(2)]
    by (intro reg_ok_step[OF assms(2), of _ p "Answered ns (backend_error e)"]) (auto simp: reg_defs backend_error_def)
next
  case (pool_gone p ns cfg l)
  then show ?thesis
    using reg_okD[OF assms(2) pool_gone(2)]
    by (intro reg_ok_step[OF assms(2), of _ p "Answered ns (backend_error DaemonShutdown)"]) (auto simp: reg_defs backend_error_def)
next
  case (build_ok p ns cfg l config dc)
  then show ?thesis
    using reg_okD[OF assms(2) build_ok(2)]
    by (intro reg_ok_step[OF assms(2), of _ p "Built ns l
        \<lparr>ne_cache = realize h dc, ne_pending = pending_default, ne_vector = initial_vector (dc_vector dc)\<rparr>"])
      (auto simp: reg_defs)
next
  case (register p ns l entry st)
  then have "st = (rg_state s)\<lparr>ds_registry := (ds_registry (rg_state s))(ns \<mapsto> entry)\<rparr>"
    by (auto simp: state_register_def split: if_splits)
  then show ?thesis
    using reg_okD[OF assms(2) register(2)] register(1)
    by (intro reg_ok_step[OF assms(2), of _ p "Answered ns Registered"]) (auto simp: reg_defs cache_at_def)
next
  case (register_failed p ns l entry e st)
  then have "st = rg_state s" by (auto simp: state_register_def split: if_splits)
  then show ?thesis
    using reg_okD[OF assms(2) register_failed(2)] register_failed(1)
    by (intro reg_ok_step[OF assms(2), of _ p "Answered ns (backend_error e)"]) (auto simp: reg_defs backend_error_def)
next
  case (dropped p x)
  have "rg_holder s l = Some p" if "lock_of x = Some l" for l
    using reg_okD(1)[OF assms(2) dropped(2)] that by (cases x) auto
  then show ?thesis
    using reg_okD[OF assms(2) dropped(2)] dropped(1)
    by (intro reg_ok_step[OF assms(2), of _ p Dropped]) (auto simp: reg_defs split: option.splits if_splits)
next
  case (elsewhere st)
  have "reg_fits s' q x = reg_fits s q x" for q x
    using elsewhere by (cases x) (simp_all add: cache_at_def)
  with elsewhere assms(2) show ?thesis by (simp add: reg_ok_def)
qed

text \<open>A registered cache stays.\<close>

lemma reg_step_keeps:
  assumes "reg_step h s s'" "reg_ok s" "cache_at (rg_state s) ns = Some c"
  shows "cache_at (rg_state s') ns = Some c"
  using assms(1)
proof (cases rule: reg_step.cases)
  case (build_lock p n cfg l st)
  with build_lock_ok(4)[OF reg_okD(2)[OF assms(2) build_lock(2)] build_lock(3)] assms(3) show ?thesis
    by (simp add: cache_at_def reg_defs)
next
  case (build_lock_failed p n cfg e st)
  then have "st = rg_state s" by (auto simp: state_build_lock_def Let_def split: if_splits option.splits)
  with build_lock_failed assms(3) show ?thesis by (simp add: reg_defs)
next
  case (register p n l entry st)
  have "cache_at (rg_state s) n = None" using reg_okD(1)[OF assms(2) register(2)] by simp
  with assms(3) have "n \<noteq> ns" by auto
  with register assms(3) show ?thesis
    by (auto simp: reg_defs state_register_def cache_at_def split: if_splits)
next
  case (register_failed p n l entry e st)
  then have "st = rg_state s" by (auto simp: state_register_def split: if_splits)
  with register_failed assms(3) show ?thesis by (simp add: reg_defs)
next
  case (elsewhere st)
  with assms(3) show ?thesis by (simp add: cache_at_def)
qed (use assms(3) in \<open>auto simp: reg_defs\<close>)

lemma reg_steps_ok:
  assumes "(reg_step h)\<^sup>*\<^sup>* s s'" "reg_ok s"
  shows "reg_ok s' \<and> (cache_at (rg_state s) ns = Some c \<longrightarrow> cache_at (rg_state s') ns = Some c)"
  using assms by (induction rule: rtranclp_induct) (auto intro: reg_step_ok reg_step_keeps)

section \<open>The handlers take these steps\<close>

definition reg_last ::
  "('w, 's) namespace_entry registrar list \<Rightarrow> ('w, 's) daemon_state \<Rightarrow> (nat \<rightharpoonup> nat) \<Rightarrow> ('w, 's) namespace_entry registrar \<Rightarrow> ('w, 's) registrations" where
  "reg_last ps st m x = \<lparr>rg_state = st, rg_holder = m, rg_procs = ps @ [x]\<rparr>"

lemma reg_last_simps [simp]:
  "reg_at (reg_last ps st m x) (length ps) y \<longleftrightarrow> x = y"
  "reg_goes (reg_last ps st m x) (length ps) y = reg_last ps st m y"
  "reg_frees l (reg_last ps st m x) = reg_last ps st (m(l := None)) x"
  "rg_state (reg_last ps st m x) = st" "rg_holder (reg_last ps st m x) = m"
  "(reg_last ps st m x)\<lparr>rg_state := st'\<rparr> = reg_last ps st' m x"
  "(reg_last ps st m x)\<lparr>rg_holder := m'\<rparr> = reg_last ps st m' x"
  by (auto simp: reg_last_def reg_at_def reg_goes_def reg_frees_def list_update_append)

text \<open>The steps of the last process, one after the other: a registration that nothing interrupts.\<close>

lemma holding_run:
  assumes res: "state_resolve st ns = Inr None" and parse: "h_parse_config h cfg = Inr config"
    and run: "inference_run ds_pool_open (\<lambda>st. (Some (build_cache (h_libs h) (h_features h) ns config), st)) st = (b, st1)"
    and reg: "(r, st') = (case b of
      Inr (Inr dc) \<Rightarrow> (case state_register ns \<lparr>ne_cache = realize h dc, ne_pending = pending_default,
                               ne_vector = initial_vector (dc_vector dc)\<rparr> st1 of
                         (Inr _, st) \<Rightarrow> (Registered, st) | (Inl e, st) \<Rightarrow> (backend_error e, st))
    | Inr (Inl e) \<Rightarrow> (backend_error e, st1) | Inl e \<Rightarrow> (backend_error e, st1))"
  shows "(reg_step h)\<^sup>*\<^sup>* (reg_last ps st m (Holding ns cfg l)) (reg_last ps st' (m(l := None)) (Answered ns r))"
proof -
  have sb: "reg_step h (reg_last ps st m (Holding ns cfg l)) (reg_last ps st m (Building ns cfg l))"
    using start_build[of "reg_last ps st m (Holding ns cfg l)" "length ps" ns cfg l h config] res parse by simp
  have st1: "st1 = st" using run by (auto simp: inference_run_def split: if_splits)
  show ?thesis
  proof (cases b)
    case (Inl e)
    then have "e = DaemonShutdown" using run by (auto simp: inference_run_def split: if_splits)
    then show ?thesis
      using sb pool_gone[of "reg_last ps st m (Building ns cfg l)" "length ps" ns cfg l h] reg Inl st1 by simp
  next
    case (Inr bl)
    have bl: "bl = build_cache (h_libs h) (h_features h) ns config" using run Inr by (auto simp: inference_run_def split: if_splits)
    show ?thesis
    proof (cases bl)
      case (Inl e)
      then show ?thesis
        using sb build_failed[of "reg_last ps st m (Building ns cfg l)" "length ps" ns cfg l h config e] reg Inr st1 bl parse
        by simp
    next
      case (Inr dc)
      let ?e = "\<lparr>ne_cache = realize h dc, ne_pending = pending_default, ne_vector = initial_vector (dc_vector dc)\<rparr>"
      let ?B = "reg_last ps st m (Built ns l ?e)"
      have ok: "reg_step h (reg_last ps st m (Building ns cfg l)) ?B"
        using build_ok[of "reg_last ps st m (Building ns cfg l)" "length ps" ns cfg l h config dc] Inr bl parse by simp
      have "reg_step h ?B (reg_last ps st' (m(l := None)) (Answered ns r))"
        using register[of ?B "length ps" ns l ?e st' h] register_failed[of ?B "length ps" ns l ?e _ st' h] reg \<open>b = Inr bl\<close> Inr st1
        by (simp split: prod.splits sum.splits)
      with sb ok show ?thesis by (meson converse_rtranclp_into_rtranclp r_into_rtranclp)
    qed
  qed
qed

lemma handle_register_run:
  assumes reg: "handle_register h ns cfg (rg_state s) = (r, st')" and free: "rg_holder s = Map.empty"
  shows "(reg_step h)\<^sup>*\<^sup>* s (reg_last (rg_procs s) st' Map.empty (Answered ns r))"
proof -
  let ?L = "reg_last (rg_procs s)"
  have a: "reg_step h s (?L (rg_state s) Map.empty (Arrived ns cfg))"
    using arrive[of h s ns cfg] free by (cases s) (simp add: reg_last_def)
  obtain lr st where bl: "state_build_lock ns (rg_state s) = (lr, st)" by fastforce
  show ?thesis
  proof (cases lr)
    case (Inl e)
    with build_lock_failed[of "?L (rg_state s) Map.empty (Arrived ns cfg)" "length (rg_procs s)" ns cfg e st h] bl reg
    have "reg_step h (?L (rg_state s) Map.empty (Arrived ns cfg)) (?L st' Map.empty (Answered ns r))"
      by (simp add: handle_register_def)
    with a show ?thesis by (meson converse_rtranclp_into_rtranclp r_into_rtranclp)
  next
    case (Inr l)
    let ?H = "?L st [l \<mapsto> length (rg_procs s)] (Holding ns cfg l)"
    have b: "reg_step h (?L (rg_state s) Map.empty (Arrived ns cfg)) (?L st Map.empty (Queued ns cfg l))"
      using build_lock[of "?L (rg_state s) Map.empty (Arrived ns cfg)" "length (rg_procs s)" ns cfg l st h] bl Inr by simp
    have c: "reg_step h (?L st Map.empty (Queued ns cfg l)) ?H"
      using acquire[of "?L st Map.empty (Queued ns cfg l)" "length (rg_procs s)" ns cfg l h] by simp
    have "(reg_step h)\<^sup>*\<^sup>* ?H (?L st' Map.empty (Answered ns r))"
    proof (cases "state_resolve st ns")
      case (Inl e)
      with resolve_failed[of ?H "length (rg_procs s)" ns cfg l e h] reg bl \<open>lr = Inr l\<close> show ?thesis
        by (simp add: handle_register_def r_into_rtranclp)
    next
      case (Inr o1)
      show ?thesis
      proof (cases o1)
        case (Some entry)
        with present[of ?H "length (rg_procs s)" ns cfg l entry h] Inr reg bl \<open>lr = Inr l\<close> show ?thesis
          by (simp add: handle_register_def r_into_rtranclp)
      next
        case None
        show ?thesis
        proof (cases "h_parse_config h cfg")
          case (Inl e)
          with bad_config[of ?H "length (rg_procs s)" ns cfg l h e] None Inr reg bl \<open>lr = Inr l\<close> show ?thesis
            by (simp add: handle_register_def r_into_rtranclp)
        next
          case (Inr config)
          obtain bb st1 where run: "inference_run ds_pool_open
            (\<lambda>st. (Some (build_cache (h_libs h) (h_features h) ns config), st)) st = (bb, st1)" by fastforce
          show ?thesis
            using holding_run[OF _ Inr run, of r st' "rg_procs s" "[l \<mapsto> length (rg_procs s)]" l]
              reg bl \<open>lr = Inr l\<close> None \<open>state_resolve st ns = Inr o1\<close> Inr run
            by (simp add: handle_register_def)
        qed
      qed
    qed
    with a b c show ?thesis by (meson converse_rtranclp_into_rtranclp)
  qed
qed

text \<open>The other handlers and the workers keep the registered caches and the build locks.\<close>

definition same_caches :: "('w, 's) daemon_state \<Rightarrow> ('w, 's) daemon_state \<Rightarrow> bool" where
  "same_caches st st' \<longleftrightarrow> cache_at st' = cache_at st \<and> ds_build_locks st' = ds_build_locks st"

lemma same_caches_refl [simp]: "same_caches st st"
  by (simp add: same_caches_def)

lemma same_caches_trans: "same_caches a b \<Longrightarrow> same_caches b c \<Longrightarrow> same_caches a c"
  by (simp add: same_caches_def)

lemma same_caches_simps [simp]:
  "same_caches st (st\<lparr>ds_queue := q\<rparr>)" "same_caches st (st\<lparr>ds_next_arc := n\<rparr>)"
  "cache_at (st\<lparr>ds_queue := q\<rparr>) = cache_at st" "cache_at (st\<lparr>ds_next_arc := n\<rparr>) = cache_at st"
  by (simp_all add: same_caches_def cache_at_def fun_eq_iff)

lemma set_pending_same:
  "cache_at st ns = Some (ne_cache entry) \<Longrightarrow> same_caches st (set_pending ns entry p st)"
  by (auto simp: same_caches_def cache_at_def set_pending_def fun_eq_iff)

lemma on_cache_same:
  "cache_at st ns = Some (ne_cache entry) \<Longrightarrow> same_caches st (snd (on_cache ns entry f st))"
  by (auto simp: same_caches_def cache_at_def on_cache_def fun_eq_iff split: prod.splits)

lemma pool_on_cache_same:
  assumes "inference_run ds_pool_open (\<lambda>st. apfst Some (on_cache ns entry f st)) st = (r, st')"
    "cache_at st ns = Some (ne_cache entry)"
  shows "same_caches st st'"
  using assms on_cache_same[OF assms(2), of f]
  by (cases "on_cache ns entry f st") (auto simp: inference_run_def split: if_splits)

lemma cache_at_resolve: "conn_resolve st ns = Inr entry \<Longrightarrow> cache_at st ns = Some (ne_cache entry)"
  by (auto simp: conn_resolve_def state_resolve_def cache_at_def split: if_splits option.splits)

lemma same_caches_at: "same_caches st st' \<Longrightarrow> cache_at st' = cache_at st"
  by (simp add: same_caches_def)

lemma handle_get_same: "handle_get v5 ns q ks c st = (r, st') \<Longrightarrow> same_caches st st'"
  by (auto simp: handle_get_def split: prod.splits sum.splits option.splits dest!: cache_at_resolve intro: pool_on_cache_same)

lemma handle_del_same:
  assumes "handle_del v5 ns q ks c st = (r, st')"
  shows "same_caches st st'"
proof -
  have "same_caches st st'"
    if at: "cache_at st ns = Some (ne_cache entry)"
      and run: "inference_run ds_pool_open (\<lambda>st. apfst Some (on_cache ns (entry\<lparr>ne_pending := p\<rparr>) f st))
        (set_pending ns (entry\<lparr>ne_pending := p\<rparr>) p st) = (b, st')"
    for entry p f and b :: "(error + bool) res"
    using pool_on_cache_same[OF run] set_pending_same[of st ns "entry\<lparr>ne_pending := p\<rparr>" p] at
    by (simp add: same_caches_def)
  then show ?thesis
    using assms by (auto simp: handle_del_def Let_def split: prod.splits sum.splits dest!: cache_at_resolve)
qed

lemma handle_set_same:
  assumes "handle_set v5 ns q ks c v st = (r, st')"
  shows "same_caches st st'"
proof -
  have "same_caches st (set_pending ns entry p' (set_pending ns entry p (st\<lparr>ds_next_arc := n\<rparr>)))"
    "same_caches st (set_pending ns entry p (st\<lparr>ds_next_arc := n\<rparr>))"
    "same_caches st ((set_pending ns entry p (st\<lparr>ds_next_arc := n\<rparr>))\<lparr>ds_queue := qu\<rparr>)"
    if "cache_at st ns = Some (ne_cache entry)" for entry p p' n qu
    using that set_pending_same[of "st\<lparr>ds_next_arc := n\<rparr>" ns entry p]
      set_pending_same[of "set_pending ns entry p (st\<lparr>ds_next_arc := n\<rparr>)" ns entry p']
    by (simp_all add: same_caches_def)
  then show ?thesis
    using assms by (auto simp: handle_set_def Let_def split: prod.splits sum.splits bool.splits dest!: cache_at_resolve)
qed

lemma respond_same:
  assumes "respond h v p req st = (r, st')" "\<And>ns cfg. req \<noteq> RegisterNamespace ns cfg"
  shows "same_caches st st'"
  using assms
  by (cases req) (auto intro: handle_get_same handle_set_same handle_del_same split: if_splits)

lemma on_cache_set_pending_same:
  assumes "cache_at st ns = Some (ne_cache entry)" "ds_registry (snd (on_cache ns entry f st)) ns = Some e"
  shows "same_caches st (set_pending ns e p (snd (on_cache ns entry f st)))"
proof (rule same_caches_trans)
  show "same_caches st (snd (on_cache ns entry f st))" by (rule on_cache_same[OF assms(1)])
  show "same_caches (snd (on_cache ns entry f st)) (set_pending ns e p (snd (on_cache ns entry f st)))"
    using assms(2) by (intro set_pending_same) (simp add: cache_at_def)
qed

lemma write_job_run_same: "same_caches st (write_job_run v5 ns job st)"
proof (cases "ds_registry st ns")
  case None
  then show ?thesis by (simp add: write_job_run_def)
next
  case (Some entry)
  then have at: "cache_at st ns = Some (ne_cache entry)" by (simp add: cache_at_def)
  show ?thesis
    using Some on_cache_same[OF at] on_cache_set_pending_same[OF at]
    by (auto simp: write_job_run_def Let_def split: sum.splits option.splits)
qed

lemma worker_turn_same: "same_caches st (worker_turn v5 st)"
  using write_job_run_same[of "st\<lparr>ds_queue := _\<rparr>"]
  by (auto simp: worker_turn_def same_caches_def split: list.splits)

lemma same_caches_step: "same_caches (rg_state s) st \<Longrightarrow> reg_step h s (s\<lparr>rg_state := st\<rparr>)"
  by (rule elsewhere) (simp_all add: same_caches_def cache_at_def fun_eq_iff)

text \<open>Every handler of a daemon is a run of the registrations.\<close>

lemma respond_run:
  assumes "respond h v p req (rg_state s) = (r, st')" "rg_holder s = Map.empty"
  shows "\<exists>ps. (reg_step h)\<^sup>*\<^sup>* s \<lparr>rg_state = st', rg_holder = Map.empty, rg_procs = rg_procs s @ ps\<rparr>"
proof (cases "\<exists>ns cfg. req = RegisterNamespace ns cfg")
  case True
  then obtain ns cfg where "handle_register h ns cfg (rg_state s) = (r, st')" using assms(1) by auto
  from handle_register_run[OF this assms(2)] show ?thesis unfolding reg_last_def by blast
next
  case False
  then have "reg_step h s (s\<lparr>rg_state := st'\<rparr>)"
    using respond_same[OF assms(1)] by (intro same_caches_step) auto
  moreover have "s\<lparr>rg_state := st'\<rparr> = \<lparr>rg_state = st', rg_holder = Map.empty, rg_procs = rg_procs s @ []\<rparr>"
    using assms(2) by (cases s) simp
  ultimately show ?thesis by (metis r_into_rtranclp)
qed

section \<open>Properties\<close>

definition registrations_new :: "('w, 's) daemon_state \<Rightarrow> ('w, 's) registrations" where
  "registrations_new st = \<lparr>rg_state = st, rg_holder = Map.empty, rg_procs = []\<rparr>"

fun builds :: "string \<Rightarrow> 'e registrar \<Rightarrow> bool" where
  "builds ns (Building n _ _) \<longleftrightarrow> n = ns"
| "builds ns (Built n _ _) \<longleftrightarrow> n = ns"
| "builds ns _ \<longleftrightarrow> False"

text \<open>
  C19. A namespace is built at most once however registrations interleave, with each other, with other
  requests and with tasks that are dropped: never are two registrations of one name building, none builds
  while the name is registered, a registered cache is never replaced, and a registration that answered
  success left the name registered. (The build of a dropped task may still run in the pool; nothing takes its result.)
\<close>
theorem registration_exclusive:
  assumes "(reg_step h)\<^sup>*\<^sup>* (registrations_new (daemon_state_new w obs)) s" "(reg_step h)\<^sup>*\<^sup>* s s'"
  shows "(reg_at s p x \<and> reg_at s q y \<and> builds ns x \<and> builds ns y \<longrightarrow> p = q)
    \<and> (reg_at s p x \<and> builds ns x \<longrightarrow> cache_at (rg_state s) ns = None)
    \<and> (cache_at (rg_state s) ns = Some c \<longrightarrow> cache_at (rg_state s') ns = Some c)
    \<and> (reg_at s p (Answered ns Registered) \<longrightarrow> cache_at (rg_state s') ns \<noteq> None)"
proof -
  have "reg_ok (registrations_new (daemon_state_new w obs))"
    by (simp add: reg_ok_def registrations_new_def daemon_state_new_def locks_ok_def)
  with reg_steps_ok[OF assms(1)] have ok: "reg_ok s" by blast
  note keep = reg_steps_ok[OF assms(2) ok]
  have hold: "\<exists>l. ds_build_locks (rg_state s) ns = Some l \<and> rg_holder s l = Some r \<and> cache_at (rg_state s) ns = None"
    if "reg_at s r z" "builds ns z" for r z
    using reg_okD(1)[OF ok that(1)] that(2) by (cases z) auto
  have "reg_at s p x \<and> reg_at s q y \<and> builds ns x \<and> builds ns y \<longrightarrow> p = q"
    using hold[of p x] hold[of q y] by auto
  moreover have "reg_at s p (Answered ns Registered) \<longrightarrow> cache_at (rg_state s') ns \<noteq> None"
    using reg_okD(1)[OF ok, of p "Answered ns Registered"] keep by auto
  ultimately show ?thesis using hold keep by blast
qed

section \<open>Example\<close>

definition example_registrations :: "(unit, unit) namespace_entry registrar list \<Rightarrow> (nat \<rightharpoonup> nat) \<Rightarrow> (string \<rightharpoonup> nat) \<Rightarrow> (unit, unit) registrations" where
  "example_registrations ps m locks = \<lparr>rg_state = (daemon_state_new () (empty_disk, ()))\<lparr>ds_build_locks := locks\<rparr>, rg_holder = m, rg_procs = ps\<rparr>"

lemmas example_reg_simps = example_registrations_def registrations_new_def daemon_state_new_def reg_at_def reg_goes_def
  state_build_lock_def state_resolve_def example_host_def

theorem registration_exclusive_witness:
  "\<exists>s. (reg_step example_host)\<^sup>*\<^sup>* (registrations_new (daemon_state_new () (empty_disk, ()))) s
     \<and> reg_at s 0 (Building ''n'' ''a'' 0) \<and> reg_at s 1 (Queued ''n'' ''b'' 0) \<and> cache_at (rg_state s) ''n'' = None"
proof -
  let ?e = example_registrations and ?h = example_host
  let ?s = "?e [Building ''n'' ''a'' 0, Queued ''n'' ''b'' 0] [0 \<mapsto> 0] [''n'' \<mapsto> 0]"
  have 1: "reg_step ?h (registrations_new (daemon_state_new () (empty_disk, ()))) (?e [Arrived ''n'' ''a''] Map.empty Map.empty)"
    using arrive[of ?h "registrations_new (daemon_state_new () (empty_disk, ()))" "''n''" "''a''"] by (simp add: example_reg_simps)
  have 2: "reg_step ?h (?e [Arrived ''n'' ''a''] Map.empty Map.empty) (?e [Arrived ''n'' ''a'', Arrived ''n'' ''b''] Map.empty Map.empty)"
    using arrive[of ?h "?e [Arrived ''n'' ''a''] Map.empty Map.empty" "''n''" "''b''"] by (simp add: example_reg_simps)
  have 3: "reg_step ?h (?e [Arrived ''n'' ''a'', Arrived ''n'' ''b''] Map.empty Map.empty)
      (?e [Queued ''n'' ''a'' 0, Arrived ''n'' ''b''] Map.empty [''n'' \<mapsto> 0])"
    using build_lock[of "?e [Arrived ''n'' ''a'', Arrived ''n'' ''b''] Map.empty Map.empty" 0 "''n''" "''a''" 0 _ ?h] by (simp add: example_reg_simps)
  have 4: "reg_step ?h (?e [Queued ''n'' ''a'' 0, Arrived ''n'' ''b''] Map.empty [''n'' \<mapsto> 0])
      (?e [Queued ''n'' ''a'' 0, Queued ''n'' ''b'' 0] Map.empty [''n'' \<mapsto> 0])"
    using build_lock[of "?e [Queued ''n'' ''a'' 0, Arrived ''n'' ''b''] Map.empty [''n'' \<mapsto> 0]" 1 "''n''" "''b''" 0 _ ?h] by (simp add: example_reg_simps)
  have 5: "reg_step ?h (?e [Queued ''n'' ''a'' 0, Queued ''n'' ''b'' 0] Map.empty [''n'' \<mapsto> 0])
      (?e [Holding ''n'' ''a'' 0, Queued ''n'' ''b'' 0] [0 \<mapsto> 0] [''n'' \<mapsto> 0])"
    using acquire[of "?e [Queued ''n'' ''a'' 0, Queued ''n'' ''b'' 0] Map.empty [''n'' \<mapsto> 0]" 0 "''n''" "''a''" 0 ?h] by (simp add: example_reg_simps)
  have 6: "reg_step ?h (?e [Holding ''n'' ''a'' 0, Queued ''n'' ''b'' 0] [0 \<mapsto> 0] [''n'' \<mapsto> 0]) ?s"
    using start_build[of "?e [Holding ''n'' ''a'' 0, Queued ''n'' ''b'' 0] [0 \<mapsto> 0] [''n'' \<mapsto> 0]" 0 "''n''" "''a''" 0 ?h] by (simp add: example_reg_simps)
  have run: "(reg_step ?h)\<^sup>*\<^sup>* (registrations_new (daemon_state_new () (empty_disk, ()))) ?s"
    using 1 2 3 4 5 6 by (meson converse_rtranclp_into_rtranclp r_into_rtranclp)
  have at: "reg_at ?s 0 (Building ''n'' ''a'' 0)" "reg_at ?s 1 (Queued ''n'' ''b'' 0)" by (simp_all add: example_reg_simps)
  from registration_exclusive[OF run rtranclp.rtrancl_refl, of 0 "Building ''n'' ''a'' 0" 0 "Building ''n'' ''a'' 0" "''n''"] at
  have "cache_at (rg_state ?s) ''n'' = None" by simp
  with run at show ?thesis by blast
qed

end
