(* ===== verification/Supervisor.thy ===== *)
theory Supervisor
  imports Conn
begin

text \<open>
  \<^verbatim>\<open>src/daemon/supervisor.rs\<close>: the accept loop, the count of live clients and the idle
  shutdown. One round of the loop is a \<open>select!\<close>: its preconditions are evaluated when the round
  starts and then it waits for one of its enabled branches. Connections, time and the write queue move
  on their own between the rounds. Times are in milliseconds.
\<close>

section \<open>The client count\<close>

record clients = active :: "64 word"

definition clients_new :: clients where "clients_new = \<lparr>active = 0\<rparr>"

definition connected :: "clients \<Rightarrow> clients" where
  "connected c = c\<lparr>active := active c + 1\<rparr>"

definition is_idle :: "clients \<Rightarrow> bool" where
  "is_idle c \<longleftrightarrow> active c = 0"

definition disconnected :: "clients \<Rightarrow> bool \<times> clients" where
  "disconnected c = (let c = c\<lparr>active := active c - 1\<rparr> in (is_idle c, c))"

section \<open>The loop\<close>

definition SHUTDOWN_DRAIN_TIMEOUT :: nat where "SHUTDOWN_DRAIN_TIMEOUT = 10000"
definition SHUTDOWN_DRAIN_POLL :: nat where "SHUTDOWN_DRAIN_POLL = 50"

datatype connection = Greeting | Serving

datatype phase = Selecting | Draining nat \<comment> \<open>deadline\<close>

record supervisor =
  sv_clients :: clients
  sv_events :: "client_event list"
  sv_conns :: "connection list"
  sv_now :: nat
  sv_deadline :: nat
  sv_idle_enabled :: bool
  sv_drained :: bool
  sv_phase :: phase

text \<open>The start of a round: the precondition of the idle branch is evaluated.\<close>

definition next_round :: "supervisor \<Rightarrow> supervisor" where
  "next_round s = s\<lparr>sv_idle_enabled := (is_idle (sv_clients s) \<and> sv_drained s)\<rparr>"

definition supervisor_start :: "nat \<Rightarrow> nat \<Rightarrow> supervisor" where
  "supervisor_start idle now = next_round
     \<lparr>sv_clients = clients_new, sv_events = [], sv_conns = [], sv_now = now, sv_deadline = now + idle,
      sv_idle_enabled = False, sv_drained = True, sv_phase = Selecting\<rparr>"

fun on_event :: "nat \<Rightarrow> client_event \<Rightarrow> supervisor \<Rightarrow> supervisor" where
  "on_event idle Connected s = s\<lparr>sv_clients := connected (sv_clients s)\<rparr>"
| "on_event idle Disconnected s =
     (case disconnected (sv_clients s) of
        (now_idle, c) \<Rightarrow> if now_idle then s\<lparr>sv_clients := c, sv_deadline := sv_now s + idle\<rparr> else s\<lparr>sv_clients := c\<rparr>)"

definition shut_down :: "supervisor \<Rightarrow> supervisor" where
  "shut_down s = s\<lparr>sv_phase := Draining (sv_now s + SHUTDOWN_DRAIN_TIMEOUT)\<rparr>"

inductive sv_step :: "nat \<Rightarrow> supervisor \<Rightarrow> supervisor \<Rightarrow> bool" for idle where
  accept_ok:
    "sv_phase s = Selecting \<Longrightarrow> sv_step idle s (next_round (s\<lparr>sv_conns := sv_conns s @ [Greeting]\<rparr>))"
| accept_failed:
    "sv_phase s = Selecting \<Longrightarrow> sv_step idle s (next_round s)"
| event:
    "sv_phase s = Selecting \<Longrightarrow> sv_events s = e # es \<Longrightarrow>
     sv_step idle s (next_round (on_event idle e (s\<lparr>sv_events := es\<rparr>)))"
| idle_timer:
    "sv_phase s = Selecting \<Longrightarrow> sv_idle_enabled s \<Longrightarrow> sv_deadline s \<le> sv_now s \<Longrightarrow> sv_step idle s (shut_down s)"
| sigterm:
    "sv_phase s = Selecting \<Longrightarrow> sv_step idle s (shut_down s)"
| greeted:
    "n < length (sv_conns s) \<Longrightarrow> sv_conns s ! n = Greeting \<Longrightarrow>
     sv_step idle s (s\<lparr>sv_conns := (sv_conns s)[n := Serving], sv_events := sv_events s @ [Connected]\<rparr>)"
| rejected:
    "n < length (sv_conns s) \<Longrightarrow> sv_conns s ! n = Greeting \<Longrightarrow>
     sv_step idle s (s\<lparr>sv_conns := del_at n (sv_conns s)\<rparr>)"
| closed:
    "n < length (sv_conns s) \<Longrightarrow> sv_conns s ! n = Serving \<Longrightarrow>
     sv_step idle s (s\<lparr>sv_conns := del_at n (sv_conns s), sv_events := sv_events s @ [Disconnected]\<rparr>)"
| tick:
    "sv_phase s = Selecting \<Longrightarrow> sv_step idle s (s\<lparr>sv_now := sv_now s + 1\<rparr>)"
| queue_changes:
    "sv_step idle s (s\<lparr>sv_drained := d\<rparr>)"

inductive_cases sv_stepE: "sv_step idle s s'"

abbreviation sv_steps :: "nat \<Rightarrow> supervisor \<Rightarrow> supervisor \<Rightarrow> bool" where
  "sv_steps idle \<equiv> (sv_step idle)\<^sup>*\<^sup>*"

text \<open>After the loop: polling the write queue, whose state is a function of the time, up to a deadline; a sleep that begins
  at \<open>t\<close> takes \<open>overslept t\<close> longer than asked.\<close>

function drain_loop :: "(nat \<Rightarrow> bool) \<Rightarrow> (nat \<Rightarrow> nat) \<Rightarrow> nat \<Rightarrow> nat \<Rightarrow> nat" where
  "drain_loop drained overslept deadline now =
     (if \<not> drained now \<and> now < deadline
      then drain_loop drained overslept deadline (now + SHUTDOWN_DRAIN_POLL + overslept now) else now)"
  by pat_completeness auto

termination
  by (relation "measure (\<lambda>(_, _, deadline, now). deadline - now)") (auto simp: SHUTDOWN_DRAIN_POLL_def)

declare drain_loop.simps [simp del]

section \<open>Lemmas\<close>

lemma count_list_del_at:
  assumes "n < length xs"
  shows "count_list xs y = count_list (del_at n xs) y + (if xs ! n = y then 1 else 0)"
proof -
  have "count_list xs y = count_list (take n xs @ xs ! n # drop (Suc n) xs) y"
    using id_take_nth_drop[OF assms] by simp
  then show ?thesis by (simp add: del_at_def)
qed

lemma count_list_update:
  assumes "n < length xs"
  shows "count_list (xs[n := z]) y + (if xs ! n = y then 1 else 0) = count_list xs y + (if z = y then 1 else 0)"
proof -
  have "count_list xs y = count_list (take n xs @ xs ! n # drop (Suc n) xs) y"
    using id_take_nth_drop[OF assms] by simp
  then show ?thesis by (simp add: upd_conv_take_nth_drop[OF assms])
qed

text \<open>The count and the events still queued add up to the connections being served.\<close>

definition balanced :: "supervisor \<Rightarrow> bool" where
  "balanced s \<longleftrightarrow> active (sv_clients s) + of_nat (count_list (sv_events s) Connected)
     = of_nat (count_list (sv_conns s) Serving) + of_nat (count_list (sv_events s) Disconnected)"

lemma next_round_simps [simp]:
  "sv_clients (next_round s) = sv_clients s" "sv_events (next_round s) = sv_events s"
  "sv_conns (next_round s) = sv_conns s" "sv_now (next_round s) = sv_now s"
  "sv_deadline (next_round s) = sv_deadline s" "sv_phase (next_round s) = sv_phase s"
  "sv_drained (next_round s) = sv_drained s"
  "sv_idle_enabled (next_round s) \<longleftrightarrow> is_idle (sv_clients s) \<and> sv_drained s"
  by (simp_all add: next_round_def)

lemma on_event_simps [simp]:
  "sv_events (on_event idle e s) = sv_events s" "sv_conns (on_event idle e s) = sv_conns s"
  "sv_now (on_event idle e s) = sv_now s" "sv_phase (on_event idle e s) = sv_phase s"
  "sv_drained (on_event idle e s) = sv_drained s"
  "active (sv_clients (on_event idle Connected s)) = active (sv_clients s) + 1"
  "active (sv_clients (on_event idle Disconnected s)) = active (sv_clients s) - 1"
  by (cases e; simp add: connected_def disconnected_def Let_def)+

declare on_event.simps [simp del]

lemma sv_step_balanced: "sv_step idle s s' \<Longrightarrow> balanced s \<Longrightarrow> balanced s'"
proof (induction rule: sv_step.induct)
  case (event s e es)
  then show ?case by (cases e) (simp_all add: balanced_def algebra_simps)
next
  case (greeted n s)
  then show ?case
    using count_list_update[OF greeted(1), of Serving Serving] by (simp add: balanced_def)
next
  case (rejected n s)
  then show ?case using count_list_del_at[OF rejected(1), of Serving] by (simp add: balanced_def)
next
  case (closed n s)
  then show ?case using count_list_del_at[OF closed(1), of Serving] by (simp add: balanced_def algebra_simps)
qed (auto simp: balanced_def shut_down_def)

lemma sv_steps_balanced: "sv_steps idle s s' \<Longrightarrow> balanced s \<Longrightarrow> balanced s'"
  by (induction rule: rtranclp_induct) (auto intro: sv_step_balanced)

lemma balanced_start: "balanced (supervisor_start idle now)"
  by (simp add: balanced_def supervisor_start_def clients_new_def)

text \<open>The idle branch is only enabled while the count is zero, and the deadline is never later than a
  whole idle period from now.\<close>

definition timed :: "nat \<Rightarrow> supervisor \<Rightarrow> bool" where
  "timed idle s \<longleftrightarrow> (sv_idle_enabled s \<longrightarrow> is_idle (sv_clients s)) \<and> sv_deadline s \<le> sv_now s + idle"

lemma sv_step_timed:
  assumes "sv_step idle s s'" "timed idle s"
  shows "timed idle s' \<and> sv_deadline s \<le> sv_deadline s' \<and> sv_now s \<le> sv_now s'"
  using assms
proof (induction rule: sv_step.induct)
  case (event s e es)
  then show ?case by (cases e) (auto simp: timed_def on_event.simps disconnected_def Let_def)
qed (auto simp: timed_def shut_down_def)

lemma sv_steps_timed:
  "sv_steps idle s s' \<Longrightarrow> timed idle s \<Longrightarrow> timed idle s' \<and> sv_deadline s \<le> sv_deadline s' \<and> sv_now s \<le> sv_now s'"
  by (induction rule: rtranclp_induct) (auto dest: sv_step_timed intro: order_trans)

lemma timed_start: "timed idle (supervisor_start idle now)"
  by (simp add: timed_def supervisor_start_def)

text \<open>The time of the \<open>k\<close>th look at the queue, if all looks before it found the loop still to go on.\<close>

definition look_at :: "(nat \<Rightarrow> nat) \<Rightarrow> nat \<Rightarrow> nat \<Rightarrow> nat" where
  "look_at overslept now k = ((\<lambda>t. t + SHUTDOWN_DRAIN_POLL + overslept t) ^^ k) now"

lemma look_at_Suc: "look_at overslept now (Suc k) = look_at overslept now k + SHUTDOWN_DRAIN_POLL + overslept (look_at overslept now k)"
  by (simp add: look_at_def)

lemma look_at_simps [simp]:
  "look_at overslept now 0 = now"
  "look_at overslept now (Suc k) = look_at overslept (now + SHUTDOWN_DRAIN_POLL + overslept now) k"
  by (simp_all only: look_at_def funpow_0 funpow_Suc_right o_apply)

lemma look_at_ge: "now + k * SHUTDOWN_DRAIN_POLL \<le> look_at overslept now k"
  by (induction k arbitrary: now) (fastforce intro: order_trans[rotated])+

lemma drain_loop_stops:
  "\<exists>k. drain_loop drained overslept deadline now = look_at overslept now k
     \<and> (\<forall>j < k. \<not> drained (look_at overslept now j) \<and> look_at overslept now j < deadline)
     \<and> (drained (look_at overslept now k) \<or> deadline \<le> look_at overslept now k)"
proof (induction drained overslept deadline now rule: drain_loop.induct)
  case (1 drained overslept deadline now)
  show ?case
  proof (cases "\<not> drained now \<and> now < deadline")
    case True
    with 1[OF True] drain_loop.simps[of drained overslept deadline now] obtain k where k: "drain_loop drained overslept deadline now = look_at overslept now (Suc k)"
      "\<forall>j < k. \<not> drained (look_at overslept now (Suc j)) \<and> look_at overslept now (Suc j) < deadline"
      "drained (look_at overslept now (Suc k)) \<or> deadline \<le> look_at overslept now (Suc k)"
      by auto
    with True show ?thesis by (intro exI[of _ "Suc k"]) (auto simp del: look_at_simps(2) simp: less_Suc_eq_0_disj)
  next
    case False
    then show ?thesis by (intro exI[of _ 0]) (auto simp: drain_loop.simps)
  qed
qed

section \<open>Properties\<close>

text \<open>
  C27. The client count is exact: whatever connections come, greet, are rejected and go, the count and
  the events still queued always add up, modulo $2^{64}$ like the counter, to the connections being served; so
  once the queue of events is empty the count is zero exactly when no client is connected.
\<close>
theorem client_count_exact:
  assumes "sv_steps idle (supervisor_start idle now) s"
  shows "active (sv_clients s) + of_nat (count_list (sv_events s) Connected)
      = of_nat (count_list (sv_conns s) Serving) + of_nat (count_list (sv_events s) Disconnected)
    \<and> (sv_events s = [] \<and> length (sv_conns s) < 2 ^ 64 \<longrightarrow> (is_idle (sv_clients s) \<longleftrightarrow> Serving \<notin> set (sv_conns s)))"
proof -
  have bal: "balanced s" by (rule sv_steps_balanced[OF assms balanced_start])
  have "is_idle (sv_clients s) \<longleftrightarrow> Serving \<notin> set (sv_conns s)" if "sv_events s = []" "length (sv_conns s) < 2 ^ 64"
  proof -
    have "count_list (sv_conns s) Serving < 2 ^ 64"
      using that(2) count_le_length[of "sv_conns s" Serving] by simp
    then have "(of_nat (count_list (sv_conns s) Serving) :: 64 word) = 0 \<longleftrightarrow> count_list (sv_conns s) Serving = 0"
      using nat_dvd_not_less[of "count_list (sv_conns s) Serving" "2 ^ 64"] by (auto simp: word_of_nat_eq_0_iff)
    then show ?thesis using bal that(1) by (simp add: balanced_def is_idle_def count_list_0_iff)
  qed
  with bal show ?thesis by (simp add: balanced_def)
qed

text \<open>
  C28. The daemon does not leave while it counts a client, nor too early: when the idle branch of the
  loop can fire, the count is zero, and since the event by which the last client left a whole idle
  period has passed, whatever happened in between.
\<close>
theorem idle_exit_waits:
  assumes "sv_steps idle (supervisor_start idle now) s"
    and "sv_phase s = Selecting" "sv_events s = Disconnected # es" "active (sv_clients s) = 1"
    and "s1 = next_round (on_event idle Disconnected (s\<lparr>sv_events := es\<rparr>))"
    and "sv_steps idle s1 s2" and "sv_idle_enabled s2" "sv_deadline s2 \<le> sv_now s2"
  shows "sv_step idle s s1 \<and> active (sv_clients s2) = 0 \<and> sv_now s + idle \<le> sv_now s2"
proof -
  have s1: "sv_step idle s s1" unfolding assms(5) by (rule event[OF assms(2,3)])
  have "timed idle s" using sv_steps_timed[OF assms(1) timed_start] by blast
  with sv_step_timed[OF s1] have "timed idle s1" by blast
  from sv_steps_timed[OF assms(6) this] have "timed idle s2" "sv_deadline s1 \<le> sv_deadline s2" by blast+
  moreover have "sv_deadline s1 = sv_now s + idle"
    using assms(4) by (simp add: assms(5) on_event.simps disconnected_def Let_def is_idle_def)
  ultimately show ?thesis using s1 assms(7,8) by (simp add: timed_def is_idle_def)
qed

text \<open>
  C29. Shutdown ends: waiting for the write queue stops at the first look that finds it drained, or finds the ten seconds of
  the timeout over, and goes on until then; that is after at most 200 sleeps, and at the latest one sleep after
  the timeout, whatever the queue does.
\<close>
theorem shutdown_drain_bounded:
  "\<exists>k \<le> 200. let deadline = now + SHUTDOWN_DRAIN_TIMEOUT; t = look_at overslept now k in
     drain_loop drained overslept deadline now = t
     \<and> (\<forall>j < k. \<not> drained (look_at overslept now j) \<and> look_at overslept now j < deadline)
     \<and> (drained t \<or> deadline \<le> t) \<and> now \<le> t
     \<and> (\<exists>u < deadline. t = now \<or> t = u + SHUTDOWN_DRAIN_POLL + overslept u)"
proof -
  obtain k where k: "drain_loop drained overslept (now + SHUTDOWN_DRAIN_TIMEOUT) now = look_at overslept now k"
    "\<forall>j < k. \<not> drained (look_at overslept now j) \<and> look_at overslept now j < now + SHUTDOWN_DRAIN_TIMEOUT"
    "drained (look_at overslept now k) \<or> now + SHUTDOWN_DRAIN_TIMEOUT \<le> look_at overslept now k"
    using drain_loop_stops by blast
  have few: "k \<le> 200"
  proof (rule ccontr)
    assume "\<not> k \<le> 200"
    with k(2) have "look_at overslept now 200 < now + SHUTDOWN_DRAIN_TIMEOUT" by simp
    with look_at_ge[of now 200 overslept] show False by (simp add: SHUTDOWN_DRAIN_TIMEOUT_def SHUTDOWN_DRAIN_POLL_def)
  qed
  have last: "\<exists>u < now + SHUTDOWN_DRAIN_TIMEOUT. look_at overslept now k = now \<or> look_at overslept now k = u + SHUTDOWN_DRAIN_POLL + overslept u"
  proof (cases k)
    case 0
    then show ?thesis by (intro exI[of _ now]) (simp add: SHUTDOWN_DRAIN_TIMEOUT_def)
  next
    case (Suc j)
    with k(2) show ?thesis by (intro exI[of _ "look_at overslept now j"]) (simp add: look_at_Suc del: look_at_simps)
  qed
  from k few last look_at_ge[of now k overslept] show ?thesis
    by (intro exI[of _ k]) (auto simp: Let_def)
qed

definition waits :: "supervisor \<Rightarrow> supervisor \<Rightarrow> bool" where
  "waits s s' \<longleftrightarrow> s' = s\<lparr>sv_now := sv_now s + 1\<rparr> \<or> (\<exists>d. s' = s\<lparr>sv_drained := d\<rparr>)"

lemma waits_disabled:
  "waits\<^sup>*\<^sup>* s s' \<Longrightarrow> \<not> sv_idle_enabled s \<Longrightarrow> sv_phase s = Selecting \<Longrightarrow>
     \<not> sv_idle_enabled s' \<and> sv_phase s' = Selecting"
  by (induction rule: rtranclp_induct) (auto simp: waits_def)

text \<open>The states of a visit by one client.\<close>

definition visit :: "nat \<Rightarrow> 64 word \<Rightarrow> client_event list \<Rightarrow> connection list \<Rightarrow> nat \<Rightarrow> bool \<Rightarrow> bool \<Rightarrow> supervisor" where
  "visit deadline n events conns now enabled d = \<lparr>sv_clients = \<lparr>active = n\<rparr>, sv_events = events, sv_conns = conns,
     sv_now = now, sv_deadline = deadline, sv_idle_enabled = enabled, sv_drained = d, sv_phase = Selecting\<rparr>"

lemmas visit_simps = visit_def next_round_def on_event.simps connected_def disconnected_def Let_def is_idle_def

lemma visit_served:
  "sv_steps idle (supervisor_start idle now) (visit (now + idle) 1 [Disconnected] [] now False True)"
proof -
  let ?v = "visit (now + idle)"
  have "sv_steps idle (supervisor_start idle now) (?v 0 [] [] now True True)"
    by (simp add: supervisor_start_def clients_new_def visit_simps)
  also have "sv_step idle (?v 0 [] [] now True True) (?v 0 [] [Greeting] now True True)"
    using accept_ok[of "?v 0 [] [] now True True" idle] by (simp add: visit_simps)
  also have "sv_step idle (?v 0 [] [Greeting] now True True) (?v 0 [Connected] [Serving] now True True)"
    using greeted[of 0 "?v 0 [] [Greeting] now True True" idle] by (simp add: visit_simps)
  also have "sv_step idle (?v 0 [Connected] [Serving] now True True) (?v 1 [] [Serving] now False True)"
    using event[of "?v 0 [Connected] [Serving] now True True" Connected "[]" idle] by (simp add: visit_simps)
  also have "sv_step idle (?v 1 [] [Serving] now False True) (?v 1 [Disconnected] [] now False True)"
    using closed[of 0 "?v 1 [] [Serving] now False True" idle] by (simp add: visit_simps del_at_def)
  finally show ?thesis .
qed

lemma visit_ticks:
  "sv_steps idle (visit deadline n events conns now enabled d) (visit deadline n events conns (now + k) enabled d)"
proof (induction k)
  case (Suc k)
  have "sv_step idle (visit deadline n events conns (now + k) enabled d) (visit deadline n events conns (now + Suc k) enabled d)"
    using tick[of "visit deadline n events conns (now + k) enabled d" idle] by (simp add: visit_def)
  with Suc show ?case by (rule rtranclp.rtrancl_into_rtrancl)
qed simp

lemma visit_missed: "sv_steps idle (supervisor_start idle now) (visit (now + idle) 0 [] [] (now + idle) False True)"
proof -
  let ?v = "visit (now + idle)"
  note visit_served
  also have "sv_step idle (?v 1 [Disconnected] [] now False True) (?v 1 [Disconnected] [] now False False)"
    using queue_changes[of idle "?v 1 [Disconnected] [] now False True" False] by (simp add: visit_def)
  also have "sv_step idle (?v 1 [Disconnected] [] now False False) (?v 0 [] [] now False False)"
    using event[of "?v 1 [Disconnected] [] now False False" Disconnected "[]" idle] by (simp add: visit_simps)
  also have "sv_step idle (?v 0 [] [] now False False) (?v 0 [] [] now False True)"
    using queue_changes[of idle "?v 0 [] [] now False False" True] by (simp add: visit_def)
  also note visit_ticks[of idle "now + idle" 0 "[]" "[]" now False True idle]
  finally show ?thesis .
qed

text \<open>
  The daemon can miss its idle exit: the precondition of the idle branch is evaluated once per
  round. If the last client leaves while the write queue is busy, the round that begins then has the
  branch disabled, and although the queue drains afterwards, no client is connected and the idle period
  is over, waiting alone never enables it again.
\<close>
theorem idle_exit_missed:
  "\<exists>s. sv_steps idle (supervisor_start idle now) s \<and> sv_conns s = [] \<and> sv_events s = []
     \<and> is_idle (sv_clients s) \<and> sv_drained s \<and> sv_deadline s \<le> sv_now s
     \<and> (\<forall>s'. waits\<^sup>*\<^sup>* s s' \<longrightarrow> sv_phase s' = Selecting \<and> \<not> sv_idle_enabled s')"
proof -
  let ?s = "visit (now + idle) 0 [] [] (now + idle) False True"
  have "\<not> sv_idle_enabled ?s" "sv_phase ?s = Selecting" by (simp_all add: visit_def)
  then have "\<forall>s'. waits\<^sup>*\<^sup>* ?s s' \<longrightarrow> sv_phase s' = Selecting \<and> \<not> sv_idle_enabled s'"
    using waits_disabled by blast
  with visit_missed show ?thesis by (intro exI[of _ ?s]) (simp add: visit_def is_idle_def)
qed

theorem idle_exit_missed_witness:
  "\<exists>s. sv_steps 300000 (supervisor_start 300000 7) s \<and> is_idle (sv_clients s) \<and> sv_drained s
     \<and> sv_deadline s \<le> sv_now s \<and> \<not> sv_idle_enabled s"
  using idle_exit_missed[of 300000 7] by blast

theorem shutdown_drain_bounded_witness: "drain_loop (\<lambda>t. 100 \<le> t) (\<lambda>_. 3) (7 + SHUTDOWN_DRAIN_TIMEOUT) 7 = 113"
proof -
  have at: "look_at (\<lambda>_. 3) 7 k = 7 + 53 * k" for k by (induction k) (simp_all add: look_at_Suc SHUTDOWN_DRAIN_POLL_def del: look_at_simps(2))
  obtain k where k: "drain_loop (\<lambda>t. 100 \<le> t) (\<lambda>_. 3) (7 + SHUTDOWN_DRAIN_TIMEOUT) 7 = 7 + 53 * k"
    "\<forall>j < k. \<not> 100 \<le> 7 + 53 * j" "100 \<le> 7 + 53 * k \<or> 7 + SHUTDOWN_DRAIN_TIMEOUT \<le> 7 + 53 * k"
    using shutdown_drain_bounded[of 7 "\<lambda>_. 3" "\<lambda>t. 100 \<le> t"] by (auto simp: Let_def at)
  have "k \<le> 2" using k(2)[rule_format, of 2] by (cases "2 < k") simp_all
  moreover have "2 \<le> k" using k(3) by (simp add: SHUTDOWN_DRAIN_TIMEOUT_def) presburger
  ultimately have "k = 2" by simp
  with k(1) show ?thesis by simp
qed

theorem client_count_exact_witness:
  "active (sv_clients (visit 12 1 [Disconnected] [] 7 False True)) = of_nat (count_list [Disconnected] Disconnected)"
  using client_count_exact[OF visit_served[of 5 7]] by (simp add: visit_def)

theorem idle_exit_waits_witness: "sv_now (visit 12 1 [Disconnected] [] 7 False True) + 5 \<le> (12 :: nat)"
proof -
  let ?s = "visit (7 + 5) 1 [Disconnected] [] 7 False True" and ?s2 = "visit 12 0 [] [] 12 True True"
  have "?s2 = visit 12 0 [] [] (7 + 5) True True" by simp
  then have "sv_steps 5 (visit 12 0 [] [] 7 True True) ?s2" by (metis visit_ticks)
  moreover have "next_round (on_event 5 Disconnected (?s\<lparr>sv_events := []\<rparr>)) = visit 12 0 [] [] 7 True True"
    by (simp add: visit_simps)
  ultimately have "sv_steps 5 (next_round (on_event 5 Disconnected (?s\<lparr>sv_events := []\<rparr>))) ?s2" by simp
  from idle_exit_waits[OF visit_served[of 5 7] _ _ _ refl this] show ?thesis by (simp add: visit_def)
qed

end
