(* ===== verification/Py_Values.thy ===== *)
theory Py_Values
  imports Conn
begin

text \<open>
  The value classes of \<^verbatim>\<open>src/python.rs\<close>: cache queries, the backend objects and the scoring
  object, with their \<open>__repr__\<close>, \<open>__eq__\<close> and \<open>__hash__\<close>. \<open>DefaultHasher\<close> leaves its
  algorithm open: \<open>finish\<close> is its result for the bytes written to it. The iteration order
  of a \<open>HashSet\<close> is the argument \<open>order\<close>.
\<close>

section \<open>Rendering\<close>

definition DEFAULT_GLINER_LABELS :: "string list" where
  "DEFAULT_GLINER_LABELS = [''person'', ''organization'', ''location'', ''date'', ''product'', ''event'']"

definition quoted :: "string \<Rightarrow> string" where
  "quoted s = CHR 0x27 # s @ [CHR 0x27]"

definition py_bool :: "bool \<Rightarrow> string" where
  "py_bool v = (if v then ''True'' else ''False'')"

definition render_opt_str :: "string option \<Rightarrow> string" where
  "render_opt_str v = (case v of Some v \<Rightarrow> quoted v | None \<Rightarrow> ''None'')"

definition render_opt :: "('a \<Rightarrow> string) \<Rightarrow> 'a option \<Rightarrow> string" where
  "render_opt fmt v = (case v of Some v \<Rightarrow> fmt v | None \<Rightarrow> ''None'')"

definition render_str_list :: "string list \<Rightarrow> string" where
  "render_str_list vs = ''['' @ join_with '', '' (map quoted vs) @ '']''"

definition render_str_set :: "string list \<Rightarrow> string" where
  "render_str_set vs = (if vs = [] then ''set()'' else ''{'' @ join_with '', '' (map quoted (sort vs)) @ ''}'')"

text \<open>Hashing a \<open>str\<close> writes its bytes and the byte 255; the result is read as a signed word.\<close>

definition hash_str :: "(bytes \<Rightarrow> 64 word) \<Rightarrow> string \<Rightarrow> int" where
  "hash_str finish s = sint (finish (as_bytes s @ [255]))"

fun embedding_repr :: "embedding_choice \<Rightarrow> string" where
  "embedding_repr (LocalChoice model) = ''LocalEmbedding(model='' @ render_opt_str model @ '')''"
| "embedding_repr (VoyageChoice model dim_opt) =
     ''VoyageEmbedding(model='' @ render_opt_str model @ '', dim='' @ render_opt show_nat dim_opt @ '')''"

fun entity_repr :: "entity_choice \<Rightarrow> string" where
  "entity_repr (KeywordChoice language) = ''KeywordEntities(lang='' @ render_opt_str language @ '')''"
| "entity_repr (GlinerChoice labels repo model tokenizer) =
     ''GlinerEntities(labels='' @ render_str_list labels @ '', repo='' @ render_opt_str repo
       @ '', model='' @ render_opt_str model @ '', tokenizer='' @ render_opt_str tokenizer @ '')''"

fun vector_repr :: "vector_choice \<Rightarrow> string" where
  "vector_repr MemoryChoice = ''MemoryVectors()''"
| "vector_repr TurbopufferChoice = ''TurbopufferVectors()''"

fun object_repr :: "object_choice \<Rightarrow> string" where
  "object_repr (DiskChoice dir) = ''DiskStorage(root='' @ render_opt_str dir @ '')''"
| "object_repr (S3Choice bucket region endpoint pre) =
     ''S3Storage(bucket='' @ render_opt_str bucket @ '', region='' @ render_opt_str region
       @ '', endpoint='' @ render_opt_str endpoint @ '', prefix='' @ quoted pre @ '')''"

section \<open>Cache queries\<close>

record cache_query =
  cq_query :: string
  cq_keys :: "string list"
  cq_context :: "string option"

fun validate_keys :: "string list \<Rightarrow> string list \<Rightarrow> string list res" where
  "validate_keys [] validated = Inr validated"
| "validate_keys (key # keys) validated =
     try_bind (key_new key) (\<lambda>k. validate_keys keys (validated @ [key_str k]))"

definition cache_query_new ::
  "(string \<Rightarrow> nat) \<Rightarrow> string \<Rightarrow> string list option \<Rightarrow> string option \<Rightarrow> cache_query res" where
  "cache_query_new order query keys context_opt =
     try_bind (query_text_new query) (\<lambda>q.
     let keys = (case keys of Some ks \<Rightarrow> ks | None \<Rightarrow> []) in
     try_bind (validate_keys (hs_iter order keys) []) (\<lambda>validated.
     try_bind (case context_opt of Some c \<Rightarrow> try_bind (ctx_new c) (\<lambda>c. Inr (Some (ctx_str c))) | None \<Rightarrow> Inr None) (\<lambda>c.
       Inr \<lparr>cq_query = query_str q, cq_keys = validated, cq_context = c\<rparr>)))"

definition cache_query_repr :: "cache_query \<Rightarrow> string" where
  "cache_query_repr q =
     ''CacheQuery(query='' @ quoted (cq_query q) @ '', keys='' @ render_str_set (cq_keys q)
       @ '', context='' @ render_opt_str (cq_context q) @ '')''"

definition cache_query_eq :: "cache_query \<Rightarrow> cache_query \<Rightarrow> bool" where
  "cache_query_eq a b \<longleftrightarrow>
     cq_query a = cq_query b \<and> cq_context a = cq_context b \<and> set (cq_keys a) = set (cq_keys b)"

definition cache_query_hash :: "(bytes \<Rightarrow> 64 word) \<Rightarrow> cache_query \<Rightarrow> int" where
  "cache_query_hash finish q = hash_str finish (cache_query_repr q)"

section \<open>Backend objects\<close>

text \<open>Every backend class wraps one choice; a class is told apart by the constructor of the argument
  that carries it.\<close>

definition local_embedding_new :: "string option \<Rightarrow> embedding_choice" where
  "local_embedding_new model = LocalChoice model"

definition voyage_embedding_new :: "string option \<Rightarrow> nat option \<Rightarrow> embedding_choice" where
  "voyage_embedding_new model dim_opt = VoyageChoice model dim_opt"

definition keyword_entities_new :: "string option \<Rightarrow> entity_choice" where
  "keyword_entities_new language = KeywordChoice language"

definition gliner_entities_new ::
  "string list option \<Rightarrow> string option \<Rightarrow> string option \<Rightarrow> string option \<Rightarrow> entity_choice" where
  "gliner_entities_new labels repo model tokenizer =
     GlinerChoice (case labels of Some ls \<Rightarrow> ls | None \<Rightarrow> DEFAULT_GLINER_LABELS) repo model tokenizer"

definition memory_vectors_new :: vector_choice where "memory_vectors_new = MemoryChoice"
definition turbopuffer_vectors_new :: vector_choice where "turbopuffer_vectors_new = TurbopufferChoice"

definition disk_storage_new :: "string option \<Rightarrow> object_choice" where
  "disk_storage_new dir = DiskChoice dir"

definition s3_storage_new ::
  "string option \<Rightarrow> string option \<Rightarrow> string option \<Rightarrow> string option \<Rightarrow> object_choice" where
  "s3_storage_new bucket region endpoint pre =
     S3Choice bucket region endpoint (case pre of Some p \<Rightarrow> p | None \<Rightarrow> [])"

definition embedding_object_hash :: "(bytes \<Rightarrow> 64 word) \<Rightarrow> embedding_choice \<Rightarrow> int" where
  "embedding_object_hash finish c = hash_str finish (embedding_repr c)"

definition entity_object_hash :: "(bytes \<Rightarrow> 64 word) \<Rightarrow> entity_choice \<Rightarrow> int" where
  "entity_object_hash finish c = hash_str finish (entity_repr c)"

definition vector_object_hash :: "(bytes \<Rightarrow> 64 word) \<Rightarrow> vector_choice \<Rightarrow> int" where
  "vector_object_hash finish c = hash_str finish (vector_repr c)"

definition object_object_hash :: "(bytes \<Rightarrow> 64 word) \<Rightarrow> object_choice \<Rightarrow> int" where
  "object_object_hash finish c = hash_str finish (object_repr c)"

section \<open>Scoring\<close>

definition scoring_new ::
  "(f32 \<Rightarrow> string) \<Rightarrow> f32 option \<Rightarrow> nat option \<Rightarrow> bool option \<Rightarrow> string option \<Rightarrow> f32 option \<Rightarrow> f32 option
   \<Rightarrow> scoring_dto res" where
  "scoring_new fmt threshold_opt top_k_opt entity_filter_opt context_opt context_gate_opt context_threshold_opt =
     (let defaults = scoring_dto_default;
          or = (\<lambda>v d. case v of Some v \<Rightarrow> v | None \<Rightarrow> d);
          dto = \<lparr>dto_threshold = or threshold_opt (dto_threshold defaults),
                 dto_entity_filter = (case entity_filter_opt of Some v \<Rightarrow> v | None \<Rightarrow> dto_entity_filter defaults),
                 dto_context = (case context_opt of Some v \<Rightarrow> v | None \<Rightarrow> dto_context defaults),
                 dto_context_gate = or context_gate_opt (dto_context_gate defaults),
                 dto_context_threshold = or context_threshold_opt (dto_context_threshold defaults),
                 dto_top_k = (case top_k_opt of Some v \<Rightarrow> v | None \<Rightarrow> dto_top_k defaults)\<rparr>
      in try_bind (to_config fmt dto) (\<lambda>_. Inr dto))"

definition scoring_repr :: "(f32 \<Rightarrow> string) \<Rightarrow> scoring_dto \<Rightarrow> string" where
  "scoring_repr fmt dto =
     ''Scoring(threshold='' @ fmt (dto_threshold dto) @ '', context_gate='' @ fmt (dto_context_gate dto)
       @ '', context_threshold='' @ fmt (dto_context_threshold dto) @ '', top_k='' @ show_nat (dto_top_k dto)
       @ '', entity_filter='' @ py_bool (dto_entity_filter dto) @ '', context='' @ quoted (dto_context dto) @ '')''"

text \<open>The derived equality compares the thresholds as floats.\<close>

definition scoring_eq :: "scoring_dto \<Rightarrow> scoring_dto \<Rightarrow> bool" where
  "scoring_eq a b \<longleftrightarrow>
     f32_eq (dto_threshold a) (dto_threshold b) \<and> dto_entity_filter a = dto_entity_filter b
     \<and> dto_context a = dto_context b \<and> f32_eq (dto_context_gate a) (dto_context_gate b)
     \<and> f32_eq (dto_context_threshold a) (dto_context_threshold b) \<and> dto_top_k a = dto_top_k b"

definition scoring_hash :: "(bytes \<Rightarrow> 64 word) \<Rightarrow> scoring_dto \<Rightarrow> int" where
  "scoring_hash finish dto =
     sint (finish (to_le_bytes 8 (dto_top_k dto) @ [if dto_entity_filter dto then 1 else 0]
       @ as_bytes (dto_context dto) @ [255]))"

section \<open>What Python asks of a hashable class\<close>

text \<open>
  The contract of \<open>__eq__\<close> and \<open>__hash__\<close>, on the values \<open>ok\<close> that can be built: equality is an
  equivalence and equal values hash equal. A dictionary compares hashes first and then
  asks for equality; under the contract it finds the entry of any equal key.
\<close>

definition dict_get :: "('k \<Rightarrow> 'k \<Rightarrow> bool) \<Rightarrow> ('k \<Rightarrow> int) \<Rightarrow> ('k \<times> 'v) list \<Rightarrow> 'k \<Rightarrow> 'v option" where
  "dict_get eq hash d k = map_option snd (find (\<lambda>(k', _). hash k' = hash k \<and> eq k' k) d)"

fun dict_set :: "('k \<Rightarrow> 'k \<Rightarrow> bool) \<Rightarrow> ('k \<Rightarrow> int) \<Rightarrow> 'k \<Rightarrow> 'v \<Rightarrow> ('k \<times> 'v) list \<Rightarrow> ('k \<times> 'v) list" where
  "dict_set eq hash k v [] = [(k, v)]"
| "dict_set eq hash k v ((k', v') # d) =
     (if hash k' = hash k \<and> eq k' k then (k', v) # d else (k', v') # dict_set eq hash k v d)"

locale hashable =
  fixes ok :: "'k \<Rightarrow> bool" and eq :: "'k \<Rightarrow> 'k \<Rightarrow> bool" and hash :: "'k \<Rightarrow> int"
  assumes eq_refl: "ok a \<Longrightarrow> eq a a"
    and eq_sym: "ok a \<Longrightarrow> ok b \<Longrightarrow> eq a b \<Longrightarrow> eq b a"
    and eq_trans: "ok a \<Longrightarrow> ok b \<Longrightarrow> ok c \<Longrightarrow> eq a b \<Longrightarrow> eq b c \<Longrightarrow> eq a c"
    and eq_hash: "ok a \<Longrightarrow> ok b \<Longrightarrow> eq a b \<Longrightarrow> hash a = hash b"
begin

lemma match_eq: "ok a \<Longrightarrow> ok b \<Longrightarrow> ok c \<Longrightarrow> eq a b \<Longrightarrow> hash c = hash a \<and> eq c a \<longleftrightarrow> hash c = hash b \<and> eq c b"
  by (metis eq_sym eq_trans eq_hash)

lemma get_after_set:
  assumes "list_all (\<lambda>(k, _). ok k) d" "ok a" "ok b" "eq a b"
  shows "dict_get eq hash (dict_set eq hash a v d) b = Some v"
  using assms
proof (induction d)
  case Nil
  then show ?case by (simp add: dict_get_def eq_hash)
next
  case (Cons p d)
  obtain k' v' where p: "p = (k', v')" by fastforce
  with Cons.prems have "hash k' = hash a \<and> eq k' a \<longleftrightarrow> hash k' = hash b \<and> eq k' b" by (intro match_eq) auto
  with Cons p show ?case by (auto simp: dict_get_def)
qed

lemma get_other_after_set:
  assumes "list_all (\<lambda>(k, _). ok k) d" "ok a" "ok b" "\<not> eq a b"
  shows "dict_get eq hash (dict_set eq hash a v d) b = dict_get eq hash d b"
  using assms
proof (induction d)
  case (Cons p d)
  obtain k' v' where p: "p = (k', v')" by fastforce
  with Cons.prems have "ok k'" by simp
  with Cons.prems have "\<not> (eq k' a \<and> eq k' b)" by (metis eq_sym eq_trans)
  with Cons p show ?case by (auto simp: dict_get_def)
qed (simp add: dict_get_def)

end

interpretation embedding_objects: hashable "\<lambda>_. True" "(=)" "embedding_object_hash finish" for finish
  by unfold_locales auto

interpretation entity_objects: hashable "\<lambda>_. True" "(=)" "entity_object_hash finish" for finish
  by unfold_locales auto

interpretation vector_objects: hashable "\<lambda>_. True" "(=)" "vector_object_hash finish" for finish
  by unfold_locales auto

interpretation storage_objects: hashable "\<lambda>_. True" "(=)" "object_object_hash finish" for finish
  by unfold_locales auto

text \<open>The rendering of a key set depends on the set alone when no key is repeated.\<close>

lemma render_str_set_eq:
  assumes "distinct xs" "distinct ys" "set xs = set ys"
  shows "render_str_set xs = render_str_set ys"
proof -
  have "sort xs = sort ys" using assms by (metis sorted_list_of_set_sort_remdups distinct_remdups_id)
  with assms(3) show ?thesis by (auto simp: render_str_set_def)
qed

interpretation queries: hashable "\<lambda>q. distinct (cq_keys q)" cache_query_eq "cache_query_hash finish" for finish
proof
  fix a b :: cache_query
  assume "distinct (cq_keys a)" "distinct (cq_keys b)" "cache_query_eq a b"
  moreover from this have "render_str_set (cq_keys a) = render_str_set (cq_keys b)"
    by (intro render_str_set_eq) (auto simp: cache_query_eq_def)
  ultimately show "cache_query_hash finish a = cache_query_hash finish b"
    by (simp add: cache_query_hash_def cache_query_repr_def cache_query_eq_def)
qed (auto simp: cache_query_eq_def)

definition scoring_dto_ok :: "scoring_dto \<Rightarrow> bool" where
  "scoring_dto_ok d \<longleftrightarrow> f32_in_range f32_zero f32_one (dto_threshold d)
     \<and> f32_in_range f32_zero f32_one (dto_context_gate d) \<and> f32_in_range f32_zero f32_one (dto_context_threshold d)"

lemma scoring_new_ok: "scoring_new fmt t k f c g ct = Inr d \<Longrightarrow> scoring_dto_ok d \<and> (\<exists>sc. to_config fmt d = Inr sc)"
  by (auto simp: scoring_new_def Let_def result_simps scoring_dto_ok_def to_config_def split: if_splits)

interpretation scorings: hashable scoring_dto_ok scoring_eq "scoring_hash finish" for finish
  by unfold_locales
    (auto simp: scoring_dto_ok_def scoring_eq_def scoring_hash_def f32_eq_def dest: in_range_not_nan)

section \<open>Validation of queries\<close>

lemma validate_keys_eq:
  "validate_keys keys acc =
     (if list_all (\<lambda>k. trim k \<noteq> []) keys then Inr (acc @ map trim keys) else Inl EmptyKey)"
  by (induction keys arbitrary: acc) (auto simp: key_new_def Let_def)

lemma reconstruct_keys_eq:
  "reconstruct_keys keys acc =
     (if list_all (\<lambda>k. trim k \<noteq> []) keys then Inr (fold btree_insert (map (\<lambda>k. Key (trim k)) keys) acc)
      else Inl (invalid_request EmptyKey))"
  by (induction keys arbitrary: acc) (auto simp: key_new_def Let_def)

lemma list_all_hs_iter [simp]: "list_all P (hs_iter order xs) \<longleftrightarrow> list_all P xs"
  by (simp add: list_all_iff)

lemma cache_query_new_Inr:
  assumes "cache_query_new order query keys context_opt = Inr q"
  shows "cq_query q = trim query" "cq_keys q = map trim (hs_iter order (case keys of Some ks \<Rightarrow> ks | None \<Rightarrow> []))"
    "cq_context q = map_option trim context_opt"
  using assms by (auto simp: cache_query_new_def query_text_new_def ctx_new_def validate_keys_eq Let_def result_simps
      split: if_splits option.splits)

text \<open>
  C11. The client and the daemon validate alike. A query the client refuses is one the daemon would have
  refused with the same error; a query it accepts is accepted by the daemon, which rebuilds from what is
  sent exactly the parts of the query as it was written, whatever the order the key set was
  iterated in.
\<close>
theorem query_validation_agrees:
  "case cache_query_new order query keys context_opt of
     Inl e \<Rightarrow> reconstruct query (case keys of Some ks \<Rightarrow> ks | None \<Rightarrow> []) context_opt = Inl (invalid_request e)
   | Inr q \<Rightarrow> \<exists>parts. reconstruct query (case keys of Some ks \<Rightarrow> ks | None \<Rightarrow> []) context_opt = Inr parts
       \<and> reconstruct (cq_query q) (cq_keys q) (cq_context q) = Inr parts"
proof -
  define ks where "ks = (case keys of Some ks \<Rightarrow> ks | None \<Rightarrow> [])"
  have same: "btree_collect (map (\<lambda>k. Key (trim k)) (map trim (hs_iter order ks))) = btree_collect (map (\<lambda>k. Key (trim k)) ks)"
    by (simp add: btree_collect_eq_iff trim_idem image_image)
  show ?thesis
    unfolding ks_def[symmetric] cache_query_new_def
    using same by (auto simp: reconstruct_def query_text_new_def ctx_new_def validate_keys_eq
        reconstruct_keys_eq Let_def trim_idem list_all_iff btree_collect_def split: option.splits)
qed

section \<open>Values as dictionary keys\<close>

text \<open>
  A cache query whose keys stay different when trimmed is a proper dictionary key: it equals itself,
  queries that compare equal hash equal for every hasher, and what is stored under one is found under the
  other, however their key sets were iterated.
\<close>
theorem query_dict_key:
  assumes "cache_query_new order query keys context_opt = Inr a" "distinct (map trim (case keys of Some ks \<Rightarrow> ks | None \<Rightarrow> []))"
    and "cache_query_new order' query' keys' context_opt' = Inr b" "distinct (map trim (case keys' of Some ks \<Rightarrow> ks | None \<Rightarrow> []))"
    and "cache_query_eq a b" "list_all (\<lambda>(q, _). distinct (cq_keys q)) d"
  shows "cache_query_eq a a \<and> cache_query_hash finish a = cache_query_hash finish b
    \<and> dict_get cache_query_eq (cache_query_hash finish) (dict_set cache_query_eq (cache_query_hash finish) a v d) b = Some v"
proof -
  have dist: "distinct (map trim (hs_iter order xs)) \<longleftrightarrow> distinct (map trim xs)" for order xs
    by (metis hs_iter_def mset_map mset_sort distinct_count_atmost_1 mset_eq_imp_distinct_iff)
  have ok: "distinct (cq_keys a)" "distinct (cq_keys b)"
    using assms(2,4) cache_query_new_Inr(2)[OF assms(1)] cache_query_new_Inr(2)[OF assms(3)] by (simp_all add: dist)
  with assms(5,6) show ?thesis
    using queries.eq_refl[of a] queries.eq_hash[of a b finish] queries.get_after_set[of d a b finish v] by blast
qed

text \<open>
  Keys are trimmed after the set was formed, so two raw keys can become one: such a query compares
  equal to the query with the key given once, yet renders differently, and with any hasher that tells
  the two renderings apart it is not found under it, although the documentation has queries with the
  same key set hash equal.
\<close>
theorem query_hash_differs:
  assumes "cache_query_new order ''q'' (Some [''k'', '' k'']) None = Inr a" "cache_query_new order' ''q'' (Some [''k'']) None = Inr b"
    and "cache_query_hash finish a = cache_query_hash finish b \<longrightarrow> cache_query_repr a = cache_query_repr b"
  shows "cache_query_eq a b \<and> cache_query_hash finish a \<noteq> cache_query_hash finish b
    \<and> dict_get cache_query_eq (cache_query_hash finish) (dict_set cache_query_eq (cache_query_hash finish) a v []) b = None"
proof -
  have t: "trim ''k'' = ''k''" "trim '' k'' = ''k''" "trim ''q'' = ''q''" by code_simp+
  have "length (hs_iter order [''k'', '' k'']) = 2" by (simp add: hs_iter_def)
  then obtain x y where xy: "hs_iter order [''k'', '' k''] = [x, y]"
    by (auto simp: numeral_2_eq_2 length_Suc_conv)
  then have "{x, y} = {''k'', '' k''}" using set_hs_iter[of order "[''k'', '' k'']"] by simp
  then have "trim x = ''k''" "trim y = ''k''" using t by (auto simp: doubleton_eq_iff)
  then have a: "a = \<lparr>cq_query = ''q'', cq_keys = [''k'', ''k''], cq_context = None\<rparr>"
    using cache_query_new_Inr[OF assms(1)] t xy by (cases a) simp
  have b: "b = \<lparr>cq_query = ''q'', cq_keys = [''k''], cq_context = None\<rparr>"
    using cache_query_new_Inr[OF assms(2)] t by (cases b) (simp add: hs_iter_def)
  have "cache_query_repr a \<noteq> cache_query_repr b" unfolding a b by code_simp
  with assms(3) show ?thesis by (auto simp: a b cache_query_eq_def dict_get_def)
qed

text \<open>
  Scoring objects are proper dictionary keys although their thresholds are floats: a constructed one
  equals itself since no threshold is NaN, equality is symmetric, and equal ones hash equal even when
  they differ in the sign of a zero threshold; each is accepted again when the daemon validates it.
\<close>
theorem scoring_dict_key:
  assumes "scoring_new fmt t k f c g ct = Inr a" "scoring_new fmt t' k' f' c' g' ct' = Inr b"
  shows "scoring_eq a a \<and> (scoring_eq a b = scoring_eq b a)
    \<and> (\<not> scoring_eq a b \<or> scoring_hash finish a = scoring_hash finish b)
    \<and> (\<exists>sc. to_config fmt a = Inr sc \<and> scoring_ok sc \<and> dto_of sc = a)"
proof -
  obtain sc where sc: "scoring_dto_ok a" "to_config fmt a = Inr sc" using scoring_new_ok[OF assms(1)] by blast
  have b: "scoring_dto_ok b" using scoring_new_ok[OF assms(2)] by blast
  from to_config_Inr[OF sc(2)] sc b show ?thesis
    using scorings.eq_refl[of a] scorings.eq_sym[of a b] scorings.eq_sym[of b a] scorings.eq_hash[of a b finish] by blast
qed

definition example_query :: "string list \<Rightarrow> cache_query" where
  "example_query keys = \<lparr>cq_query = ''q'', cq_keys = keys, cq_context = None\<rparr>"

theorem query_dict_key_witness:
  "dict_get cache_query_eq (cache_query_hash (\<lambda>b. of_nat (length b)))
     (dict_set cache_query_eq (cache_query_hash (\<lambda>b. of_nat (length b))) (example_query [''a'', ''b'']) True []) (example_query [''b'', ''a''])
   = Some True"
proof -
  have "cache_query_new length '' q'' (Some [''a'', ''b'']) None = Inr (example_query [''a'', ''b''])"
    "cache_query_new length ''q'' (Some [''b'', ''a'']) None = Inr (example_query [''b'', ''a''])"
    "distinct (map trim [''a'', ''b''])" "distinct (map trim [''b'', ''a''])"
    "cache_query_eq (example_query [''a'', ''b'']) (example_query [''b'', ''a''])"
    by code_simp+
  then show ?thesis
    using query_dict_key[of length "'' q''" "Some [''a'', ''b'']" None "example_query [''a'', ''b'']"
        length "''q''" "Some [''b'', ''a'']" None "example_query [''b'', ''a'']" "[]" "\<lambda>b. of_nat (length b)" True] by simp
qed

theorem query_hash_differs_witness:
  "cache_query_eq (example_query [''k'', ''k'']) (example_query [''k''])
   \<and> dict_get cache_query_eq (cache_query_hash (\<lambda>b. of_nat (length b)))
     (dict_set cache_query_eq (cache_query_hash (\<lambda>b. of_nat (length b))) (example_query [''k'', ''k'']) True []) (example_query [''k''])
   = None"
proof -
  have "cache_query_new length ''q'' (Some [''k'', '' k'']) None = Inr (example_query [''k'', ''k''])"
    "cache_query_new length ''q'' (Some [''k'']) None = Inr (example_query [''k''])"
    "cache_query_hash (\<lambda>b. of_nat (length b)) (example_query [''k'', ''k'']) \<noteq> cache_query_hash (\<lambda>b. of_nat (length b)) (example_query [''k''])"
    by code_simp+
  then show ?thesis
    using query_hash_differs[of length "example_query [''k'', ''k'']" length "example_query [''k'']" "\<lambda>b. of_nat (length b)" True] by blast
qed

theorem scoring_dict_key_witness:
  "\<exists>a b. scoring_new (\<lambda>_. []) (Some f32_neg_zero) None None None None (Some f32_zero) = Inr a
     \<and> scoring_new (\<lambda>_. []) (Some f32_zero) None None None None (Some f32_zero) = Inr b
     \<and> a \<noteq> b \<and> scoring_eq a b \<and> scoring_eq b a \<and> scoring_hash (\<lambda>b. of_nat (length b)) a = scoring_hash (\<lambda>b. of_nat (length b)) b"
proof -
  define a where "a = scoring_dto_default\<lparr>dto_threshold := f32_neg_zero, dto_context_threshold := f32_zero\<rparr>"
  define b where "b = scoring_dto_default\<lparr>dto_threshold := f32_zero, dto_context_threshold := f32_zero\<rparr>"
  have "scoring_new (\<lambda>_. []) (Some f32_neg_zero) None None None None (Some f32_zero) = Inr a"
    "scoring_new (\<lambda>_. []) (Some f32_zero) None None None None (Some f32_zero) = Inr b" "a \<noteq> b" "scoring_eq a b"
    unfolding a_def b_def by code_simp+
  with scoring_dict_key[OF this(1,2)] show ?thesis by blast
qed

end
