(* ===== verification/Paths.thy ===== *)
theory Paths
  imports Object_Disk Protocol
begin

text \<open>
  \<^verbatim>\<open>src/paths.rs\<close>: the per-user runtime directory and the paths of the daemon's socket, lock,
  log, spawn lock and pid file. The environment, the user id and the answers of the
  operating system are the record \<open>os\<close>; the modes of directories are the state.
\<close>

section \<open>Extensions of path names\<close>

text \<open>The end of a path without trailing separators and \<open>.\<close> components, read from the right.\<close>

fun strip_tail :: "string \<Rightarrow> string" where
  "strip_tail [] = []"
| "strip_tail [c] = [c]"
| "strip_tail (c # d # r) =
     (if c = CHR ''/'' then strip_tail (d # r)
      else if c = CHR ''.'' \<and> d = CHR ''/'' then strip_tail (d # r)
      else c # d # r)"

definition file_name :: "string \<Rightarrow> string option" where
  "file_name p =
     (let name = rev (takeWhile (\<lambda>c. c \<noteq> CHR ''/'') (strip_tail (rev p)))
      in if name \<in> {'''', ''.'', ''..''} then None else Some name)"

text \<open>\<open>file_stem\<close>: what precedes the last dot, unless that is the first character or there is none.\<close>

definition file_stem :: "string \<Rightarrow> string" where
  "file_stem name =
     (let before = rev (drop 1 (dropWhile (\<lambda>c. c \<noteq> CHR ''.'') (rev name)))
      in if before = [] then name else before)"

definition with_extension :: "string \<Rightarrow> string \<Rightarrow> string" where
  "with_extension p ext =
     (case file_name p of
        None \<Rightarrow> p
      | Some name \<Rightarrow>
          rev (dropWhile (\<lambda>c. c \<noteq> CHR ''/'') (strip_tail (rev p))) @ file_stem name
            @ (if ext = [] then [] else CHR ''.'' # ext))"

section \<open>The runtime directory\<close>

definition PROTOCOL_MAJOR :: nat where "PROTOCOL_MAJOR = PROTOCOL_VERSION"
definition DIR_MODE :: nat where "DIR_MODE = 448" \<comment> \<open>octal 700\<close>

record os =
  os_var :: "string \<Rightarrow> string option"
  os_uid :: nat
  os_linux :: bool
  os_runtime_dir :: "string option"
  os_mkdir :: "string \<Rightarrow> io_error option"
  os_chmod :: "string \<Rightarrow> io_error option"

type_synonym modes = "string \<rightharpoonup> nat"

definition base_runtime_dir :: "os \<Rightarrow> string" where
  "base_runtime_dir os =
     (case (if os_linux os then os_runtime_dir os else None) of
        Some dir \<Rightarrow> dir
      | None \<Rightarrow> (case os_var os ''TMPDIR'' of Some tmp \<Rightarrow> tmp | None \<Rightarrow> ''/tmp''))"

text \<open>Creating a directory that exists keeps its mode, so the mode is set afterwards.\<close>

definition runtime_dir :: "os \<Rightarrow> modes \<Rightarrow> string res \<times> modes" where
  "runtime_dir os ms =
     (let dir = path_join (base_runtime_dir os) (''semisweet-'' @ show_nat (os_uid os)) in
      case os_mkdir os dir of
        Some e \<Rightarrow> (Inl (Io e), ms)
      | None \<Rightarrow>
          let ms = (if dir \<in> dom ms then ms else ms(dir \<mapsto> DIR_MODE)) in
          case os_chmod os dir of
            Some e \<Rightarrow> (Inl (Io e), ms)
          | None \<Rightarrow> (Inr dir, ms(dir \<mapsto> DIR_MODE)))"

definition default_name :: "string \<Rightarrow> string" where
  "default_name ext = ''v'' @ show_nat PROTOCOL_MAJOR @ ''.'' @ ext"

definition env_or_default :: "os \<Rightarrow> string \<Rightarrow> string \<Rightarrow> modes \<Rightarrow> string res \<times> modes" where
  "env_or_default os var ext ms =
     (case os_var os var of
        Some v \<Rightarrow> (Inr v, ms)
      | None \<Rightarrow> try_state (runtime_dir os) (\<lambda>dir ms. (Inr (path_join dir (default_name ext)), ms)) ms)"

definition socket_path :: "os \<Rightarrow> modes \<Rightarrow> string res \<times> modes" where
  "socket_path os = env_or_default os ''SEMISWEET_SOCKET'' ''sock''"

definition lock_path :: "os \<Rightarrow> modes \<Rightarrow> string res \<times> modes" where
  "lock_path os = env_or_default os ''SEMISWEET_LOCK'' ''lock''"

definition log_path :: "os \<Rightarrow> modes \<Rightarrow> string res \<times> modes" where
  "log_path os = env_or_default os ''SEMISWEET_LOG'' ''log''"

definition spawn_lock_path :: "os \<Rightarrow> modes \<Rightarrow> string res \<times> modes" where
  "spawn_lock_path os = try_state (lock_path os) (\<lambda>p ms. (Inr (with_extension p ''spawn''), ms))"

definition pid_path :: "os \<Rightarrow> modes \<Rightarrow> string res \<times> modes" where
  "pid_path os = try_state (lock_path os) (\<lambda>p ms. (Inr (with_extension p ''pid''), ms))"

section \<open>Lemmas\<close>

lemma with_extension_default:
  "with_extension (path_join dir ''v1.lock'') ext = path_join dir (''v1'' @ (if ext = [] then [] else CHR ''.'' # ext))"
  by (cases dir rule: rev_cases) (simp_all add: with_extension_def file_name_def file_stem_def path_join_def Let_def)

lemma default_name_eq: "default_name ext = ''v1.'' @ ext"
proof -
  have "show_nat PROTOCOL_MAJOR = ''1''" by code_simp
  then show ?thesis by (simp add: default_name_def)
qed

lemma env_or_default_Inr:
  assumes "env_or_default os var ext ms = (Inr p, ms')" and "os_var os var = None"
  shows "\<exists>dir. runtime_dir os ms = (Inr dir, ms') \<and> p = path_join dir (''v1.'' @ ext)"
  using assms by (auto simp: env_or_default_def try_state_def default_name_eq split: prod.splits sum.splits)

lemma runtime_dir_Inr:
  assumes "runtime_dir os ms = (Inr dir, ms')"
  shows "dir = path_join (base_runtime_dir os) (''semisweet-'' @ show_nat (os_uid os)) \<and> ms' dir = Some DIR_MODE"
  using assms by (auto simp: runtime_dir_def Let_def split: option.splits)

section \<open>Properties\<close>

text \<open>
  Without overrides the daemon's five files lie in one directory that belongs to the user alone, its
  mode is set to 0700 before any path in it is handed out, and the five paths differ, so that the lock
  that serialises spawning is never the lock of the daemon itself.
\<close>
theorem default_paths_private:
  assumes "os_var os ''SEMISWEET_SOCKET'' = None" "os_var os ''SEMISWEET_LOCK'' = None" "os_var os ''SEMISWEET_LOG'' = None"
    and "socket_path os ms0 = (Inr sock, ms1)" "lock_path os ms1 = (Inr lock, ms2)" "log_path os ms2 = (Inr logf, ms3)"
    and "spawn_lock_path os ms3 = (Inr spawn, ms4)" "pid_path os ms4 = (Inr pid, ms5)"
  shows "\<exists>dir. dir = path_join (base_runtime_dir os) (''semisweet-'' @ show_nat (os_uid os))
    \<and> ms1 dir = Some DIR_MODE \<and> ms5 dir = Some DIR_MODE
    \<and> [sock, lock, logf, spawn, pid] = map (path_join dir) [''v1.sock'', ''v1.lock'', ''v1.log'', ''v1.spawn'', ''v1.pid'']
    \<and> distinct [sock, lock, logf, spawn, pid]"
proof -
  define dir where "dir = path_join (base_runtime_dir os) (''semisweet-'' @ show_nat (os_uid os))"
  have rd: "runtime_dir os ms = (Inr d, ms') \<Longrightarrow> d = dir \<and> ms' dir = Some DIR_MODE" for ms d ms'
    using runtime_dir_Inr[of os ms d ms'] unfolding dir_def by blast
  note d = socket_path_def lock_path_def log_path_def
  have sock: "sock = path_join dir ''v1.sock''" "ms1 dir = Some DIR_MODE"
    using env_or_default_Inr[OF assms(4)[unfolded d] assms(1)] rd by fastforce+
  have lock: "lock_path os ms = (Inr p, ms') \<Longrightarrow> p = path_join dir ''v1.lock'' \<and> ms' dir = Some DIR_MODE" for ms p ms'
    using env_or_default_Inr[OF _ assms(2), of "''lock''" ms p ms'] rd[of ms _ ms'] unfolding d by fastforce
  have logf: "logf = path_join dir ''v1.log''"
    using env_or_default_Inr[OF assms(6)[unfolded d] assms(3)] rd by fastforce
  have "\<exists>p. lock_path os ms3 = (Inr p, ms4) \<and> spawn = with_extension p ''spawn''"
    using assms(7) by (auto simp: spawn_lock_path_def try_state_def split: prod.splits sum.splits)
  then have spawn: "spawn = path_join dir ''v1.spawn''" using lock with_extension_default[of dir "''spawn''"] by fastforce
  have "\<exists>p. lock_path os ms4 = (Inr p, ms5) \<and> pid = with_extension p ''pid''"
    using assms(8) by (auto simp: pid_path_def try_state_def split: prod.splits sum.splits)
  then have pid: "pid = path_join dir ''v1.pid''" "ms5 dir = Some DIR_MODE"
    using lock with_extension_default[of dir "''pid''"] by fastforce+
  have inj: "path_join dir (CHR ''v'' # a) = path_join dir (CHR ''v'' # b) \<longleftrightarrow> a = b" for a b
    by (auto simp: path_join_def)
  have l: "lock = path_join dir ''v1.lock''" using lock[OF assms(5)] by simp
  show ?thesis
    unfolding dir_def[symmetric] by (intro exI[of _ dir]) (simp add: sock l logf spawn pid inj)
qed

text \<open>With an override the spawn lock can be the lock of the daemon.\<close>

theorem spawn_lock_collision:
  assumes "os_var os ''SEMISWEET_LOCK'' = Some ''/run/d.spawn''"
  shows "lock_path os ms = (Inr ''/run/d.spawn'', ms) \<and> spawn_lock_path os ms = (Inr ''/run/d.spawn'', ms)"
proof -
  have "with_extension ''/run/d.spawn'' ''spawn'' = ''/run/d.spawn''" by code_simp
  with assms show ?thesis by (simp add: spawn_lock_path_def lock_path_def env_or_default_def try_state_def)
qed

definition example_os :: os where
  "example_os = \<lparr>os_var = (\<lambda>_. None), os_uid = 7, os_linux = True, os_runtime_dir = Some ''/run'',
     os_mkdir = (\<lambda>_. None), os_chmod = (\<lambda>_. None)\<rparr>"

theorem default_paths_private_witness:
  "\<exists>sock ms. socket_path example_os Map.empty = (Inr sock, ms) \<and> sock = path_join ''/run/semisweet-7'' ''v1.sock''
     \<and> ms ''/run/semisweet-7'' = Some DIR_MODE"
proof -
  have "show_nat 7 = ''7''" by code_simp
  then have dir: "path_join (base_runtime_dir example_os) (''semisweet-'' @ show_nat (os_uid example_os)) = ''/run/semisweet-7''"
    by (simp add: base_runtime_dir_def example_os_def path_join_def)
  have ok: "\<exists>p ms'. f = (Inr p, ms')" if "f \<in> {socket_path example_os ms, lock_path example_os ms, log_path example_os ms,
      spawn_lock_path example_os ms, pid_path example_os ms}" for f ms
    using that by (auto simp: socket_path_def log_path_def spawn_lock_path_def pid_path_def lock_path_def
        env_or_default_def try_state_def runtime_dir_def example_os_def Let_def)
  obtain sock ms1 where 1: "socket_path example_os Map.empty = (Inr sock, ms1)" using ok by blast
  obtain lock ms2 where 2: "lock_path example_os ms1 = (Inr lock, ms2)" using ok by blast
  obtain logf ms3 where 3: "log_path example_os ms2 = (Inr logf, ms3)" using ok by blast
  obtain spawn ms4 where 4: "spawn_lock_path example_os ms3 = (Inr spawn, ms4)" using ok by blast
  obtain pid ms5 where 5: "pid_path example_os ms4 = (Inr pid, ms5)" using ok by blast
  have "os_var example_os v = None" for v by (simp add: example_os_def)
  from default_paths_private[OF this this this 1 2 3 4 5] 1 show ?thesis unfolding dir by auto
qed

end
