(* ===== verification/Daemon_Main.thy ===== *)
theory Daemon_Main
  imports Paths
begin

text \<open>
  \<^verbatim>\<open>src/daemon/mod.rs\<close>: the configuration of the daemon process, its entry point, and the life of
  the orphan between taking and dropping the single-instance lock. Several daemon processes may be
  started at any time; the relation \<open>orphan_step\<close> interleaves their calls on the lock, the socket
  and the pid file. A file of these is the number of the process that wrote it.
\<close>

section \<open>Configuration\<close>

definition DEFAULT_IDLE_SECS :: nat where "DEFAULT_IDLE_SECS = 300"

record config =
  cf_socket :: string
  cf_lock :: string
  cf_pid :: string
  cf_idle :: nat
  cf_protocol :: nat
  cf_version :: string

text \<open>\<open>dbg\<close> is the debug rendering of a string; it only reaches the message.\<close>

definition parse_var_u32 :: "(string \<Rightarrow> string) \<Rightarrow> string \<Rightarrow> string \<Rightarrow> nat res" where
  "parse_var_u32 dbg v var = ok_or (Daemon (''invalid '' @ var @ '': '' @ dbg v)) (parse_u32 v)"

definition parse_var_u64 :: "(string \<Rightarrow> string) \<Rightarrow> string \<Rightarrow> string \<Rightarrow> nat res" where
  "parse_var_u64 dbg v var = ok_or (Daemon (''invalid '' @ var @ '': '' @ dbg v)) (parse_u64 v)"

definition from_env :: "(string \<Rightarrow> string) \<Rightarrow> string \<Rightarrow> os \<Rightarrow> modes \<Rightarrow> config res \<times> modes" where
  "from_env dbg version os ms =
     (case (case os_var os ''SEMISWEET_PROTOCOL'' of
              Some v \<Rightarrow> parse_var_u32 dbg v ''SEMISWEET_PROTOCOL''
            | None \<Rightarrow> Inr PROTOCOL_VERSION) of
        Inl e \<Rightarrow> (Inl e, ms)
      | Inr protocol \<Rightarrow>
          if protocol \<noteq> PROTOCOL_VERSION then (Inl (ProtocolVersionMismatch protocol PROTOCOL_VERSION), ms)
          else
            case (case os_var os ''SEMISWEET_IDLE_SECS'' of
                    Some v \<Rightarrow> parse_var_u64 dbg v ''SEMISWEET_IDLE_SECS''
                  | None \<Rightarrow> Inr DEFAULT_IDLE_SECS) of
              Inl e \<Rightarrow> (Inl e, ms)
            | Inr idle \<Rightarrow>
                try_state (socket_path os) (\<lambda>socket.
                try_state (lock_path os) (\<lambda>lock.
                try_state (pid_path os) (\<lambda>pid ms.
                  (Inr \<lparr>cf_socket = socket, cf_lock = lock, cf_pid = pid, cf_idle = idle,
                        cf_protocol = protocol, cf_version = version\<rparr>, ms)))) ms)"

section \<open>The entry point\<close>

datatype fork_result = ForkFailed io_error | Parent | Child

datatype outcome = Exits0 | Fails error | Orphan config

definition daemonize :: "fork_result \<Rightarrow> outcome + unit" where
  "daemonize fork =
     (case fork of ForkFailed e \<Rightarrow> Inl (Fails (Io e)) | Parent \<Rightarrow> Inl Exits0 | Child \<Rightarrow> Inr ())"

definition run_daemon :: "(string \<Rightarrow> string) \<Rightarrow> string \<Rightarrow> fork_result \<Rightarrow> os \<Rightarrow> modes \<Rightarrow> outcome \<times> modes" where
  "run_daemon dbg version fork os ms =
     (case from_env dbg version os ms of
        (Inl e, ms) \<Rightarrow> (Fails e, ms)
      | (Inr config, ms) \<Rightarrow> (case daemonize fork of Inl out \<Rightarrow> out | Inr _ \<Rightarrow> Orphan config, ms))"

section \<open>The orphan\<close>

text \<open>Where a process is in \<open>run_orphan\<close>: before its lock attempt, holding the lock, having removed a
  stale socket, having written its pid, serving, back from the supervisor, having removed the socket,
  having removed the pid file, and gone.\<close>

datatype stage = Launched | Locked | Cleared | PidWritten | InService | Stopping | SocketGone | PidGone | Gone

record orphans =
  procs :: "stage list"
  lock_owner :: "nat option"
  socket_file :: "nat option"
  pid_file :: "nat option"

definition no_orphans :: orphans where
  "no_orphans = \<lparr>procs = [], lock_owner = None, socket_file = None, pid_file = None\<rparr>"

definition proc_at :: "orphans \<Rightarrow> nat \<Rightarrow> stage \<Rightarrow> bool" where
  "proc_at s p x \<longleftrightarrow> p < length (procs s) \<and> procs s ! p = x"

definition goes :: "orphans \<Rightarrow> nat \<Rightarrow> stage \<Rightarrow> orphans" where
  "goes s p x = s\<lparr>procs := (procs s)[p := x]\<rparr>"

text \<open>A process that ends, by returning or by being killed, drops its lock.\<close>

definition ends :: "orphans \<Rightarrow> nat \<Rightarrow> orphans" where
  "ends s p = (goes s p Gone)\<lparr>lock_owner := (if lock_owner s = Some p then None else lock_owner s)\<rparr>"

text \<open>
  All processes share one lock, one socket and one pid file, which are three different files. They are with
  the default paths; the pid path is derived from the lock path by its extension, so that a lock path
  given with the extension \<open>pid\<close> would make it the lock file itself, which is outside the relation.
\<close>

inductive orphan_step :: "orphans \<Rightarrow> orphans \<Rightarrow> bool" where
  launch: "orphan_step s (s\<lparr>procs := procs s @ [Launched]\<rparr>)"
| open_failed: "proc_at s p Launched \<Longrightarrow> orphan_step s (ends s p)"
| try_write_ok: "proc_at s p Launched \<Longrightarrow> lock_owner s = None \<Longrightarrow> orphan_step s ((goes s p Locked)\<lparr>lock_owner := Some p\<rparr>)"
| stand_down: "proc_at s p Launched \<Longrightarrow> lock_owner s = Some q \<Longrightarrow> orphan_step s (ends s p)"
| remove_stale: "proc_at s p Locked \<Longrightarrow> orphan_step s ((goes s p Cleared)\<lparr>socket_file := None\<rparr>)"
| remove_stale_failed: "proc_at s p Locked \<Longrightarrow> orphan_step s (ends s p)"
| write_pid: "proc_at s p Cleared \<Longrightarrow> orphan_step s ((goes s p PidWritten)\<lparr>pid_file := Some p\<rparr>)"
| write_pid_failed: "proc_at s p Cleared \<Longrightarrow> orphan_step s (ends s p)"
| runtime_failed: "proc_at s p PidWritten \<Longrightarrow> orphan_step s (ends s p)"
| bind: "proc_at s p PidWritten \<Longrightarrow> socket_file s = None \<Longrightarrow> orphan_step s ((goes s p InService)\<lparr>socket_file := Some p\<rparr>)"
| bind_failed: "proc_at s p PidWritten \<Longrightarrow> orphan_step s (goes s p Stopping)"
| supervisor_returns: "proc_at s p InService \<Longrightarrow> orphan_step s (goes s p Stopping)"
| remove_socket: "proc_at s p Stopping \<Longrightarrow> orphan_step s ((goes s p SocketGone)\<lparr>socket_file := None\<rparr>)"
| remove_socket_failed: "proc_at s p Stopping \<Longrightarrow> orphan_step s (goes s p SocketGone)"
| remove_pid: "proc_at s p SocketGone \<Longrightarrow> orphan_step s ((goes s p PidGone)\<lparr>pid_file := None\<rparr>)"
| remove_pid_failed: "proc_at s p SocketGone \<Longrightarrow> orphan_step s (goes s p PidGone)"
| return: "proc_at s p PidGone \<Longrightarrow> orphan_step s (ends s p)"
| killed: "p < length (procs s) \<Longrightarrow> orphan_step s (ends s p)"

abbreviation orphan_steps :: "orphans \<Rightarrow> orphans \<Rightarrow> bool" where
  "orphan_steps \<equiv> orphan_step\<^sup>*\<^sup>*"

section \<open>Invariant\<close>

fun holds_lock :: "stage \<Rightarrow> bool" where
  "holds_lock Launched = False"
| "holds_lock Gone = False"
| "holds_lock _ = True"

definition stage_ok :: "orphans \<Rightarrow> nat \<Rightarrow> stage \<Rightarrow> bool" where
  "stage_ok s p x \<longleftrightarrow> (holds_lock x \<longrightarrow> lock_owner s = Some p)
     \<and> (x \<in> {Cleared, PidWritten} \<longrightarrow> socket_file s = None) \<and> (x = InService \<longrightarrow> socket_file s = Some p)
     \<and> (x \<in> {PidWritten, InService} \<longrightarrow> pid_file s = Some p)"

definition exclusive :: "orphans \<Rightarrow> bool" where
  "exclusive s \<longleftrightarrow> (\<forall>p < length (procs s). stage_ok s p (procs s ! p))"

lemma stage_ok_free: "\<not> holds_lock x \<Longrightarrow> stage_ok s p x"
  by (cases x) (auto simp: stage_ok_def)

text \<open>The process that holds the lock, or takes it while it is free, may change the files: no other
  process relies on them.\<close>

lemma exclusive_owner:
  assumes "exclusive s" and "procs s' = (procs s)[p := x]" and "stage_ok s' p x"
    and "lock_owner s = None \<or> lock_owner s = Some p"
  shows "exclusive s'"
proof -
  have "stage_ok s' q (procs s ! q)" if "q < length (procs s)" "q \<noteq> p" for q
  proof (rule stage_ok_free, rule notI)
    assume "holds_lock (procs s ! q)"
    with assms(1) that(1) have "lock_owner s = Some q" by (auto simp: exclusive_def stage_ok_def)
    with assms(4) that(2) show False by auto
  qed
  with assms(2,3) show ?thesis
    unfolding exclusive_def by (metis length_list_update nth_list_update_eq nth_list_update_neq)
qed

lemma exclusive_other:
  assumes "exclusive s" and "lock_owner s \<noteq> Some p"
  shows "exclusive (ends s p)"
proof -
  have "stage_ok (ends s p) q x \<longleftrightarrow> stage_ok s q x" for q x using assms(2) by (simp add: stage_ok_def ends_def goes_def)
  moreover have "procs (ends s p) = (procs s)[p := Gone]" by (simp add: ends_def goes_def)
  ultimately show ?thesis
    using assms(1) stage_ok_free[of Gone s p]
    unfolding exclusive_def by (metis holds_lock.simps(2) length_list_update nth_list_update_eq nth_list_update_neq)
qed

lemma exclusive_ends: "exclusive s \<Longrightarrow> exclusive (ends s p)"
proof (cases "lock_owner s = Some p")
  case True
  assume "exclusive s"
  then show ?thesis
    by (rule exclusive_owner[where p = p and x = Gone]) (use True in \<open>simp_all add: ends_def goes_def stage_ok_free\<close>)
qed (rule exclusive_other)

lemma proc_at_ok: "exclusive s \<Longrightarrow> proc_at s p x \<Longrightarrow> stage_ok s p x"
  by (auto simp: exclusive_def proc_at_def)

lemma orphan_step_exclusive:
  assumes "orphan_step s s'" and ex: "exclusive s"
  shows "exclusive s'"
  using assms(1)
proof cases
  case launch
  with ex show ?thesis by (auto simp: exclusive_def nth_append less_Suc_eq stage_ok_free) (auto simp: stage_ok_def)
next
  case (try_write_ok p)
  with ex show ?thesis
    by (intro exclusive_owner[OF ex, where p = p and x = Locked]) (auto simp: goes_def stage_ok_def)
qed (use ex exclusive_ends in \<open>auto intro!: exclusive_owner[OF ex] dest!: proc_at_ok[OF ex] simp: goes_def stage_ok_def\<close>)

lemma orphan_steps_exclusive: "orphan_steps s s' \<Longrightarrow> exclusive s \<Longrightarrow> exclusive s'"
  by (induction rule: rtranclp_induct) (auto intro: orphan_step_exclusive)

section \<open>Properties\<close>

text \<open>
  C23. There is one daemon: however many daemon processes are started, stopped or killed, at most one of
  them is past the single-instance lock at any time, and while one serves, the socket is the one it
  bound and the pid file names it. (For daemons that share one lock path whose extension is not that of
  the pid file.)
\<close>
theorem single_instance:
  assumes "orphan_steps no_orphans s"
    and "p < length (procs s)" "q < length (procs s)" "holds_lock (procs s ! p)" "holds_lock (procs s ! q)"
  shows "p = q \<and> (procs s ! p = InService \<longrightarrow> socket_file s = Some p \<and> pid_file s = Some p)"
proof -
  have "exclusive s" by (rule orphan_steps_exclusive[OF assms(1)]) (simp add: exclusive_def no_orphans_def)
  with assms(2-5) have "stage_ok s p (procs s ! p)" "stage_ok s q (procs s ! q)" by (simp_all add: exclusive_def)
  with assms(4,5) show ?thesis by (auto simp: stage_ok_def)
qed

definition example_orphan :: "stage \<Rightarrow> nat option \<Rightarrow> nat option \<Rightarrow> nat option \<Rightarrow> orphans" where
  "example_orphan x own sock pid = \<lparr>procs = [x], lock_owner = own, socket_file = sock, pid_file = pid\<rparr>"

lemma example_orphan_serves: "orphan_steps no_orphans (example_orphan InService (Some 0) (Some 0) (Some 0))"
proof -
  let ?s = example_orphan
  note d = example_orphan_def no_orphans_def goes_def proc_at_def
  have "orphan_step no_orphans (?s Launched None None None)"
    using launch[of no_orphans] by (simp add: d)
  then have "orphan_steps no_orphans (?s Launched None None None)" ..
  also have "orphan_step (?s Launched None None None) (?s Locked (Some 0) None None)"
    using try_write_ok[of "?s Launched None None None" 0] by (simp add: d)
  also have "orphan_step (?s Locked (Some 0) None None) (?s Cleared (Some 0) None None)"
    using remove_stale[of "?s Locked (Some 0) None None" 0] by (simp add: d)
  also have "orphan_step (?s Cleared (Some 0) None None) (?s PidWritten (Some 0) None (Some 0))"
    using write_pid[of "?s Cleared (Some 0) None None" 0] by (simp add: d)
  also have "orphan_step (?s PidWritten (Some 0) None (Some 0)) (?s InService (Some 0) (Some 0) (Some 0))"
    using bind[of "?s PidWritten (Some 0) None (Some 0)" 0] by (simp add: d)
  finally show ?thesis .
qed

theorem single_instance_witness:
  "socket_file (example_orphan InService (Some 0) (Some 0) (Some 0)) = Some 0
   \<and> procs (example_orphan InService (Some 0) (Some 0) (Some 0)) = [InService]"
  using single_instance[OF example_orphan_serves, of 0 0] by (simp add: example_orphan_def)

end
