(* ===== verification/Client_Spawn.thy ===== *)
theory Client_Spawn
  imports Daemon_Main
begin

text \<open>
  \<^verbatim>\<open>src/client/spawn.rs\<close>: launching the daemon. The command is a record; running it and the
  calls on the log file are parameters. A child process inherits the environment of its parent, with
  the variables set on the command replacing inherited ones.
\<close>

section \<open>The command\<close>

datatype launcher = PythonLauncher string | ExeLauncher string

definition DAEMON_BOOTSTRAP :: string where
  "DAEMON_BOOTSTRAP = ''from semisweet.core import _run_daemon; _run_daemon()''"

definition PASSTHROUGH_ENV :: "string list" where
  "PASSTHROUGH_ENV = [''VOYAGE_API_KEY'', ''TURBOPUFFER_API_KEY'', ''AWS_ACCESS_KEY_ID'', ''AWS_SECRET_ACCESS_KEY'',
     ''S3_ENDPOINT'', ''HF_HOME'']"

record command =
  cmd_program :: string
  cmd_args :: "string list"
  cmd_env :: "string \<rightharpoonup> string"
  cmd_dir :: string

text \<open>What the launcher asks of the system: the user's cache directory, opening and duplicating the log,
  and running a command to its end, with its success and the text of its status.\<close>

record spawn_sys =
  sp_cache_dir :: "string option"
  sp_open_log :: "string \<Rightarrow> io_error option"
  sp_clone_log :: "string \<Rightarrow> io_error option"
  sp_run :: "command \<Rightarrow> io_error + bool \<times> string"

definition default_model_cache :: "spawn_sys \<Rightarrow> string option" where
  "default_model_cache sp = map_option (\<lambda>base. path_join (path_join base ''semisweet'') ''models'') (sp_cache_dir sp)"

fun launcher_command :: "launcher \<Rightarrow> command" where
  "launcher_command (PythonLauncher executable) =
     \<lparr>cmd_program = executable, cmd_args = [''-c'', DAEMON_BOOTSTRAP], cmd_env = Map.empty, cmd_dir = ''.''\<rparr>"
| "launcher_command (ExeLauncher path) =
     \<lparr>cmd_program = path, cmd_args = [], cmd_env = Map.empty, cmd_dir = ''.''\<rparr>"

definition pass_var :: "os \<Rightarrow> string \<Rightarrow> (string \<rightharpoonup> string) \<Rightarrow> string \<rightharpoonup> string" where
  "pass_var os var env = (case os_var os var of Some v \<Rightarrow> env(var \<mapsto> v) | None \<Rightarrow> env)"

definition command_env :: "os \<Rightarrow> spawn_sys \<Rightarrow> string \<Rightarrow> string \<Rightarrow> string \<Rightarrow> string \<rightharpoonup> string" where
  "command_env os sp socket lock logf =
     (let env = [''SEMISWEET_SOCKET'' \<mapsto> socket, ''SEMISWEET_LOCK'' \<mapsto> lock, ''SEMISWEET_LOG'' \<mapsto> logf,
                 ''SEMISWEET_PROTOCOL'' \<mapsto> show_nat PROTOCOL_VERSION];
          env = fold (pass_var os) PASSTHROUGH_ENV env;
          env = (case os_var os ''SEMISWEET_MODEL_CACHE'' of
                   Some v \<Rightarrow> env(''SEMISWEET_MODEL_CACHE'' \<mapsto> v)
                 | None \<Rightarrow> (case default_model_cache sp of
                     Some cache \<Rightarrow> env(''SEMISWEET_MODEL_CACHE'' \<mapsto> cache) | None \<Rightarrow> env))
      in pass_var os ''SEMISWEET_IDLE_SECS'' env)"

definition spawn_daemon :: "os \<Rightarrow> spawn_sys \<Rightarrow> launcher \<Rightarrow> modes \<Rightarrow> unit res \<times> modes" where
  "spawn_daemon os sp launcher =
     try_state (socket_path os) (\<lambda>socket.
     try_state (lock_path os) (\<lambda>lock.
     try_state (log_path os) (\<lambda>logf ms.
       case sp_open_log sp logf of
         Some e \<Rightarrow> (Inl (Io e), ms)
       | None \<Rightarrow>
           case sp_clone_log sp logf of
             Some e \<Rightarrow> (Inl (Io e), ms)
           | None \<Rightarrow>
               case sp_run sp ((launcher_command launcher)
                      \<lparr>cmd_env := command_env os sp socket lock logf, cmd_dir := ''/''\<rparr>) of
                 Inl e \<Rightarrow> (Inl (Io e), ms)
               | Inr (success, status) \<Rightarrow>
                   if success then (Inr (), ms)
                   else (Inl (Daemon (''daemon launcher exited with '' @ status @ ''; see log at '' @ logf)), ms))))"

section \<open>The child's view\<close>

text \<open>
  What the child reads of its environment. Paths are strings here: the child runs in the directory \<open>/\<close>
  (\<open>cmd_dir\<close>), so that an override that is a relative path, though the same string, names another file in the
  child than in the client.
\<close>

definition child_os :: "os \<Rightarrow> command \<Rightarrow> os" where
  "child_os os cmd = os\<lparr>os_var := os_var os ++ cmd_env cmd\<rparr>"

lemma pass_var_other: "x \<noteq> var \<Longrightarrow> pass_var os var env x = env x"
  by (simp add: pass_var_def split: option.split)

lemma fold_pass_var_other: "x \<notin> set vars \<Longrightarrow> fold (pass_var os) vars env x = env x"
  by (induction vars arbitrary: env) (simp_all add: pass_var_other)

lemma not_passed:
  "''SEMISWEET_SOCKET'' \<notin> set PASSTHROUGH_ENV" "''SEMISWEET_LOCK'' \<notin> set PASSTHROUGH_ENV"
  "''SEMISWEET_LOG'' \<notin> set PASSTHROUGH_ENV" "''SEMISWEET_PROTOCOL'' \<notin> set PASSTHROUGH_ENV"
  "''SEMISWEET_IDLE_SECS'' \<notin> set PASSTHROUGH_ENV"
  by code_simp+

lemma command_env_paths:
  "command_env os sp socket lock logf ''SEMISWEET_SOCKET'' = Some socket"
  "command_env os sp socket lock logf ''SEMISWEET_LOCK'' = Some lock"
  "command_env os sp socket lock logf ''SEMISWEET_LOG'' = Some logf"
  "command_env os sp socket lock logf ''SEMISWEET_PROTOCOL'' = Some (show_nat PROTOCOL_VERSION)"
  unfolding command_env_def Let_def
  by (simp_all add: pass_var_other fold_pass_var_other not_passed del: show_nat.simps split: option.split)

lemma command_env_idle:
  "(os_var os ++ command_env os sp socket lock logf) ''SEMISWEET_IDLE_SECS'' = os_var os ''SEMISWEET_IDLE_SECS''"
proof (cases "os_var os ''SEMISWEET_IDLE_SECS''")
  case None
  have "pass_var os ''SEMISWEET_IDLE_SECS'' env = env" for env by (simp add: pass_var_def None)
  then show ?thesis
    unfolding command_env_def Let_def map_add_def
    by (simp add: fold_pass_var_other not_passed None del: show_nat.simps split: option.split)
next
  case (Some v)
  have "pass_var os ''SEMISWEET_IDLE_SECS'' env ''SEMISWEET_IDLE_SECS'' = Some v" for env
    by (simp add: pass_var_def Some)
  then show ?thesis unfolding command_env_def Let_def map_add_def by (simp add: Some)
qed

lemma lock_path_stable: "lock_path os ms = (Inr a, ms1) \<Longrightarrow> lock_path os ms' = (Inr b, ms2) \<Longrightarrow> a = b"
  by (cases "os_var os ''SEMISWEET_LOCK''")
    (auto simp: lock_path_def env_or_default_def try_state_def split: prod.splits sum.splits dest!: runtime_dir_Inr)

lemma pid_path_of_lock:
  assumes "lock_path os ms = (Inr lock, ms1)" "pid_path os ms' = (Inr pid, ms2)"
  shows "pid = with_extension lock ''pid''"
proof -
  from assms(2) obtain lock' where "lock_path os ms' = (Inr lock', ms2)" "pid = with_extension lock' ''pid''"
    by (auto simp: pid_path_def try_state_def split: prod.splits sum.splits)
  with lock_path_stable[OF assms(1)] show ?thesis by blast
qed

section \<open>Properties\<close>

text \<open>
  C24. A spawned daemon serves where its client looks: in the environment the launcher is given, the
  daemon's configuration has the socket, lock and pid paths the client computed, the client's
  protocol version and its idle period, whether they came from overrides or from defaults. The paths agree as
  strings, and hence as files if they are absolute, which the default ones are.
\<close>
theorem spawned_daemon_agrees:
  assumes "socket_path os ms = (Inr socket, ms1)" "lock_path os ms1 = (Inr lock, ms2)" "pid_path os ms2 = (Inr pid, ms3)"
    and "child = child_os os ((launcher_command launcher)\<lparr>cmd_env := command_env os sp socket lock logf, cmd_dir := ''/''\<rparr>)"
    and "case os_var os ''SEMISWEET_IDLE_SECS'' of None \<Rightarrow> idle = DEFAULT_IDLE_SECS | Some v \<Rightarrow> parse_u64 v = Some idle"
  shows "from_env dbg version child ms3 =
    (Inr \<lparr>cf_socket = socket, cf_lock = lock, cf_pid = pid, cf_idle = idle, cf_protocol = PROTOCOL_VERSION,
          cf_version = version\<rparr>, ms3)"
proof -
  have var: "os_var child ''SEMISWEET_SOCKET'' = Some socket" "os_var child ''SEMISWEET_LOCK'' = Some lock"
    "os_var child ''SEMISWEET_PROTOCOL'' = Some (show_nat PROTOCOL_VERSION)"
    "os_var child ''SEMISWEET_IDLE_SECS'' = os_var os ''SEMISWEET_IDLE_SECS''"
    using command_env_paths[of os sp socket lock logf] command_env_idle[of os sp socket lock logf]
    by (simp_all add: assms(4) child_os_def map_add_def del: show_nat.simps)
  have lock: "lock_path child ms = (Inr lock, ms)" "socket_path child ms = (Inr socket, ms)" for ms
    by (simp_all add: lock_path_def socket_path_def env_or_default_def var)
  then have pid: "pid_path child ms = (Inr pid, ms)" for ms
    using pid_path_of_lock[OF assms(2,3)] by (simp add: pid_path_def try_state_def)
  have "parse_u32 (show_nat PROTOCOL_VERSION) = Some PROTOCOL_VERSION"
    by (simp add: parse_u32_def read_unsigned_show_nat PROTOCOL_VERSION_def del: show_nat.simps)
  moreover have "(case os_var os ''SEMISWEET_IDLE_SECS'' of
      Some v \<Rightarrow> parse_var_u64 dbg v ''SEMISWEET_IDLE_SECS'' | None \<Rightarrow> Inr DEFAULT_IDLE_SECS) = Inr idle"
    using assms(5) by (simp add: parse_var_u64_def split: option.splits)
  ultimately show ?thesis
    unfolding from_env_def var parse_var_u32_def by (simp add: lock pid try_state_def del: show_nat.simps)
qed

definition example_spawn :: spawn_sys where
  "example_spawn = \<lparr>sp_cache_dir = Some ''/home/u/.cache'', sp_open_log = (\<lambda>_. None), sp_clone_log = (\<lambda>_. None),
     sp_run = (\<lambda>_. Inr (True, ''exit status: 0''))\<rparr>"

theorem spawned_daemon_agrees_witness:
  "\<exists>socket lock pid ms child. from_env id ''0.1'' child ms =
    (Inr \<lparr>cf_socket = socket, cf_lock = lock, cf_pid = pid, cf_idle = 300, cf_protocol = 1, cf_version = ''0.1''\<rparr>, ms)
    \<and> fst (socket_path example_os Map.empty) = Inr socket \<and> os_var child ''SEMISWEET_SOCKET'' = Some socket"
proof -
  have ok: "\<exists>p ms'. f = (Inr p, ms')"
    if "f \<in> {socket_path example_os ms, lock_path example_os ms, pid_path example_os ms}" for f ms
    using that by (auto simp: socket_path_def pid_path_def lock_path_def env_or_default_def try_state_def
        runtime_dir_def example_os_def Let_def)
  obtain socket ms1 where 1: "socket_path example_os Map.empty = (Inr socket, ms1)" using ok by blast
  obtain lock ms2 where 2: "lock_path example_os ms1 = (Inr lock, ms2)" using ok by blast
  obtain pid ms3 where 3: "pid_path example_os ms2 = (Inr pid, ms3)" using ok by blast
  let ?child = "child_os example_os ((launcher_command (ExeLauncher ''d''))
    \<lparr>cmd_env := command_env example_os example_spawn socket lock ''log'', cmd_dir := ''/''\<rparr>)"
  have "from_env id ''0.1'' ?child ms3 = (Inr \<lparr>cf_socket = socket, cf_lock = lock, cf_pid = pid, cf_idle = 300,
      cf_protocol = PROTOCOL_VERSION, cf_version = ''0.1''\<rparr>, ms3)"
    by (rule spawned_daemon_agrees[OF 1 2 3 refl]) (simp add: example_os_def DEFAULT_IDLE_SECS_def)
  moreover have "os_var ?child ''SEMISWEET_SOCKET'' = Some socket"
    using command_env_paths(1)[of example_os example_spawn socket lock "''log''"] by (simp add: child_os_def map_add_def)
  ultimately show ?thesis using 1 unfolding PROTOCOL_VERSION_def by (metis fst_conv)
qed

end
