(* ===== verification/Client_Stub.thy ===== *)
theory Client_Stub
  imports Client_Spawn Conn
begin

text \<open>
  \<^verbatim>\<open>src/client/stub.rs\<close>: connecting to the daemon, spawning it when there is none, and sending
  requests with one transparent reconnect. The outside of the client is the record \<open>net\<close>: what a
  connection attempt meets at a given time, how much longer than asked a sleep takes, the spawn
  lock, and the frame codec. Times are in milliseconds. The polling loop is a partial function: that it
  returns is a theorem.
\<close>

section \<open>Connecting\<close>

definition SPAWN_TIMEOUT :: nat where "SPAWN_TIMEOUT = 30000"
definition POLL_INTERVAL :: nat where "POLL_INTERVAL = 25"
definition POLL_INTERVAL_CAP :: nat where "POLL_INTERVAL_CAP = 250"

definition dead_socket :: "io_error \<Rightarrow> bool" where
  "dead_socket e \<longleftrightarrow> io_error_kind e \<in> {NotFound, ConnectionRefused}"

fun is_transient_drop :: "error \<Rightarrow> bool" where
  "is_transient_drop (Io _) = True"
| "is_transient_drop (Codec _) = True"
| "is_transient_drop _ = False"

definition try_connect :: "io_error + 'c \<Rightarrow> 'c option res" where
  "try_connect attempt =
     (case attempt of
        Inr stream \<Rightarrow> Inr (Some stream)
      | Inl e \<Rightarrow> if dead_socket e then Inr None else Inl (Io e))"

text \<open>A connected stream: what was written to it and the bytes that will be read from it.\<close>

record stream =
  st_out :: sink
  st_in :: bytes

record net =
  dial :: "nat \<Rightarrow> io_error + stream"
  oversleep :: "nat \<Rightarrow> nat"
  open_lock :: "string \<Rightarrow> io_error option"
  lock_acquired :: "nat \<Rightarrow> io_error + nat"
  spawned_at :: "nat \<Rightarrow> nat"
  nonblocking :: "stream \<Rightarrow> io_error option"
  accepts :: "stream \<Rightarrow> nat option"
  split_frames :: "bytes \<Rightarrow> (io_error + bytes) list"
  join_error :: "nat \<Rightarrow> string option"

text \<open>The loop of \<open>connect_with_spawn\<close>, with the number of attempts made.\<close>

partial_function (option) poll_connect ::
  "net \<Rightarrow> nat \<Rightarrow> nat \<Rightarrow> nat \<Rightarrow> nat \<Rightarrow> (stream res \<times> nat \<times> nat) option" where
  "poll_connect n deadline attempts now backoff =
     (case try_connect (dial n now) of
        Inl e \<Rightarrow> Some (Inl e, now, attempts + 1)
      | Inr (Some stream) \<Rightarrow> Some (Inr stream, now, attempts + 1)
      | Inr None \<Rightarrow>
          if deadline \<le> now then Some (Inl DaemonShutdown, now, attempts + 1)
          else poll_connect n deadline (attempts + 1) (now + backoff + oversleep n now)
                 (min (backoff * 2) POLL_INTERVAL_CAP))"

type_synonym clock = "modes \<times> nat"

definition connect_with_spawn ::
  "net \<Rightarrow> os \<Rightarrow> spawn_sys \<Rightarrow> launcher \<Rightarrow> clock \<Rightarrow> (stream res \<times> clock) option" where
  "connect_with_spawn n os sp launcher c =
     (let (ms, now) = c in
      case socket_path os ms of
        (Inl e, ms) \<Rightarrow> Some (Inl e, (ms, now))
      | (Inr _, ms) \<Rightarrow>
          case try_connect (dial n now) of
            Inl e \<Rightarrow> Some (Inl e, (ms, now))
          | Inr (Some stream) \<Rightarrow> Some (Inr stream, (ms, now))
          | Inr None \<Rightarrow>
              case spawn_lock_path os ms of
                (Inl e, ms) \<Rightarrow> Some (Inl e, (ms, now))
              | (Inr lock, ms) \<Rightarrow>
                  case open_lock n lock of
                    Some e \<Rightarrow> Some (Inl (Io e), (ms, now))
                  | None \<Rightarrow>
                      case lock_acquired n now of
                        Inl e \<Rightarrow> Some (Inl (Io e), (ms, now))
                      | Inr now \<Rightarrow>
                          case try_connect (dial n now) of
                            Inl e \<Rightarrow> Some (Inl e, (ms, now))
                          | Inr (Some stream) \<Rightarrow> Some (Inr stream, (ms, now))
                          | Inr None \<Rightarrow>
                              case spawn_daemon os sp launcher ms of
                                (Inl e, ms) \<Rightarrow> Some (Inl e, (ms, spawned_at n now))
                              | (Inr _, ms) \<Rightarrow>
                                  map_option (\<lambda>(r, now, _). (r, (ms, now)))
                                    (poll_connect n (spawned_at n now + SPAWN_TIMEOUT) 0 (spawned_at n now) POLL_INTERVAL))"

section \<open>Handshake\<close>

text \<open>\<open>dbg\<close> renders a response for an error message.\<close>

definition hello ::
  "request codec \<Rightarrow> response codec \<Rightarrow> (response \<Rightarrow> string) \<Rightarrow> client_id \<Rightarrow> nat \<Rightarrow> stream \<Rightarrow> unit res \<times> stream" where
  "hello rc pc dbg client pid s =
     (case write_frame rc (Hello client PROTOCOL_VERSION pid) (st_out s) of
        (Inl e, out) \<Rightarrow> (Inl e, s\<lparr>st_out := out\<rparr>)
      | (Inr _, out) \<Rightarrow>
          case read_frame pc (st_in s) of
            (r, rest) \<Rightarrow>
              (case r of
                 Inl e \<Rightarrow> Inl e
               | Inr (Welcome v protocol) \<Rightarrow>
                   if protocol = PROTOCOL_VERSION then Inr ()
                   else Inl (Daemon (''unexpected handshake response: '' @ dbg (Welcome v protocol)))
               | Inr (ErrorResponse (VersionMismatch c d)) \<Rightarrow> Inl (ProtocolVersionMismatch c d)
               | Inr other \<Rightarrow> Inl (Daemon (''unexpected handshake response: '' @ dbg other)),
               s\<lparr>st_out := out, st_in := rest\<rparr>))"

definition connect_and_handshake ::
  "net \<Rightarrow> os \<Rightarrow> spawn_sys \<Rightarrow> request codec \<Rightarrow> response codec \<Rightarrow> (response \<Rightarrow> string) \<Rightarrow> nat \<Rightarrow> launcher \<Rightarrow> client_id
   \<Rightarrow> clock \<Rightarrow> (stream res \<times> clock) option" where
  "connect_and_handshake n os sp rc pc dbg pid launcher client c =
     Option.bind (connect_with_spawn n os sp launcher c) (\<lambda>(r, c).
       case r of
         Inl e \<Rightarrow> Some (Inl e, c)
       | Inr stream \<Rightarrow>
           case hello rc pc dbg client pid stream of
             (Inr _, stream) \<Rightarrow> Some (Inr stream, c)
           | (Inl e, _) \<Rightarrow>
               if is_transient_drop e then
                 map_option (\<lambda>(r, c).
                   (case r of
                      Inl e \<Rightarrow> Inl e
                    | Inr retry \<Rightarrow> (case hello rc pc dbg client pid retry of (Inl e, _) \<Rightarrow> Inl e | (Inr _, retry) \<Rightarrow> Inr retry), c))
                   (connect_with_spawn n os sp launcher c)
               else Some (Inl e, c))"

definition into_framed :: "net \<Rightarrow> stream \<Rightarrow> conn res" where
  "into_framed n s =
     (case nonblocking n s of
        Some e \<Rightarrow> Inl (Io e)
      | None \<Rightarrow> Inr \<lparr>inbox = split_frames n (st_in s), outbox = [], sends_left = accepts n s\<rparr>)"

definition spawn_connect ::
  "net \<Rightarrow> os \<Rightarrow> spawn_sys \<Rightarrow> request codec \<Rightarrow> response codec \<Rightarrow> (response \<Rightarrow> string) \<Rightarrow> nat \<Rightarrow> launcher \<Rightarrow> client_id
   \<Rightarrow> clock \<Rightarrow> (conn res \<times> clock) option" where
  "spawn_connect n os sp rc pc dbg pid launcher client c =
     (case join_error n (snd c) of
        Some e \<Rightarrow> Some (Inl (Daemon (''connect task failed: '' @ e)), c)
      | None \<Rightarrow>
          map_option (\<lambda>(r, c). (try_bind r (into_framed n), c))
            (connect_and_handshake n os sp rc pc dbg pid launcher client c))"

section \<open>The stub\<close>

record stub =
  stub_framed :: conn
  stub_client :: client_id
  stub_launcher :: launcher

definition connect_or_spawn ::
  "net \<Rightarrow> os \<Rightarrow> spawn_sys \<Rightarrow> request codec \<Rightarrow> response codec \<Rightarrow> (response \<Rightarrow> string) \<Rightarrow> nat \<Rightarrow> bytes \<Rightarrow> launcher
   \<Rightarrow> clock \<Rightarrow> (stub res \<times> clock) option" where
  "connect_or_spawn n os sp rc pc dbg pid new_v4 launcher c =
     (let client = client_id_generate new_v4 in
      map_option (\<lambda>(r, c).
          (try_bind r (\<lambda>fr. Inr \<lparr>stub_framed = fr, stub_client = client, stub_launcher = launcher\<rparr>), c))
        (spawn_connect n os sp rc pc dbg pid launcher client c))"

definition send_frame :: "request codec \<Rightarrow> request \<Rightarrow> stub \<Rightarrow> unit res \<times> stub" where
  "send_frame rc request s =
     (case conn_send rc request (stub_framed s) of (r, fr) \<Rightarrow> (r, s\<lparr>stub_framed := fr\<rparr>))"

definition recv_frame :: "response codec \<Rightarrow> stub \<Rightarrow> response res \<times> stub" where
  "recv_frame pc s =
     (case inbox (stub_framed s) of
        [] \<Rightarrow> (Inl (Io (IoError UnexpectedEof ''unexpected end of file'')), s)
      | frame # rest \<Rightarrow>
          ((case frame of Inl e \<Rightarrow> Inl (Io e) | Inr b \<Rightarrow> decode pc b),
           s\<lparr>stub_framed := (stub_framed s)\<lparr>inbox := rest\<rparr>\<rparr>))"

definition stub_round_trip :: "request codec \<Rightarrow> response codec \<Rightarrow> request \<Rightarrow> stub \<Rightarrow> response res \<times> stub" where
  "stub_round_trip rc pc request = try_state (send_frame rc request) (\<lambda>_. recv_frame pc)"

text \<open>\<open>connect\<close> is \<open>spawn_connect\<close> applied to everything but the clock.\<close>

definition reconnect ::
  "(launcher \<Rightarrow> client_id \<Rightarrow> clock \<Rightarrow> (conn res \<times> clock) option) \<Rightarrow> stub \<Rightarrow> clock \<Rightarrow> (unit res \<times> stub \<times> clock) option" where
  "reconnect connect s c =
     map_option (\<lambda>(r, c).
         (case r of Inl e \<Rightarrow> (Inl e, s, c) | Inr fr \<Rightarrow> (Inr (), s\<lparr>stub_framed := fr\<rparr>, c)))
       (connect (stub_launcher s) (stub_client s) c)"

definition stub_request ::
  "request codec \<Rightarrow> response codec \<Rightarrow> (launcher \<Rightarrow> client_id \<Rightarrow> clock \<Rightarrow> (conn res \<times> clock) option)
   \<Rightarrow> request \<Rightarrow> stub \<Rightarrow> clock \<Rightarrow> (response res \<times> stub \<times> clock) option" where
  "stub_request rc pc connect request s c =
     (case stub_round_trip rc pc request s of
        (Inr response, s) \<Rightarrow> Some (Inr response, s, c)
      | (Inl e, s) \<Rightarrow>
          if is_transient_drop e then
            map_option (\<lambda>(r, s, c).
                (case r of
                   Inl e \<Rightarrow> (Inl e, s, c)
                 | Inr _ \<Rightarrow> (case stub_round_trip rc pc request s of (r, s) \<Rightarrow> (r, s, c))))
              (reconnect connect s c)
          else Some (Inl e, s, c))"

definition stub_ping ::
  "request codec \<Rightarrow> response codec \<Rightarrow> (response \<Rightarrow> string) \<Rightarrow> (launcher \<Rightarrow> client_id \<Rightarrow> clock \<Rightarrow> (conn res \<times> clock) option)
   \<Rightarrow> stub \<Rightarrow> clock \<Rightarrow> (unit res \<times> stub \<times> clock) option" where
  "stub_ping rc pc dbg connect s c =
     map_option (\<lambda>(r, s, c).
         (try_bind r (\<lambda>response. if response = Pong then Inr () else Inl (Daemon (''expected Pong, got '' @ dbg response))), s, c))
       (stub_request rc pc connect Ping s c)"

definition stub_bye :: "request codec \<Rightarrow> response codec \<Rightarrow> (response \<Rightarrow> string) \<Rightarrow> stub \<Rightarrow> unit res \<times> stub" where
  "stub_bye rc pc dbg =
     try_state (send_frame rc Bye) (\<lambda>_.
     try_state (recv_frame pc) (\<lambda>response s.
       (if response = Goodbye then Inr () else Inl (Daemon (''expected Goodbye, got '' @ dbg response)), s)))"

section \<open>The polling loop returns\<close>

definition polled :: "nat \<Rightarrow> nat \<Rightarrow> nat \<Rightarrow> (stream res \<times> nat \<times> nat) option \<Rightarrow> bool" where
  "polled deadline now most p \<longleftrightarrow>
     (\<exists>r t k. p = Some (r, t, k) \<and> k \<le> most \<and> now \<le> t \<and> (r = Inl DaemonShutdown \<longrightarrow> deadline \<le> t))"

lemma polled_later: "polled deadline now' most p \<Longrightarrow> now \<le> now' \<Longrightarrow> most \<le> most' \<Longrightarrow> polled deadline now most' p"
  by (fastforce simp: polled_def)

text \<open>One attempt: it ends the loop, or the deadline is not over and the loop goes on.\<close>

lemma poll_connect_step:
  assumes "now < deadline \<Longrightarrow> polled deadline (now + backoff + oversleep n now) most
      (poll_connect n deadline (attempts + 1) (now + backoff + oversleep n now) (min (backoff * 2) POLL_INTERVAL_CAP))"
    and "attempts + 1 \<le> most"
  shows "polled deadline now most (poll_connect n deadline attempts now backoff)"
proof (cases "try_connect (dial n now)")
  case (Inl e)
  then have "e \<noteq> DaemonShutdown" by (auto simp: try_connect_def split: sum.splits if_splits)
  with Inl assms(2) show ?thesis by (subst poll_connect.simps) (simp add: polled_def)
next
  case (Inr found)
  show ?thesis
  proof (cases found)
    case None
    with Inr show ?thesis
      using assms polled_later[of deadline "now + backoff + oversleep n now" most _ now most]
      by (subst poll_connect.simps) (auto simp: polled_def)
  next
    case (Some stream)
    with Inr assms(2) show ?thesis by (subst poll_connect.simps) (simp add: polled_def)
  qed
qed

text \<open>At the capped interval, there is one attempt per 250 milliseconds that are left.\<close>

lemma poll_connect_cap:
  "polled deadline now (attempts + 1 + (deadline - now + 249) div 250) (poll_connect n deadline attempts now POLL_INTERVAL_CAP)"
proof (induction "deadline - now" arbitrary: now attempts rule: less_induct)
  case less
  let ?now = "now + POLL_INTERVAL_CAP + oversleep n now"
  show ?case
  proof (rule poll_connect_step)
    assume lt: "now < deadline"
    have "polled deadline ?now (attempts + 1 + 1 + (deadline - ?now + 249) div 250)
        (poll_connect n deadline (attempts + 1) ?now POLL_INTERVAL_CAP)"
      by (rule less) (use lt in \<open>simp add: POLL_INTERVAL_CAP_def\<close>)
    moreover have "(deadline - ?now + 249) div 250 + 1 \<le> (deadline - now + 249) div 250"
    proof (cases "deadline - now \<le> 250")
      case True
      with lt show ?thesis by (simp add: POLL_INTERVAL_CAP_def)
    next
      case False
      then have "deadline - ?now + 249 + 250 \<le> deadline - now + 249" by (simp add: POLL_INTERVAL_CAP_def)
      then have "(deadline - ?now + 249 + 250) div 250 \<le> (deadline - now + 249) div 250" by (rule div_le_mono)
      then show ?thesis by (metis div_add_self2 zero_neq_numeral)
    qed
    ultimately show "polled deadline ?now (attempts + 1 + (deadline - now + 249) div 250)
        (poll_connect n deadline (attempts + 1) ?now (min (POLL_INTERVAL_CAP * 2) POLL_INTERVAL_CAP))"
      by (auto intro: polled_later simp: POLL_INTERVAL_CAP_def)
  qed simp
qed

lemma poll_connect_start:
  "polled (t + SPAWN_TIMEOUT) t 124 (poll_connect n (t + SPAWN_TIMEOUT) 0 t POLL_INTERVAL)"
proof -
  let ?d = "t + SPAWN_TIMEOUT" and ?p = "\<lambda>a now b. poll_connect n (t + SPAWN_TIMEOUT) a now b"
  have cap: "polled ?d now 124 (?p 4 now 250)" if "t + 375 \<le> now" for now
  proof -
    have "(?d - now + 249) div 250 \<le> (29874 :: nat) div 250"
      by (rule div_le_mono) (use that in \<open>simp add: SPAWN_TIMEOUT_def\<close>)
    with poll_connect_cap[of ?d now 4 n] show ?thesis by (auto intro: polled_later simp: POLL_INTERVAL_CAP_def)
  qed
  have 3: "polled ?d now 124 (?p 3 now 200)" if "t + 175 \<le> now" for now
    by (rule poll_connect_step) (use that cap[of "now + 200 + oversleep n now"] in \<open>simp_all add: POLL_INTERVAL_CAP_def\<close>)
  have 2: "polled ?d now 124 (?p 2 now 100)" if "t + 75 \<le> now" for now
    by (rule poll_connect_step) (use that 3[of "now + 100 + oversleep n now"] in \<open>simp_all add: POLL_INTERVAL_CAP_def\<close>)
  have 1: "polled ?d now 124 (?p 1 now 50)" if "t + 25 \<le> now" for now
    by (rule poll_connect_step) (use that 2[of "now + 50 + oversleep n now"] in \<open>simp_all add: POLL_INTERVAL_CAP_def numeral_2_eq_2\<close>)
  show ?thesis
    by (rule poll_connect_step) (use 1[of "t + 25 + oversleep n t"] in \<open>simp_all add: POLL_INTERVAL_CAP_def POLL_INTERVAL_def\<close>)
qed

lemma connect_with_spawn_returns: "\<exists>r. connect_with_spawn n os sp launcher c = Some r"
proof -
  have "\<exists>x. poll_connect n (now + SPAWN_TIMEOUT) 0 now POLL_INTERVAL = Some x" for now
    using poll_connect_start[of now n] by (auto simp: polled_def)
  then show ?thesis
    by (auto simp: connect_with_spawn_def split: prod.splits sum.splits option.splits)
qed

lemma spawn_connect_returns: "\<exists>r. spawn_connect n os sp rc pc dbg pid launcher client c = Some r"
proof -
  obtain f where "connect_with_spawn n os sp launcher c = Some (f c)" for c
    using connect_with_spawn_returns[of n os sp launcher] by metis
  then have "\<exists>r. connect_and_handshake n os sp rc pc dbg pid launcher client c = Some r"
    by (simp add: connect_and_handshake_def split: prod.splits sum.splits)
  then show ?thesis by (auto simp: spawn_connect_def split: option.split)
qed

section \<open>Properties\<close>

text \<open>
  Waiting for a spawned daemon ends: the polling loop always returns, after at most 124 connection
  attempts, gives up only when the 30 seconds are over, and so does every connect of a client.
\<close>
theorem spawn_poll_bounded:
  "(\<exists>r end_time attempts. poll_connect n (t + SPAWN_TIMEOUT) 0 t POLL_INTERVAL = Some (r, end_time, attempts)
      \<and> attempts \<le> 124 \<and> t \<le> end_time \<and> (r \<noteq> Inl DaemonShutdown \<or> t + SPAWN_TIMEOUT \<le> end_time))
   \<and> spawn_connect n os sp rc pc dbg pid launcher client c \<noteq> None"
  using poll_connect_start[of t n] spawn_connect_returns[of n os sp rc pc dbg pid launcher client c]
  by (auto simp: polled_def)

text \<open>
  C25. Version negotiation: a client that reaches a daemon of protocol version \<open>d\<close> has a connection if the versions
  agree, and otherwise a version mismatch naming both versions. The mismatch is final: no further connection is
  attempted (the result does not depend on what one would meet, and no time passes). Only a greeting that met
  a closed connection is repeated, once, with the same verdict from the second connection.
\<close>
theorem version_negotiation:
  assumes "codec_ok rc" "codec_ok pc"
    and "framed rc (Hello client PROTOCOL_VERSION pid) body"
    and "handshake rc pc version d \<lparr>inbox = [Inr body], outbox = [], sends_left = None\<rparr> = (r, conn)"
    and "outbox conn = [reply]"
    and "connect_with_spawn n os sp launcher c = Some (Inr \<lparr>st_out = empty_sink, st_in = to_be_bytes 4 (length reply) @ reply @ rest\<rparr>, c')"
  shows "(\<exists>stream. st_in stream = rest \<and>
       (let result = Some (if d = PROTOCOL_VERSION then Inr stream else Inl (ProtocolVersionMismatch PROTOCOL_VERSION d), c') in
        connect_and_handshake n os sp rc pc dbg pid launcher client c = result
        \<and> (\<forall>c0. connect_with_spawn n os sp launcher c0 = Some (Inr \<lparr>st_out = empty_sink, st_in = []\<rparr>, c) \<longrightarrow>
             connect_and_handshake n os sp rc pc dbg pid launcher client c0 = result)))
    \<and> (r = Inr True \<longleftrightarrow> d = PROTOCOL_VERSION)"
proof -
  have dec: "decode rc body = Inr (Hello client PROTOCOL_VERSION pid)" by (rule framed_decode[OF assms(1,3)])
  let ?a = "if d = PROTOCOL_VERSION then Welcome version d else ErrorResponse (VersionMismatch PROTOCOL_VERSION d)"
  let ?s = "\<lparr>st_out = empty_sink, st_in = to_be_bytes 4 (length reply) @ reply @ rest\<rparr>"
  have reply: "framed pc ?a reply" and r: "r = Inr True \<longleftrightarrow> d = PROTOCOL_VERSION"
    using assms(4,5) by (auto simp: handshake_def dec conn_send_def framed_def welcome_response_def Let_def
        split: sum.splits if_splits)
  have read: "read_frame pc (st_in ?s) = (Inr ?a, rest)"
    using read_frame_written[OF assms(2), of ?a reply rest] reply by (simp add: framed_def)
  obtain out where out: "write_frame rc (Hello client PROTOCOL_VERSION pid) empty_sink = (Inr (), out)"
    using assms(3) by (auto simp: framed_def write_frame_def MAX_FRAME_BYTES_def try_state_def lift_io_def write_all_def empty_sink_def)
  from read out have hello: "hello rc pc dbg client pid ?s = (if d = PROTOCOL_VERSION then Inr ()
      else Inl (ProtocolVersionMismatch PROTOCOL_VERSION d), \<lparr>st_out = out, st_in = rest\<rparr>)" by (auto simp: hello_def)
  have "\<exists>e s'. hello rc pc dbg client pid \<lparr>st_out = empty_sink, st_in = []\<rparr> = (Inl (Io e), s')"
    using out by (simp add: hello_def read_frame_def read_exact_def lift_io_def try_state_def)
  then show ?thesis
    using assms(6) r hello by (intro conjI exI[of _ "\<lparr>st_out = out, st_in = rest\<rparr>"]) (auto simp: connect_and_handshake_def Let_def)
qed

text \<open>
  C26. A dropped connection is invisible: when the daemon has closed the connection and a new one can be
  made, the request is sent again on the new connection and its answer is the answer.
\<close>
theorem request_survives_drop:
  assumes "inbox (stub_framed s) = []" and "sends_left (stub_framed s) = None \<or> sends_left (stub_framed s) = Some 0"
    and "framed rc request b" and "connect (stub_launcher s) (stub_client s) c = Some (Inr fr, c')"
    and "sends_left fr = None" "inbox fr = Inr body # rest" "decode pc body = Inr response"
  shows "\<exists>s'. stub_request rc pc connect request s c = Some (Inr response, s', c')
    \<and> outbox (stub_framed s') = outbox fr @ [b] \<and> stub_client s' = stub_client s"
proof -
  have "\<exists>e s1. stub_round_trip rc pc request s = (Inl (Io e), s1) \<and> stub_launcher s1 = stub_launcher s \<and> stub_client s1 = stub_client s"
    using assms(1-3) by (auto simp: stub_round_trip_def try_state_def send_frame_def recv_frame_def conn_send_def framed_def)
  then show ?thesis
    using assms(3-7)
    by (auto simp: stub_request_def reconnect_def stub_round_trip_def try_state_def send_frame_def recv_frame_def
        conn_send_framed)
qed

definition hello_codec :: "request codec" where
  "hello_codec = \<lparr>to_stdvec = (\<lambda>m. if m = Hello (ClientId []) 1 9 then Inr [7] else Inl ''unsupported''),
     from_bytes = (\<lambda>b. if b = [7] then Inr (Hello (ClientId []) 1 9) else Inl ''unsupported'')\<rparr>"

definition mismatch_codec :: "response codec" where
  "mismatch_codec = \<lparr>to_stdvec = (\<lambda>m. if m = ErrorResponse (VersionMismatch 1 2) then Inr [8] else Inl ''unsupported''),
     from_bytes = (\<lambda>b. if b = [8] then Inr (ErrorResponse (VersionMismatch 1 2)) else Inl ''unsupported'')\<rparr>"

definition newer_net :: net where
  "newer_net = \<lparr>dial = (\<lambda>_. Inr \<lparr>st_out = empty_sink, st_in = to_be_bytes 4 1 @ [8]\<rparr>), oversleep = (\<lambda>_. 0), open_lock = (\<lambda>_. None),
     lock_acquired = Inr, spawned_at = id, nonblocking = (\<lambda>_. None), accepts = (\<lambda>_. None), split_frames = (\<lambda>_. []),
     join_error = (\<lambda>_. None)\<rparr>"

theorem version_negotiation_witness:
  "\<exists>ms. connect_and_handshake newer_net example_os example_spawn hello_codec mismatch_codec (\<lambda>_. ''?'') 9 (ExeLauncher ''d'')
     (ClientId []) (Map.empty, 5) = Some (Inl (ProtocolVersionMismatch 1 2), (ms, 5))"
proof -
  have c: "codec_ok hello_codec" "codec_ok mismatch_codec"
    by (auto simp: codec_ok_def hello_codec_def mismatch_codec_def split: if_splits)
  have f: "framed hello_codec (Hello (ClientId []) PROTOCOL_VERSION 9) [7]"
    by (simp add: framed_def encode_def hello_codec_def PROTOCOL_VERSION_def MAX_FRAME_BYTES_def)
  have "\<exists>r conn. handshake hello_codec mismatch_codec ''0.2'' 2 \<lparr>inbox = [Inr [7]], outbox = [], sends_left = None\<rparr> = (r, conn)
      \<and> outbox conn = [[8]]"
    by (simp add: handshake_def decode_def encode_def hello_codec_def mismatch_codec_def conn_send_def MAX_FRAME_BYTES_def)
  then obtain r conn where h: "handshake hello_codec mismatch_codec ''0.2'' 2 \<lparr>inbox = [Inr [7]], outbox = [], sends_left = None\<rparr> = (r, conn)"
    "outbox conn = [[8]]" by blast
  obtain ms where "connect_with_spawn newer_net example_os example_spawn (ExeLauncher ''d'') (Map.empty, 5)
      = Some (Inr \<lparr>st_out = empty_sink, st_in = to_be_bytes 4 (length [8 :: byte]) @ [8] @ []\<rparr>, (ms, 5))"
    by (auto simp: connect_with_spawn_def newer_net_def try_connect_def socket_path_def env_or_default_def try_state_def
        runtime_dir_def example_os_def Let_def)
  from version_negotiation[OF c f h this, of "\<lambda>_. ''?''"] show ?thesis by (auto simp: PROTOCOL_VERSION_def Let_def)
qed

theorem request_survives_drop_witness:
  "\<exists>s'. stub_request ping_codec pong_codec
       (\<lambda>_ _ c. Some (Inr \<lparr>inbox = [Inr [5]], outbox = [], sends_left = None\<rparr>, c)) Ping
       \<lparr>stub_framed = \<lparr>inbox = [], outbox = [], sends_left = None\<rparr>, stub_client = ClientId [], stub_launcher = ExeLauncher ''d''\<rparr>
       (Map.empty, 0) = Some (Inr Pong, s', (Map.empty, 0))"
proof -
  have "framed ping_codec Ping [5]" by (simp add: framed_def encode_def ping_codec_def MAX_FRAME_BYTES_def)
  moreover have "decode pong_codec [5] = Inr Pong" by (simp add: decode_def pong_codec_def)
  ultimately show ?thesis
    using request_survives_drop[of "\<lparr>stub_framed = \<lparr>inbox = [], outbox = [], sends_left = None\<rparr>, stub_client = ClientId [],
          stub_launcher = ExeLauncher ''d''\<rparr>" ping_codec Ping "[5]"
        "\<lambda>_ _ c. Some (Inr \<lparr>inbox = [Inr [5]], outbox = [], sends_left = None\<rparr>, c)" "(Map.empty, 0)"
        "\<lparr>inbox = [Inr [5]], outbox = [], sends_left = None\<rparr>" "(Map.empty, 0)" "[5]" "[]" pong_codec Pong]
    by auto
qed

definition silent_net :: net where
  "silent_net = \<lparr>dial = (\<lambda>_. Inl (IoError NotFound ''no such file'')), oversleep = (\<lambda>_. 0), open_lock = (\<lambda>_. None),
     lock_acquired = Inr, spawned_at = id, nonblocking = (\<lambda>_. None), accepts = (\<lambda>_. None), split_frames = (\<lambda>_. []),
     join_error = (\<lambda>_. None)\<rparr>"

lemma silent_net_gives_up:
  "poll_connect silent_net deadline attempts now backoff = Some (r, end_time, k) \<Longrightarrow> r = Inl DaemonShutdown"
proof -
  have "n = silent_net \<longrightarrow> fst y = Inl DaemonShutdown" if "poll_connect n deadline attempts now backoff = Some y" for n deadline attempts now backoff y
    using that
    by (rule poll_connect.raw_induct[of "\<lambda>n _ _ _ _ y. n = silent_net \<longrightarrow> fst y = Inl DaemonShutdown", rotated])
      (auto simp: silent_net_def try_connect_def dead_socket_def split: if_splits)
  from this[of silent_net] show "poll_connect silent_net deadline attempts now backoff = Some (r, end_time, k) \<Longrightarrow> r = Inl DaemonShutdown"
    by fastforce
qed

theorem spawn_poll_bounded_witness:
  "\<exists>end_time attempts. poll_connect silent_net (7 + SPAWN_TIMEOUT) 0 7 POLL_INTERVAL = Some (Inl DaemonShutdown, end_time, attempts)
     \<and> attempts \<le> 124 \<and> 30007 \<le> end_time"
proof -
  obtain r end_time attempts where p: "poll_connect silent_net (7 + SPAWN_TIMEOUT) 0 7 POLL_INTERVAL = Some (r, end_time, attempts)"
    "attempts \<le> 124" "r \<noteq> Inl DaemonShutdown \<or> 7 + SPAWN_TIMEOUT \<le> end_time"
    using spawn_poll_bounded by blast
  with silent_net_gives_up[OF p(1)] show ?thesis by (simp add: SPAWN_TIMEOUT_def)
qed

end
