(* ===== verification/Py_Cache.thy ===== *)
theory Py_Cache
  imports Py_Values Client_Stub Daemon_Main Daemon_Steps
begin

text \<open>
  The cache object and the shutdown function of \<^verbatim>\<open>src/python.rs\<close>. The connection cell of a
  cache is an optional stub: empty until the first call has connected and registered the
  namespace. The mutex of the stub is held for a whole round trip, so the calls on one cache
  are a sequence of state transitions. What the client meets outside is the record
  \<open>client_env\<close>.
\<close>

section \<open>Connecting once\<close>

record client_env =
  ce_net :: net
  ce_os :: os
  ce_spawn :: spawn_sys
  ce_request :: "request codec"
  ce_response :: "response codec"
  ce_debug :: "response \<Rightarrow> string"
  ce_pid :: nat
  ce_uuid :: "nat \<Rightarrow> bytes"
  ce_cells :: exception_cells

definition py_dial :: "client_env \<Rightarrow> launcher \<Rightarrow> client_id \<Rightarrow> clock \<Rightarrow> (conn res \<times> clock) option" where
  "py_dial ce = spawn_connect (ce_net ce) (ce_os ce) (ce_spawn ce) (ce_request ce) (ce_response ce) (ce_debug ce) (ce_pid ce)"

abbreviation py_request :: "client_env \<Rightarrow> request \<Rightarrow> stub \<Rightarrow> clock \<Rightarrow> (response res \<times> stub \<times> clock) option" where
  "py_request ce \<equiv> stub_request (ce_request ce) (ce_response ce) (py_dial ce)"

definition py_connect ::
  "client_env \<Rightarrow> string \<Rightarrow> string \<Rightarrow> string \<Rightarrow> stub option \<Rightarrow> clock \<Rightarrow> ((py_err + stub) \<times> stub option \<times> clock) option" where
  "py_connect ce executable namespace config_json cell c =
     (case cell of
        Some s \<Rightarrow> Some (Inr s, Some s, c)
      | None \<Rightarrow>
          Option.bind
            (connect_or_spawn (ce_net ce) (ce_os ce) (ce_spawn ce) (ce_request ce) (ce_response ce) (ce_debug ce)
               (ce_pid ce) (ce_uuid ce (snd c)) (PythonLauncher executable) c)
            (\<lambda>(r, c).
               case r of
                 Inl e \<Rightarrow> Some (Inl (error_to_py_err (ce_cells ce) e), None, c)
               | Inr s \<Rightarrow>
                   map_option (\<lambda>(r, s, c).
                       case r of
                         Inl e \<Rightarrow> (Inl (error_to_py_err (ce_cells ce) e), None, c)
                       | Inr Registered \<Rightarrow> (Inr s, Some s, c)
                       | Inr (ErrorResponse e) \<Rightarrow> (Inl (protocol_error_to_py_err (ce_cells ce) e), None, c)
                       | Inr other \<Rightarrow>
                           (Inl (error_to_py_err (ce_cells ce)
                              (Daemon (''unexpected response to RegisterNamespace: '' @ ce_debug ce other))), None, c))
                     (py_request ce (RegisterNamespace namespace config_json) s c)))"

definition py_round_trip ::
  "client_env \<Rightarrow> string \<Rightarrow> string \<Rightarrow> string \<Rightarrow> request \<Rightarrow> stub option \<Rightarrow> clock
   \<Rightarrow> ((py_err + response) \<times> stub option \<times> clock) option" where
  "py_round_trip ce executable namespace config_json request cell c =
     Option.bind (py_connect ce executable namespace config_json cell c) (\<lambda>(r, cell, c).
       case r of
         Inl e \<Rightarrow> Some (Inl e, cell, c)
       | Inr s \<Rightarrow>
           map_option (\<lambda>(r, s, c). (map_err (error_to_py_err (ce_cells ce)) r, Some s, c)) (py_request ce request s c))"

section \<open>The cache object\<close>

datatype embedding_arg = LocalArg embedding_choice | VoyageArg embedding_choice
datatype entity_arg = KeywordArg entity_choice | GlinerArg entity_choice
datatype vector_arg = MemoryArg vector_choice | TurbopufferArg vector_choice
datatype storage_arg = DiskArg object_choice | S3Arg object_choice

fun embedding_arg_choice :: "embedding_arg \<Rightarrow> embedding_choice" where
  "embedding_arg_choice (LocalArg c) = c"
| "embedding_arg_choice (VoyageArg c) = c"

fun entity_arg_choice :: "entity_arg \<Rightarrow> entity_choice" where
  "entity_arg_choice (KeywordArg c) = c"
| "entity_arg_choice (GlinerArg c) = c"

fun vector_arg_choice :: "vector_arg \<Rightarrow> vector_choice" where
  "vector_arg_choice (MemoryArg c) = c"
| "vector_arg_choice (TurbopufferArg c) = c"

fun storage_arg_choice :: "storage_arg \<Rightarrow> object_choice" where
  "storage_arg_choice (DiskArg c) = c"
| "storage_arg_choice (S3Arg c) = c"

record semantic_cache =
  sc_namespace :: string
  sc_config_json :: string
  sc_executable :: string
  sc_conn :: "stub option"

definition semantic_cache_new ::
  "exception_cells \<Rightarrow> (namespace_config \<Rightarrow> string + string) \<Rightarrow> py_err + string \<Rightarrow> string
   \<Rightarrow> embedding_arg option \<Rightarrow> entity_arg option \<Rightarrow> vector_arg option \<Rightarrow> storage_arg option \<Rightarrow> scoring_dto option
   \<Rightarrow> py_err + semantic_cache" where
  "semantic_cache_new cells to_json sys_executable namespace embedding_opt entities_opt vectors_opt storage_opt scoring_opt =
     try_bind (map_err (error_to_py_err cells) (namespace_new namespace)) (\<lambda>ns.
     let config = \<lparr>cfg_embedding = (case embedding_opt of Some a \<Rightarrow> embedding_arg_choice a | None \<Rightarrow> LocalChoice None),
           cfg_entity = (case entities_opt of Some a \<Rightarrow> entity_arg_choice a | None \<Rightarrow> KeywordChoice None),
           cfg_vector = (case vectors_opt of Some a \<Rightarrow> vector_arg_choice a | None \<Rightarrow> MemoryChoice),
           cfg_object = (case storage_opt of Some a \<Rightarrow> storage_arg_choice a | None \<Rightarrow> DiskChoice None),
           cfg_scoring = (case scoring_opt of Some d \<Rightarrow> d | None \<Rightarrow> scoring_dto_default)\<rparr> in
     try_bind (map_err (\<lambda>e. error_to_py_err cells (InvalidConfig e)) (to_json config)) (\<lambda>config_json.
     try_bind sys_executable (\<lambda>executable.
       Inr \<lparr>sc_namespace = namespace_str ns, sc_config_json = config_json, sc_executable = executable, sc_conn = None\<rparr>)))"

text \<open>A call: the round trip on the cache's cell, then the response read by \<open>f\<close>.\<close>

definition py_call ::
  "client_env \<Rightarrow> request \<Rightarrow> (response \<Rightarrow> py_err + 'a) \<Rightarrow> semantic_cache \<Rightarrow> clock
   \<Rightarrow> ((py_err + 'a) \<times> semantic_cache \<times> clock) option" where
  "py_call ce request f sc c =
     map_option (\<lambda>(r, cell, c). (try_bind r f, sc\<lparr>sc_conn := cell\<rparr>, c))
       (py_round_trip ce (sc_executable sc) (sc_namespace sc) (sc_config_json sc) request (sc_conn sc) c)"

definition unexpected :: "client_env \<Rightarrow> string \<Rightarrow> response \<Rightarrow> py_err" where
  "unexpected ce call r = error_to_py_err (ce_cells ce) (Daemon (''unexpected response to '' @ call @ '': '' @ ce_debug ce r))"

definition py_get ::
  "client_env \<Rightarrow> cache_query \<Rightarrow> semantic_cache \<Rightarrow> clock \<Rightarrow> ((py_err + bytes option) \<times> semantic_cache \<times> clock) option" where
  "py_get ce q sc =
     py_call ce (Get (sc_namespace sc) (cq_query q) (cq_keys q) (cq_context q))
       (\<lambda>r. case r of
              Value v \<Rightarrow> Inr v
            | ErrorResponse e \<Rightarrow> Inl (protocol_error_to_py_err (ce_cells ce) e)
            | other \<Rightarrow> Inl (unexpected ce ''Get'' other)) sc"

definition py_set ::
  "client_env \<Rightarrow> cache_query \<Rightarrow> bytes \<Rightarrow> semantic_cache \<Rightarrow> clock \<Rightarrow> ((py_err + bool) \<times> semantic_cache \<times> clock) option" where
  "py_set ce q v sc =
     py_call ce (Set (sc_namespace sc) (cq_query q) (cq_keys q) (cq_context q) v)
       (\<lambda>r. case r of
              Accepted b \<Rightarrow> Inr b
            | ErrorResponse e \<Rightarrow> Inl (protocol_error_to_py_err (ce_cells ce) e)
            | other \<Rightarrow> Inl (unexpected ce ''Set'' other)) sc"

definition py_delete ::
  "client_env \<Rightarrow> cache_query \<Rightarrow> semantic_cache \<Rightarrow> clock \<Rightarrow> ((py_err + bool) \<times> semantic_cache \<times> clock) option" where
  "py_delete ce q sc =
     py_call ce (Del (sc_namespace sc) (cq_query q) (cq_keys q) (cq_context q))
       (\<lambda>r. case r of
              Deleted deleted \<Rightarrow> Inr deleted
            | ErrorResponse e \<Rightarrow> Inl (protocol_error_to_py_err (ce_cells ce) e)
            | other \<Rightarrow> Inl (unexpected ce ''Del'' other)) sc"

definition semantic_cache_repr :: "semantic_cache \<Rightarrow> string" where
  "semantic_cache_repr sc = ''SemanticCache(namespace='' @ quoted (sc_namespace sc) @ '')''"

section \<open>Shutting the daemon down\<close>

definition SHUTDOWN_POLL_INTERVAL :: nat where "SHUTDOWN_POLL_INTERVAL = 50"
definition SHUTDOWN_TIMEOUT :: nat where "SHUTDOWN_TIMEOUT = 5000"

datatype errno = ESRCH | OtherErrno string

text \<open>The last component is the processes that got the signal.\<close>

definition signal_daemon ::
  "os \<Rightarrow> (string \<Rightarrow> io_error + string) \<Rightarrow> (int \<Rightarrow> errno option) \<Rightarrow> modes \<Rightarrow> bool res \<times> modes \<times> int list" where
  "signal_daemon os read_to_string kill ms =
     (case pid_path os ms of
        (Inl e, ms) \<Rightarrow> (Inl e, ms, [])
      | (Inr path, ms) \<Rightarrow>
          case read_to_string path of
            Inl e \<Rightarrow> (if io_error_kind e = NotFound then Inr False else Inl (Io e), ms, [])
          | Inr raw \<Rightarrow>
              case parse_i32 (trim raw) of
                None \<Rightarrow> (Inr False, ms, [])
              | Some pid \<Rightarrow>
                  case kill pid of
                    None \<Rightarrow> (Inr True, ms, [pid])
                  | Some ESRCH \<Rightarrow> (Inr False, ms, [])
                  | Some (OtherErrno e) \<Rightarrow> (Inl (Daemon (''failed to signal daemon: '' @ e)), ms, []))"

text \<open>The loop that waits for the files to go, with the time it ends at and the number of looks.\<close>

function shutdown_poll :: "(nat \<Rightarrow> bool) \<Rightarrow> (nat \<Rightarrow> nat) \<Rightarrow> nat \<Rightarrow> nat \<Rightarrow> nat \<Rightarrow> nat \<times> nat" where
  "shutdown_poll gone slept deadline looks now =
     (if now < deadline then
        if gone now then (now, looks + 1)
        else shutdown_poll gone slept deadline (looks + 1) (now + SHUTDOWN_POLL_INTERVAL + slept now)
      else (now, looks))"
  by pat_completeness auto
termination
  by (relation "measure (\<lambda>(_, _, deadline, _, now). deadline - now)") (auto simp: SHUTDOWN_POLL_INTERVAL_def)

definition shutdown ::
  "os \<Rightarrow> (string \<Rightarrow> io_error + string) \<Rightarrow> (int \<Rightarrow> errno option) \<Rightarrow> string option \<Rightarrow> (string \<Rightarrow> nat \<Rightarrow> bool) \<Rightarrow> (nat \<Rightarrow> nat)
   \<Rightarrow> modes \<Rightarrow> nat \<Rightarrow> bool res \<times> modes \<times> nat" where
  "shutdown os read_to_string kill join_err path_exists slept ms now =
     (case join_err of
        Some e \<Rightarrow> (Inl (Daemon (''shutdown task failed: '' @ e)), ms, now)
      | None \<Rightarrow>
          case signal_daemon os read_to_string kill ms of
            (Inl e, ms, _) \<Rightarrow> (Inl e, ms, now)
          | (Inr signaled, ms, _) \<Rightarrow>
              if \<not> signaled then (Inr False, ms, now)
              else
                case socket_path os ms of
                  (Inl e, ms) \<Rightarrow> (Inl e, ms, now)
                | (Inr sockf, ms) \<Rightarrow>
                    case pid_path os ms of
                      (Inl e, ms) \<Rightarrow> (Inl e, ms, now)
                    | (Inr pidf, ms) \<Rightarrow>
                        (Inr True, ms, fst (shutdown_poll (\<lambda>t. \<not> path_exists sockf t \<and> \<not> path_exists pidf t)
                           slept (now + SHUTDOWN_TIMEOUT) 0 now)))"

declare shutdown_poll.simps [simp del]

section \<open>Lemmas\<close>

lemma stub_round_trip_ok:
  assumes "framed rc request f" "sends_left (stub_framed s) = None" "inbox (stub_framed s) = Inr b # rest" "decode pc b = Inr response"
  shows "stub_round_trip rc pc request s =
    (Inr response, s\<lparr>stub_framed := (stub_framed s)\<lparr>inbox := rest, outbox := outbox (stub_framed s) @ [f]\<rparr>\<rparr>)"
  using assms by (simp add: stub_round_trip_def try_state_def send_frame_def recv_frame_def conn_send_framed)

lemma stub_request_ok:
  assumes "framed rc request f" "sends_left (stub_framed s) = None" "inbox (stub_framed s) = Inr b # rest" "decode pc b = Inr response"
  shows "stub_request rc pc connect request s c =
    Some (Inr response, s\<lparr>stub_framed := (stub_framed s)\<lparr>inbox := rest, outbox := outbox (stub_framed s) @ [f]\<rparr>\<rparr>, c)"
  by (simp add: stub_request_def stub_round_trip_ok[OF assms])

text \<open>A cache that is connected calls on its connection; it never registers again.\<close>

lemma py_round_trip_connected:
  "py_round_trip ce executable namespace config_json request (Some s) c =
     map_option (\<lambda>(r, s, c). (map_err (error_to_py_err (ce_cells ce)) r, Some s, c)) (py_request ce request s c)"
  by (simp add: py_round_trip_def py_connect_def)

lemma py_call_connected:
  assumes "sc_conn sc = Some s" "framed (ce_request ce) request f" "sends_left (stub_framed s) = None"
    and "inbox (stub_framed s) = Inr b # rest" "decode (ce_response ce) b = Inr response"
  shows "py_call ce request g sc c =
    Some (g response, sc\<lparr>sc_conn := Some (s\<lparr>stub_framed := (stub_framed s)\<lparr>inbox := rest, outbox := outbox (stub_framed s) @ [f]\<rparr>\<rparr>)\<rparr>, c)"
  using assms by (simp add: py_call_def py_round_trip_connected stub_request_ok)

lemma py_dial_returns: "\<exists>r. py_dial ce launcher client c = Some r"
  using spawn_connect_returns by (simp add: py_dial_def)

lemma stub_request_returns:
  assumes "\<And>launcher client c. \<exists>r. connect launcher client c = Some r"
  shows "\<exists>r. stub_request rc pc connect request s c = Some r"
proof -
  obtain r1 s1 where s1: "stub_round_trip rc pc request s = (r1, s1)" by fastforce
  obtain r where "connect (stub_launcher s1) (stub_client s1) c = Some r" using assms by blast
  with s1 show ?thesis by (cases r1) (simp_all add: stub_request_def reconnect_def del: split_paired_Ex)
qed

lemma py_connect_returns: "\<exists>r. py_connect ce executable namespace config_json cell c = Some r"
proof (cases cell)
  case None
  obtain r where "spawn_connect (ce_net ce) (ce_os ce) (ce_spawn ce) (ce_request ce) (ce_response ce) (ce_debug ce)
      (ce_pid ce) (PythonLauncher executable) (client_id_generate (ce_uuid ce (snd c))) c = Some r"
    using spawn_connect_returns by blast
  moreover obtain f where "py_request ce (RegisterNamespace namespace config_json) s c = Some (f s c)" for s c
    using stub_request_returns[of "py_dial ce"] py_dial_returns by metis
  ultimately show ?thesis
    using None by (auto simp: py_connect_def connect_or_spawn_def Let_def simp del: split_paired_Ex split: sum.splits prod.splits)
qed (simp add: py_connect_def)

lemma same_parts:
  assumes "cache_query_eq a b"
  shows "reconstruct (cq_query a) (cq_keys a) (cq_context a) = reconstruct (cq_query b) (cq_keys b) (cq_context b)"
proof -
  have keys: "reconstruct_keys (cq_keys a) [] = reconstruct_keys (cq_keys b) []"
  proof -
    have "btree_collect (map (\<lambda>k. Key (trim k)) (cq_keys a)) = btree_collect (map (\<lambda>k. Key (trim k)) (cq_keys b))"
      using assms by (simp add: btree_collect_eq_iff cache_query_eq_def)
    with assms show ?thesis by (simp add: reconstruct_keys_eq list_all_iff cache_query_eq_def btree_collect_def)
  qed
  have q: "cq_query a = cq_query b" "cq_context a = cq_context b" using assms by (simp_all add: cache_query_eq_def)
  show ?thesis unfolding reconstruct_def keys q ..
qed

lemma shutdown_poll_bounds:
  "case shutdown_poll gone slept deadline looks now of
     (t, k) \<Rightarrow> (gone t \<or> deadline \<le> t) \<and> k \<le> looks + (deadline - now + 49) div 50 \<and> now \<le> t"
proof (induction gone slept deadline looks now rule: shutdown_poll.induct)
  case (1 gone slept deadline looks now)
  let ?now = "now + SHUTDOWN_POLL_INTERVAL + slept now"
  show ?case
  proof (cases "now < deadline \<and> \<not> gone now")
    case True
    then have lt: "now < deadline" and step: "shutdown_poll gone slept deadline looks now = shutdown_poll gone slept deadline (looks + 1) ?now"
      by (simp_all add: shutdown_poll.simps[of gone slept deadline looks now])
    have "(deadline - ?now + 49) div 50 + 1 \<le> (deadline - now + 49) div 50"
    proof (cases "deadline - now \<le> 50")
      case True
      with lt show ?thesis by (simp add: SHUTDOWN_POLL_INTERVAL_def)
    next
      case False
      then have "deadline - ?now + 49 + 50 \<le> deadline - now + 49" by (simp add: SHUTDOWN_POLL_INTERVAL_def)
      then have "(deadline - ?now + 49 + 50) div 50 \<le> (deadline - now + 49) div 50" by (rule div_le_mono)
      then show ?thesis by (metis div_add_self2 zero_neq_numeral)
    qed
    with 1 True show ?thesis unfolding step by fastforce
  next
    case False
    then show ?thesis by (subst shutdown_poll.simps) auto
  qed
qed

lemma show_nat_digits: "c \<in> set (show_nat n) \<Longrightarrow> dec_value c \<noteq> None"
proof (induction n rule: show_nat.induct)
  case (1 n)
  then show ?case by (cases "n < 10") (auto simp: show_nat.simps[of n])
qed

lemma trim_show_nat: "trim (show_nat n) = show_nat n"
proof -
  have ws: "list_all (\<lambda>w. w \<noteq> [] \<and> list_all (\<lambda>c. dec_value c = None) w) white_space" by code_simp
  have no: "\<not> set w \<subseteq> set (show_nat n)" if "w \<in> set white_space" for w
  proof -
    from ws that have "w \<noteq> []" "\<forall>c \<in> set w. dec_value c = None" by (auto simp: list_all_iff)
    then have "hd w \<in> set w" "dec_value (hd w) = None" by simp_all
    with show_nat_digits[of "hd w" n] show ?thesis by blast
  qed
  show ?thesis
    unfolding trim_fixed_iff ws_prefix_None_iff ws_suffix_None_iff
    using no by (metis set_append sup.cobounded1 sup.cobounded2)
qed

lemma parse_show_pid: "n < 2 ^ 31 \<Longrightarrow> parse_i32 (trim (show_nat n)) = Some (int n)"
proof -
  assume n: "n < 2 ^ 31"
  obtain c cs where s: "show_nat n = c # cs" by (cases "show_nat n") auto
  then have "dec_value c \<noteq> None" using show_nat_digits[of c n] by simp
  moreover have "dec_value (CHR ''-'') = None" by code_simp
  ultimately have "c \<noteq> CHR ''-''" by metis
  then have "parse_i32 (show_nat n) = map_option int (read_unsigned dec_value 10 (2 ^ 31) (show_nat n))"
    unfolding s parse_i32_def by (auto split: char.split bool.split)
  then show ?thesis using read_unsigned_show_nat[OF n] by (simp add: trim_show_nat)
qed

lemma to_config_default: "to_config fmt scoring_dto_default = Inr scoring_default"
proof -
  have "scoring_dto_default = dto_of scoring_default" by (simp add: scoring_dto_default_def dto_of_def Let_def)
  then show ?thesis using to_config_of_dto[OF scoring_default_ok] by simp
qed

section \<open>Properties\<close>

text \<open>
  C7. From Python, a cache reads its own pending writes. When \<open>set\<close> has returned true, a \<open>get\<close> on the same connection with a
  query that compares equal returns the value, as long as the write is still pending: whatever requests of
  other clients the daemon answers and whatever other writes its workers carry out in between, provided no worker has
  taken up a write of the entry and no one has set or deleted the entry again. (Once the write has reached the stores the
  lookup is a semantic one and may miss.)
\<close>
theorem python_read_your_write:
  assumes "sc_conn sc = Some s" "sends_left (stub_framed s) = None" "codec_ok (ce_response ce)"
    and "cache_query_eq q q'"
    and "framed (ce_request ce) (Set (sc_namespace sc) (cq_query q) (cq_keys q) (cq_context q) v) f1"
      "framed (ce_request ce) (Get (sc_namespace sc) (cq_query q') (cq_keys q') (cq_context q')) f2"
    and "respond h version protocol (Set (sc_namespace sc) (cq_query q) (cq_keys q) (cq_context q) v) st = (r1, st1)"
    and "spares h version protocol (sc_namespace sc) (request_id (h_new_v5 h) (cq_query q) (cq_keys q) (cq_context q)) ops st1"
    and "respond h version protocol (Get (sc_namespace sc) (cq_query q') (cq_keys q') (cq_context q'))
      (run_ops h version protocol ops st1) = (r2, st2)"
    and "framed (ce_response ce) r1 b1" "framed (ce_response ce) r2 b2" "inbox (stub_framed s) = [Inr b1, Inr b2]"
    and "py_set ce q v sc c = Some (Inr True, sc', c')"
  shows "\<exists>sc''. py_get ce q' sc' c' = Some (Inr (Some v), sc'', c') \<and> c' = c"
proof -
  have dec: "decode (ce_response ce) b1 = Inr r1" "decode (ce_response ce) b2 = Inr r2"
    using framed_decode[OF assms(3)] assms(10,11) by blast+
  let ?s1 = "s\<lparr>stub_framed := (stub_framed s)\<lparr>inbox := [Inr b2], outbox := outbox (stub_framed s) @ [f1]\<rparr>\<rparr>"
  note set_call = assms(13)[unfolded py_set_def py_call_connected[OF assms(1,5,2,12) dec(1)]]
  then have set: "r1 = Accepted True" "sc' = sc\<lparr>sc_conn := Some ?s1\<rparr>" "c' = c"
    by (auto split: response.splits)
  have "reconstruct (cq_query q') (cq_keys q') (cq_context q') = reconstruct (cq_query q) (cq_keys q) (cq_context q)"
    using same_parts[OF assms(4)] by simp
  from accepted_set_read_back[OF assms(7)[unfolded set(1)] assms(8) this] assms(9) have r2v: "r2 = Value (Some v)" by simp
  have "sc_conn sc' = Some ?s1" "sends_left (stub_framed ?s1) = None" "inbox (stub_framed ?s1) = Inr b2 # []"
    using set assms(2) by simp_all
  note get_call = py_call_connected[OF this(1) assms(6) this(2,3) dec(2)]
  have "sc_namespace sc' = sc_namespace sc" using set by simp
  then show ?thesis
    unfolding py_get_def get_call[symmetric] by (simp add: get_call r2v set(3))
qed

text \<open>
  The first call connects and registers, once. On a fresh connection the namespace is registered
  before the request is sent; if the daemon confirms, the request follows on the same connection, which
  is kept. If the daemon refuses, the call raises the daemon's error, the request is not sent and
  the cell stays empty, so that the next call tries again.
\<close>
theorem first_call_registers:
  assumes "sc_conn sc = None"
    and "py_dial ce (PythonLauncher (sc_executable sc)) (client_id_generate (ce_uuid ce (snd c))) c = Some (Inr fr, c')"
    and "outbox fr = []" "sends_left fr = None" "inbox fr = Inr b0 # Inr b1 # rest"
    and "decode (ce_response ce) b0 = Inr reg" "decode (ce_response ce) b1 = Inr response"
    and "framed (ce_request ce) (RegisterNamespace (sc_namespace sc) (sc_config_json sc)) f0" "framed (ce_request ce) request f1"
  shows "\<exists>r sc'. py_call ce request g sc c = Some (r, sc', c')
    \<and> (if reg = Registered
       then r = g response \<and> (\<exists>s. sc_conn sc' = Some s \<and> outbox (stub_framed s) = [f0, f1] \<and> inbox (stub_framed s) = rest)
       else (\<exists>e. r = Inl e \<and> (\<forall>pe. reg = ErrorResponse pe \<longrightarrow> e = protocol_error_to_py_err (ce_cells ce) pe)) \<and> sc_conn sc' = None)"
proof -
  let ?s = "\<lparr>stub_framed = fr, stub_client = client_id_generate (ce_uuid ce (snd c)), stub_launcher = PythonLauncher (sc_executable sc)\<rparr>"
  let ?s1 = "?s\<lparr>stub_framed := fr\<lparr>inbox := Inr b1 # rest, outbox := [f0]\<rparr>\<rparr>"
  have reg: "py_request ce (RegisterNamespace (sc_namespace sc) (sc_config_json sc)) ?s c' = Some (Inr reg, ?s1, c')"
    using stub_request_ok[OF assms(8), of ?s b0 "Inr b1 # rest" "ce_response ce" reg "py_dial ce" c'] assms(3-6) by simp
  have req: "py_request ce request ?s1 c' = Some (Inr response, ?s1\<lparr>stub_framed := fr\<lparr>inbox := rest, outbox := [f0, f1]\<rparr>\<rparr>, c')"
    using stub_request_ok[OF assms(9), of ?s1 b1 rest "ce_response ce" response "py_dial ce" c'] assms(4,7) by simp
  have con: "connect_or_spawn (ce_net ce) (ce_os ce) (ce_spawn ce) (ce_request ce) (ce_response ce) (ce_debug ce)
      (ce_pid ce) (ce_uuid ce (snd c)) (PythonLauncher (sc_executable sc)) c = Some (Inr ?s, c')"
    using assms(2) by (simp add: connect_or_spawn_def py_dial_def Let_def)
  show ?thesis
  proof (cases "reg = Registered")
    case True
    with reg con have "py_connect ce (sc_executable sc) (sc_namespace sc) (sc_config_json sc) None c = Some (Inr ?s1, Some ?s1, c')"
      by (simp add: py_connect_def)
    with True req assms(1) show ?thesis by (simp add: py_call_def py_round_trip_def)
  next
    case False
    with reg con obtain e where "py_connect ce (sc_executable sc) (sc_namespace sc) (sc_config_json sc) None c = Some (Inl e, None, c')
        \<and> (\<forall>pe. reg = ErrorResponse pe \<longrightarrow> e = protocol_error_to_py_err (ce_cells ce) pe)"
      by (cases reg) (simp_all add: py_connect_def)
    with False assms(1) show ?thesis by (simp add: py_call_def py_round_trip_def)
  qed
qed

text \<open>
  Every call of a cache returns a value or raises: none of them waits for ever on a daemon that does
  not come up.
\<close>
theorem python_calls_return:
  "py_get ce q sc c \<noteq> None \<and> py_set ce q v sc c \<noteq> None \<and> py_delete ce q sc c \<noteq> None"
proof -
  have "\<exists>r. py_request ce request s c = Some r" for request s c
    by (rule stub_request_returns) (rule py_dial_returns)
  then obtain f where f: "py_request ce request s c = Some (f request s c)" for request s c by metis
  obtain g where g: "py_connect ce x n j cell c = Some (g x n j cell c)" for x n j cell c
    using py_connect_returns[of ce] by metis
  show ?thesis
    by (auto simp: py_get_def py_set_def py_delete_def py_call_def py_round_trip_def f g split: sum.splits prod.splits)
qed

text \<open>
  C40. The transparent reconnect does not register again. When the daemon of a connected cache has gone and
  a new one, which does not know the namespace yet, takes its place, the call that meets it raises a
  \<open>NamespaceError\<close>, and the cell still holds the stub, so that no later call registers either.
\<close>
theorem reconnect_loses_namespace:
  assumes "sc_conn sc = Some s" "inbox (stub_framed s) = []" "sends_left (stub_framed s) = None"
    and "py_dial ce (stub_launcher s) (stub_client s) c = Some (Inr fr, c')"
    and "sends_left fr = None" "inbox fr = Inr b # rest" "codec_ok (ce_response ce)"
    and "\<not> ds_registry_poisoned st" "ds_registry st (sc_namespace sc) = None"
    and "respond h version protocol (Get (sc_namespace sc) (cq_query q) (cq_keys q) (cq_context q)) st = (response, st')"
    and "framed (ce_response ce) response b"
    and "framed (ce_request ce) (Get (sc_namespace sc) (cq_query q) (cq_keys q) (cq_context q)) f"
    and "ce_cells ce = add_exceptions no_exceptions"
  shows "\<exists>m sc' s'. py_get ce q sc c = Some (Inl (PyErr NamespaceError m), sc', c')
    \<and> sc_conn sc' = Some s' \<and> ds_registry st' = ds_registry st
    \<and> py_connect ce (sc_executable sc') (sc_namespace sc') (sc_config_json sc') (sc_conn sc') c' = Some (Inr s', Some s', c')"
proof -
  have response: "response = ErrorResponse (UnknownNamespace (sc_namespace sc))" "st' = st"
    using assms(8-10) by (simp_all add: handle_get_def conn_resolve_def state_resolve_def)
  have dec: "decode (ce_response ce) b = Inr response" using framed_decode[OF assms(7,11)] .
  let ?get = "Get (sc_namespace sc) (cq_query q) (cq_keys q) (cq_context q)"
  have "\<exists>e s1. stub_round_trip (ce_request ce) (ce_response ce) ?get s = (Inl (Io e), s1)
      \<and> stub_launcher s1 = stub_launcher s \<and> stub_client s1 = stub_client s"
    using assms(2,3,12) by (simp add: stub_round_trip_def try_state_def send_frame_def recv_frame_def conn_send_framed)
  then obtain s2 where "py_request ce ?get s c = Some (Inr response, s2, c')"
    using assms(4-6,12) dec stub_round_trip_ok[OF assms(12), of "_\<lparr>stub_framed := fr\<rparr>" b rest "ce_response ce" response]
    by (auto simp: stub_request_def reconnect_def)
  then show ?thesis
    by (simp add: py_get_def py_call_def assms(1,13) py_round_trip_connected response py_connect_def add_exceptions_def
        register_exceptions_def no_exceptions_def once_set_def build_py_err_def)
qed

text \<open>
  C21. What the constructors accept, the daemon accepts. A cache object carries the JSON of exactly the configuration of its
  arguments: on every axis the choice of the argument, and the local choice where the argument is left out. When
  that configuration survives the trip through JSON, it has a name and a scoring the daemon never refuses:
  the daemon builds with these choices and this scoring, and can only fail in the constructor of a chosen backend.
\<close>
theorem constructed_config_accepted:
  assumes "semantic_cache_new cells to_json sys_executable namespace em en ve st scoring_opt = Inr sc"
    and "case scoring_opt of None \<Rightarrow> True | Some d \<Rightarrow> scoring_new (lib_fmt l) t k f ctx g ct = Inr d"
  shows "\<exists>cfg. to_json cfg = Inr (sc_config_json sc) \<and> sc_conn sc = None
    \<and> cfg_embedding cfg = (case em of Some a \<Rightarrow> embedding_arg_choice a | None \<Rightarrow> LocalChoice None)
    \<and> cfg_entity cfg = (case en of Some a \<Rightarrow> entity_arg_choice a | None \<Rightarrow> KeywordChoice None)
    \<and> cfg_vector cfg = (case ve of Some a \<Rightarrow> vector_arg_choice a | None \<Rightarrow> MemoryChoice)
    \<and> cfg_object cfg = (case st of Some a \<Rightarrow> storage_arg_choice a | None \<Rightarrow> DiskChoice None)
    \<and> cfg_scoring cfg = (case scoring_opt of Some d \<Rightarrow> d | None \<Rightarrow> dto_of scoring_default)
    \<and> (parse (sc_config_json sc) = Inr cfg \<longrightarrow> (\<exists>scoring. scoring_ok scoring \<and> dto_of scoring = cfg_scoring cfg
        \<and> try_bind (parse (sc_config_json sc)) (build_cache l feat (sc_namespace sc)) =
            try_bind (build_entity l feat (cfg_entity cfg)) (\<lambda>entity.
            try_bind (build_embedding l feat (cfg_embedding cfg)) (\<lambda>embedding.
            try_bind (build_vector l feat (cfg_vector cfg)) (\<lambda>vector.
            try_bind (build_object l feat (cfg_object cfg)) (\<lambda>object.
              Inr \<lparr>dc_namespace = Namespace (sc_namespace sc), dc_entity = entity, dc_embedding = embedding, dc_vector = vector,
                   dc_object = object, dc_scoring = scoring\<rparr>))))))"
proof -
  have dflt: "dto_of scoring_default = scoring_dto_default" by (simp add: scoring_dto_default_def dto_of_def Let_def)
  let ?cfg = "\<lparr>cfg_embedding = (case em of Some a \<Rightarrow> embedding_arg_choice a | None \<Rightarrow> LocalChoice None),
      cfg_entity = (case en of Some a \<Rightarrow> entity_arg_choice a | None \<Rightarrow> KeywordChoice None),
      cfg_vector = (case ve of Some a \<Rightarrow> vector_arg_choice a | None \<Rightarrow> MemoryChoice),
      cfg_object = (case st of Some a \<Rightarrow> storage_arg_choice a | None \<Rightarrow> DiskChoice None),
      cfg_scoring = (case scoring_opt of Some d \<Rightarrow> d | None \<Rightarrow> scoring_dto_default)\<rparr>"
  obtain ns where ns: "namespace_new namespace = Inr ns" "sc_namespace sc = namespace_str ns" "sc_conn sc = None"
    and cfg: "to_json ?cfg = Inr (sc_config_json sc)"
    using assms(1) by (auto simp: semantic_cache_new_def Let_def map_err_def result_simps split: sum.splits)
  obtain scoring where scoring: "to_config (lib_fmt l) (cfg_scoring ?cfg) = Inr scoring"
    using assms(2) scoring_new_ok[of "lib_fmt l" t k f ctx g ct] to_config_default[of "lib_fmt l"]
    by (cases scoring_opt) auto
  have "namespace_new (namespace_str ns) = Inr ns" by (rule namespace_new_fixed[OF ns(1)])
  moreover have "Namespace (namespace_str ns) = ns" by simp
  ultimately show ?thesis
    unfolding dflt using ns cfg scoring to_config_Inr[OF scoring]
    by (intro exI[of _ ?cfg]) (auto simp: build_cache_def)
qed

text \<open>
  Waiting for the daemon to go away ends: after at most 100 looks, and before the five seconds are
  over only if both the socket and the pid file are gone.
\<close>
theorem shutdown_bounded:
  "case shutdown_poll gone slept (now + SHUTDOWN_TIMEOUT) 0 now of
     (t, looks) \<Rightarrow> looks \<le> 100 \<and> now \<le> t \<and> (gone t \<or> now + SHUTDOWN_TIMEOUT \<le> t)"
  using shutdown_poll_bounds[where gone = gone and slept = slept and deadline = "now + SHUTDOWN_TIMEOUT" and looks = 0 and now = now]
  by (auto simp: SHUTDOWN_TIMEOUT_def split: prod.splits)

lemma path_again:
  assumes "pid_path os ms = (Inr p, ms1)"
  shows "\<exists>ms2. pid_path os ms' = (Inr p, ms2)"
  using assms by (auto simp: pid_path_def lock_path_def env_or_default_def runtime_dir_def try_state_def Let_def
      split: option.splits prod.splits sum.splits)

text \<open>
  Shutting down reaches the daemon: in the environment a daemon was configured in, the pid it wrote
  into its pid file is the one that gets the signal, and no other process does.
\<close>
theorem shutdown_signals_daemon:
  assumes "from_env dbg version os ms = (Inr cfg, ms1)"
    and "read_to_string (cf_pid cfg) = Inr (show_nat pid)" "pid < 2 ^ 31" "kill (int pid) = None"
  shows "\<exists>ms3. signal_daemon os read_to_string kill ms2 = (Inr True, ms3, [int pid])"
proof -
  obtain ms0 where "pid_path os ms0 = (Inr (cf_pid cfg), ms1)"
    using assms(1) by (fastforce simp: from_env_def result_simps split: sum.splits if_splits)
  then obtain ms3 where "pid_path os ms2 = (Inr (cf_pid cfg), ms3)" using path_again by blast
  then show ?thesis using assms(2-4) by (simp add: signal_daemon_def parse_show_pid)
qed

text \<open>Any number is taken for a pid: one that is zero or negative names a process group.\<close>

theorem signal_any_pid:
  assumes "pid_path os ms = (Inr p, ms')" "read_to_string p = Inr ''-1''" "kill (- 1) = None"
  shows "signal_daemon os read_to_string kill ms = (Inr True, ms', [- 1])"
proof -
  have "trim ''-1'' = ''-1''" "dec_value (CHR ''1'') = Some 1" by code_simp+
  then have "parse_i32 (trim ''-1'') = Some (- 1)" by (simp add: parse_i32_def)
  with assms show ?thesis by (simp add: signal_daemon_def)
qed

section \<open>Examples\<close>

text \<open>A daemon that listens: it has answered the greeting, and \<open>frames\<close> are its next answers.\<close>

definition example_response :: "response codec" where
  "example_response = \<lparr>
     to_stdvec = (\<lambda>m. if m = Welcome ''0.1'' 1 then Inr [1] else if m = Registered then Inr [2]
        else if m = ErrorResponse (UnknownNamespace ''prod'') then Inr [3] else if m = Accepted True then Inr [4]
        else if m = Value (Some [1]) then Inr [5] else Inl ''unsupported''),
     from_bytes = (\<lambda>b. if b = [1] then Inr (Welcome ''0.1'' 1) else if b = [2] then Inr Registered
        else if b = [3] then Inr (ErrorResponse (UnknownNamespace ''prod'')) else if b = [4] then Inr (Accepted True)
        else if b = [5] then Inr (Value (Some [1])) else Inl ''unsupported'')\<rparr>"

definition example_request :: "request codec" where
  "example_request = \<lparr>to_stdvec = (\<lambda>_. Inr [0]), from_bytes = (\<lambda>_. Inl ''unsupported'')\<rparr>"

definition example_net :: "(io_error + bytes) list \<Rightarrow> net" where
  "example_net frames = \<lparr>dial = (\<lambda>_. Inr \<lparr>st_out = empty_sink, st_in = [0, 0, 0, 1, 1]\<rparr>), oversleep = (\<lambda>_. 0),
     open_lock = (\<lambda>_. None), lock_acquired = Inr, spawned_at = id, nonblocking = (\<lambda>_. None), accepts = (\<lambda>_. None),
     split_frames = (\<lambda>_. frames), join_error = (\<lambda>_. None)\<rparr>"

definition example_client :: "(io_error + bytes) list \<Rightarrow> client_env" where
  "example_client frames = \<lparr>ce_net = example_net frames, ce_os = example_os, ce_spawn = example_spawn,
     ce_request = example_request, ce_response = example_response, ce_debug = (\<lambda>_. ''?''), ce_pid = 9,
     ce_uuid = (\<lambda>_. []), ce_cells = add_exceptions no_exceptions\<rparr>"

definition example_stub :: "(io_error + bytes) list \<Rightarrow> stub" where
  "example_stub frames = \<lparr>stub_framed = \<lparr>inbox = frames, outbox = [], sends_left = None\<rparr>,
     stub_client = ClientId [], stub_launcher = PythonLauncher ''python''\<rparr>"

definition example_cache :: "string \<Rightarrow> stub option \<Rightarrow> semantic_cache" where
  "example_cache namespace cell = \<lparr>sc_namespace = namespace, sc_config_json = ''{}'', sc_executable = ''python'', sc_conn = cell\<rparr>"

lemma example_client_simps [simp]:
  "ce_request (example_client frames) = example_request" "ce_response (example_client frames) = example_response"
  "ce_cells (example_client frames) = add_exceptions no_exceptions"
  by (simp_all add: example_client_def)

lemma example_framed [simp]: "framed example_request m [0]"
  by (simp add: framed_def encode_def example_request_def MAX_FRAME_BYTES_def)

lemma example_response_ok: "codec_ok example_response"
  by (auto simp: codec_ok_def example_response_def split: if_splits)

lemma example_responses:
  "decode example_response [2] = Inr Registered" "decode example_response [5] = Inr (Value (Some [1]))"
  "framed example_response (ErrorResponse (UnknownNamespace ''prod'')) [3]"
  "framed example_response (Accepted True) [4]" "framed example_response (Value (Some [1])) [5]"
  by (simp_all add: framed_def encode_def decode_def example_response_def MAX_FRAME_BYTES_def)

lemma example_dial:
  "\<exists>c'. py_dial (example_client frames) launcher client (ms, now) = Some (Inr \<lparr>inbox = frames, outbox = [], sends_left = None\<rparr>, c')"
proof -
  obtain p ms' where path: "socket_path example_os ms = (Inr p, ms')"
    by (auto simp: socket_path_def env_or_default_def try_state_def runtime_dir_def example_os_def Let_def)
  have "to_be_bytes 4 1 = [0, 0, 0, 1]" by code_simp
  then have read: "read_frame example_response [0, 0, 0, 1, 1] = (Inr (Welcome ''0.1'' 1), [])"
    using read_frame_written[OF example_response_ok, of "Welcome ''0.1'' 1" "[1]" "[]"]
    by (simp add: encode_def example_response_def MAX_FRAME_BYTES_def)
  have "\<exists>out. write_frame example_request m empty_sink = (Inr (), out)" for m
    by (auto simp: write_frame_def encode_def example_request_def MAX_FRAME_BYTES_def try_state_def lift_io_def write_all_def empty_sink_def)
  then obtain out where "write_frame example_request (Hello client PROTOCOL_VERSION 9) empty_sink = (Inr (), out)" by blast
  with path read show ?thesis
    by (simp add: py_dial_def example_client_def spawn_connect_def connect_and_handshake_def connect_with_spawn_def
        example_net_def try_connect_def hello_def into_framed_def PROTOCOL_VERSION_def)
qed

theorem first_call_registers_witness:
  "\<exists>sc' s c'. py_call (example_client [Inr [2], Inr [5]]) Ping Inr (example_cache ''prod'' None) (Map.empty, 0)
       = Some (Inr (Value (Some [1])), sc', c') \<and> sc_conn sc' = Some s \<and> outbox (stub_framed s) = [[0], [0]]"
proof -
  obtain c' where "py_dial (example_client [Inr [2], Inr [5]]) (PythonLauncher ''python'')
      (client_id_generate (ce_uuid (example_client [Inr [2], Inr [5]]) (snd (Map.empty :: modes, 0)))) (Map.empty, 0)
      = Some (Inr \<lparr>inbox = [Inr [2], Inr [5]], outbox = [], sends_left = None\<rparr>, c')"
    using example_dial by blast
  then show ?thesis
    using first_call_registers[of "example_cache ''prod'' None" "example_client [Inr [2], Inr [5]]" "(Map.empty, 0)"
        "\<lparr>inbox = [Inr [2], Inr [5]], outbox = [], sends_left = None\<rparr>" c' "[2]" "[5]" "[]" Registered "Value (Some [1])"
        "[0]" Ping "[0]" Inr]
    by (auto simp: example_cache_def example_responses)
qed

theorem reconnect_loses_namespace_witness:
  "\<exists>m sc' c'. py_get (example_client [Inr [3]]) (example_query []) (example_cache ''prod'' (Some (example_stub []))) (Map.empty, 0)
     = Some (Inl (PyErr NamespaceError m), sc', c')"
proof -
  obtain c' where dial: "py_dial (example_client [Inr [3]]) (PythonLauncher ''python'') (ClientId []) (Map.empty, 0)
      = Some (Inr \<lparr>inbox = [Inr [3]], outbox = [], sends_left = None\<rparr>, c')"
    using example_dial by blast
  have "respond example_host ''0.1'' 1 (Get ''prod'' ''q'' [] None) (example_daemon 0)
      = (ErrorResponse (UnknownNamespace ''prod''), example_daemon 0)"
    by (simp add: handle_get_def conn_resolve_def state_resolve_def example_daemon_def daemon_state_new_def)
  then show ?thesis
    using reconnect_loses_namespace[of "example_cache ''prod'' (Some (example_stub []))" "example_stub []" "example_client [Inr [3]]"
        "(Map.empty, 0)" "\<lparr>inbox = [Inr [3]], outbox = [], sends_left = None\<rparr>" c' "[3]" "[]" "example_daemon 0" example_host
        "''0.1''" 1 "example_query []" "ErrorResponse (UnknownNamespace ''prod'')" "example_daemon 0" "[0]"] dial
    by (auto simp: example_cache_def example_stub_def example_query_def example_response_ok example_responses
        example_daemon_def daemon_state_new_def)
qed

theorem python_read_your_write_witness:
  "\<exists>sc' sc''. py_set (example_client []) (example_query ['' b'', ''a'']) [1] (example_cache '' prod '' (Some (example_stub [Inr [4], Inr [5]]))) (Map.empty, 0)
      = Some (Inr True, sc', (Map.empty, 0))
    \<and> py_get (example_client []) (example_query [''a'', '' b'', ''a'']) sc' (Map.empty, 0) = Some (Inr (Some [1]), sc'', (Map.empty, 0))"
proof -
  let ?sc = "example_cache '' prod '' (Some (example_stub [Inr [4], Inr [5]]))"
  obtain st where st: "handle_set example_v5 '' prod '' ''q'' ['' b'', ''a''] None [1] (example_daemon 0) = (Accepted True, st)"
    by (rule example_handle_set[of 0]) (simp_all add: WRITE_QUEUE_CAPACITY_def)
  have eq: "cache_query_eq (example_query ['' b'', ''a'']) (example_query [''a'', '' b'', ''a''])"
    by (auto simp: cache_query_eq_def example_query_def)
  have get: "handle_get example_v5 '' prod '' ''q'' [''a'', '' b'', ''a''] None st = (Value (Some [1]), st)"
    using handle_get_after_set[OF st] same_parts[OF eq] by (simp add: example_query_def)
  have "\<exists>sc'. py_set (example_client []) (example_query ['' b'', ''a'']) [1] ?sc (Map.empty, 0) = Some (Inr True, sc', (Map.empty, 0))"
    unfolding py_set_def
    by (subst py_call_connected[where s = "example_stub [Inr [4], Inr [5]]" and f = "[0]" and b = "[4]" and rest = "[Inr [5]]"
          and response = "Accepted True"])
      (simp_all add: example_cache_def example_stub_def framed_decode[OF example_response_ok example_responses(4)])
  then obtain sc' where set: "py_set (example_client []) (example_query ['' b'', ''a'']) [1] ?sc (Map.empty, 0)
      = Some (Inr True, sc', (Map.empty, 0))" ..
  let ?ops = "[Request Ping, Request (Get ''dev'' ''q'' [] None)]"
  have "ds_registry st ''dev'' = None"
    using st by (rule handle_set_Accepted) (simp add: example_daemon_def daemon_state_new_def)
  then have run: "run_ops example_host ''0.1'' 1 ?ops st = st"
    by (auto simp: handle_get_def conn_resolve_def state_resolve_def split: if_splits)
  have spares: "spares example_host ''0.1'' 1 n i ?ops st" for n i by simp
  have r1: "respond example_host ''0.1'' 1 (Set (sc_namespace ?sc) (cq_query (example_query ['' b'', ''a'']))
      (cq_keys (example_query ['' b'', ''a''])) (cq_context (example_query ['' b'', ''a''])) [1]) (example_daemon 0) = (Accepted True, st)"
    using st by (simp add: example_cache_def example_query_def example_host_def)
  have r2: "respond example_host ''0.1'' 1 (Get (sc_namespace ?sc) (cq_query (example_query [''a'', '' b'', ''a'']))
      (cq_keys (example_query [''a'', '' b'', ''a''])) (cq_context (example_query [''a'', '' b'', ''a''])))
      (run_ops example_host ''0.1'' 1 ?ops st) = (Value (Some [1]), st)"
    unfolding run using get by (simp add: example_cache_def example_query_def example_host_def)
  from python_read_your_write[OF _ _ _ eq _ _ r1 spares r2 _ _ _ set, of "example_stub [Inr [4], Inr [5]]" "[0]" "[0]" "[4]" "[5]"] set
  show ?thesis
    by (simp add: example_cache_def example_stub_def example_response_ok example_responses)
qed

definition local_config :: namespace_config where
  "local_config = \<lparr>cfg_embedding = LocalChoice None, cfg_entity = KeywordChoice None, cfg_vector = MemoryChoice,
     cfg_object = DiskChoice None, cfg_scoring = scoring_dto_default\<rparr>"

definition local_json :: "namespace_config \<Rightarrow> string + string" where
  "local_json cfg = (if cfg = local_config then Inr ''{}'' else Inl ''unsupported'')"

theorem constructed_config_accepted_witness:
  "\<exists>sc cfg scoring. semantic_cache_new no_exceptions local_json (Inr ''python'') '' prod '' None None None None None = Inr sc
     \<and> cfg_vector cfg = MemoryChoice \<and> cfg_object cfg = DiskChoice None \<and> dto_of scoring = dto_of scoring_default
     \<and> build_cache example_libs default_features (sc_namespace sc) cfg =
        try_bind (build_entity example_libs default_features (KeywordChoice None)) (\<lambda>entity.
        try_bind (build_embedding example_libs default_features (LocalChoice None)) (\<lambda>embedding.
        try_bind (build_vector example_libs default_features MemoryChoice) (\<lambda>vector.
        try_bind (build_object example_libs default_features (DiskChoice None)) (\<lambda>object.
          Inr \<lparr>dc_namespace = Namespace (sc_namespace sc), dc_entity = entity, dc_embedding = embedding, dc_vector = vector,
               dc_object = object, dc_scoring = scoring\<rparr>))))"
proof -
  have "namespace_new '' prod '' = Inr (Namespace ''prod'')" by code_simp
  then obtain sc where sc: "semantic_cache_new no_exceptions local_json (Inr ''python'') '' prod '' None None None None None = Inr sc"
    by (auto simp: semantic_cache_new_def local_json_def local_config_def)
  have "local_json cfg = Inr j \<Longrightarrow> (Inr local_config :: string + namespace_config) = Inr cfg" for cfg j
    by (simp add: local_json_def split: if_splits)
  with constructed_config_accepted[where parse = "\<lambda>_. Inr local_config" and l = example_libs and feat = default_features, OF sc] sc
  show ?thesis by (auto simp: local_config_def) blast
qed

theorem shutdown_signals_daemon_witness:
  "\<exists>cfg ms. from_env id ''0.1'' example_os Map.empty = (Inr cfg, ms)
     \<and> (\<exists>ms3. signal_daemon example_os (\<lambda>_. Inr (show_nat 42)) (\<lambda>_. None) ms = (Inr True, ms3, [42]))"
proof -
  have "\<exists>cfg ms. from_env id ''0.1'' example_os Map.empty = (Inr cfg, ms)"
    by (auto simp: from_env_def socket_path_def pid_path_def lock_path_def env_or_default_def try_state_def
        runtime_dir_def example_os_def Let_def)
  then obtain cfg ms where "from_env id ''0.1'' example_os Map.empty = (Inr cfg, ms)" by blast
  with shutdown_signals_daemon[OF this, of "\<lambda>_. Inr (show_nat 42)" 42 "\<lambda>_. None" ms] show ?thesis by simp
qed

end
