(* ===== verification/Extension.thy ===== *)
theory Extension
  imports Py_Cache
begin

text \<open>
  The entry points of the crate: the Python extension module (\<^verbatim>\<open>src/lib.rs\<close>) and the daemon
  binary (\<^verbatim>\<open>src/bin/semisweet-daemon.rs\<close>). A module is what its names are bound to, in the
  order of registration, and its \<open>__all__\<close> list; calls into the Python interpreter that create
  types and dictionaries are taken to succeed.
\<close>

section \<open>The extension module\<close>

datatype py_object =
    RustClass string
  | RustFunction string
  | ExceptionType string "string list" \<comment> \<open>name, names of the bases\<close>
  | FacadeClass string py_object \<comment> \<open>name, base class\<close>
  | FacadeFunction string string \<comment> \<open>name, the global it awaits when called\<close>

type_synonym namespace_dict = "(string \<times> py_object) list"

record py_module =
  mod_names :: namespace_dict
  mod_all :: "string list"

definition empty_module :: py_module where
  "empty_module = \<lparr>mod_names = [], mod_all = []\<rparr>"

text \<open>\<open>PyModule::add\<close> lists the name and binds it.\<close>

definition mod_add :: "string \<Rightarrow> py_object \<Rightarrow> py_module \<Rightarrow> py_module" where
  "mod_add name v m = m\<lparr>mod_names := AList.update name v (mod_names m), mod_all := mod_all m @ [name]\<rparr>"

definition add_class :: "string \<Rightarrow> py_module \<Rightarrow> py_module" where
  "add_class name = mod_add name (RustClass name)"

definition PUBLIC_API :: "string list" where
  "PUBLIC_API =
     [''CacheQuery'', ''SemanticCache'', ''LocalEmbedding'', ''VoyageEmbedding'', ''KeywordEntities'', ''GlinerEntities'',
      ''MemoryVectors'', ''TurbopufferVectors'', ''DiskStorage'', ''S3Storage'', ''Scoring'', ''shutdown_daemon'',
      ''SemisweetError'', ''ConfigError'', ''NamespaceError'', ''BackendError'', ''DaemonError'']"

fun type_name :: "py_type \<Rightarrow> string" where
  "type_name PyException = ''Exception''"
| "type_name PyValueError = ''ValueError''"
| "type_name PyKeyError = ''KeyError''"
| "type_name PyRuntimeError = ''RuntimeError''"
| "type_name SemisweetError = ''SemisweetError''"
| "type_name ConfigError = ''ConfigError''"
| "type_name NamespaceError = ''NamespaceError''"
| "type_name BackendError = ''BackendError''"
| "type_name DaemonError = ''DaemonError''"

definition new_exception :: "py_type \<Rightarrow> py_object" where
  "new_exception t = ExceptionType (type_name t) (map type_name (py_bases t))"

definition module_exceptions :: "py_module \<Rightarrow> exception_cells \<Rightarrow> py_module \<times> exception_cells" where
  "module_exceptions m cells =
     (fold (\<lambda>t. mod_add (type_name t) (new_exception t)) [SemisweetError, ConfigError, NamespaceError, BackendError, DaemonError] m,
      add_exceptions cells)"

text \<open>The facade source defines a subclass of what \<open>_SemanticCache\<close> is bound to, and a coroutine that
  looks \<open>_shutdown_daemon\<close> up when it is called.\<close>

definition run_facade :: "py_object \<Rightarrow> namespace_dict \<Rightarrow> namespace_dict" where
  "run_facade base globals =
     AList.update ''shutdown_daemon'' (FacadeFunction ''shutdown_daemon'' ''_shutdown_daemon'')
       (AList.update ''SemanticCache'' (FacadeClass ''SemanticCache'' base) globals)"

definition install_async_facade :: "exception_cells \<Rightarrow> py_module \<Rightarrow> py_err + py_module" where
  "install_async_facade cells m =
     (let cache = RustClass ''SemanticCache'';
          globals = run_facade cache [(''_SemanticCache'', cache), (''_shutdown_daemon'', RustFunction ''shutdown_daemon'')] in
      try_bind (ok_or (error_to_py_err cells (Daemon ''async facade did not define SemanticCache'')) (map_of globals ''SemanticCache'')) (\<lambda>c.
      let m = mod_add ''SemanticCache'' c m in
      try_bind (ok_or (error_to_py_err cells (Daemon ''async facade did not define shutdown_daemon'')) (map_of globals ''shutdown_daemon'')) (\<lambda>f.
      Inr (mod_add ''shutdown_daemon'' f m))))"

definition core :: "py_module \<Rightarrow> exception_cells \<Rightarrow> (py_err + py_module) \<times> exception_cells" where
  "core m cells =
     (let m = fold add_class
            [''CacheQuery'', ''LocalEmbedding'', ''VoyageEmbedding'', ''KeywordEntities'', ''GlinerEntities'', ''MemoryVectors'',
             ''TurbopufferVectors'', ''DiskStorage'', ''S3Storage'', ''Scoring''] m;
          m = mod_add ''_run_daemon'' (RustFunction ''_run_daemon'') m;
          (m, cells) = module_exceptions m cells
      in (try_bind (install_async_facade cells m) (\<lambda>m. Inr (m\<lparr>mod_all := PUBLIC_API\<rparr>)), cells))"

section \<open>The daemon binary\<close>

text \<open>\<open>spawn_only\<close> prints \<open>READY\<close> once it is connected and then sleeps for ever.\<close>

datatype process_end = ExitSuccess | ExitFailure string | Hangs string

definition spawn_only :: "io_error + string \<Rightarrow> io_error option \<Rightarrow> (launcher \<Rightarrow> stub res) \<Rightarrow> io_error option \<Rightarrow> error + process_end" where
  "spawn_only current_exe runtime_error connect flush_error =
     (case current_exe of
        Inl e \<Rightarrow> Inl (Io e)
      | Inr exe \<Rightarrow>
          case runtime_error of
            Some e \<Rightarrow> Inl (Io e)
          | None \<Rightarrow>
              try_bind (connect (ExeLauncher exe)) (\<lambda>_.
                case flush_error of Some e \<Rightarrow> Inl (Io e) | None \<Rightarrow> Inr (Hangs (''READY'' @ [CHR 10]))))"

definition bin_main :: "string list \<Rightarrow> error + process_end \<Rightarrow> error + process_end \<Rightarrow> process_end" where
  "bin_main args run spawner =
     (case (case drop 1 args of
              [] \<Rightarrow> run
            | mode # _ \<Rightarrow>
                if mode = ''--spawn-only'' then spawner else Inl (Daemon (''unknown mode: '' @ mode))) of
        Inr e \<Rightarrow> e
      | Inl e \<Rightarrow> ExitFailure (''semisweet-daemon: '' @ error_to_string e))"

section \<open>Properties\<close>

text \<open>
  The module offers exactly its public interface: importing it succeeds, every public name is bound,
  the only other name is the entry point the launched daemon imports, the cache and the
  shutdown function are the awaitable wrappers and not the raw Rust ones, and errors are raised with the
  exception types the module exports.
\<close>
theorem module_surface:
  "\<exists>m cells. core empty_module no_exceptions = (Inr m, cells) \<and> mod_all m = PUBLIC_API
     \<and> set (map fst (mod_names m)) = insert ''_run_daemon'' (set PUBLIC_API) \<and> distinct (map fst (mod_names m))
     \<and> ''_run_daemon'' \<notin> set (mod_all m)
     \<and> map_of (mod_names m) ''SemanticCache'' = Some (FacadeClass ''SemanticCache'' (RustClass ''SemanticCache''))
     \<and> map_of (mod_names m) ''shutdown_daemon'' = Some (FacadeFunction ''shutdown_daemon'' ''_shutdown_daemon'')
     \<and> (\<exists>t. py_err_type (error_to_py_err cells e) = t
          \<and> map_of (mod_names m) (type_name t) = Some (ExceptionType (type_name t) (map type_name (py_bases t)))
          \<and> SemisweetError \<in> set (py_bases t))"
proof -
  let ?r = "core empty_module no_exceptions"
  define m where "m = (case fst ?r of Inr m \<Rightarrow> m | Inl _ \<Rightarrow> empty_module)"
  have r: "?r = (Inr m, add_exceptions no_exceptions)" unfolding m_def by code_simp
  have all: "mod_all m = PUBLIC_API" "set (map fst (mod_names m)) = insert ''_run_daemon'' (set PUBLIC_API)"
    "distinct (map fst (mod_names m))" "''_run_daemon'' \<notin> set (mod_all m)"
    "map_of (mod_names m) ''SemanticCache'' = Some (FacadeClass ''SemanticCache'' (RustClass ''SemanticCache''))"
    "map_of (mod_names m) ''shutdown_daemon'' = Some (FacadeFunction ''shutdown_daemon'' ''_shutdown_daemon'')"
    unfolding m_def by code_simp+
  have types: "list_all (\<lambda>t. map_of (mod_names m) (type_name t) = Some (ExceptionType (type_name t) (map type_name (py_bases t)))
      \<and> SemisweetError \<in> set (py_bases t)) [ConfigError, NamespaceError, BackendError, DaemonError]"
    unfolding m_def by code_simp
  have "py_err_type (error_to_py_err (add_exceptions no_exceptions) e) \<in> {ConfigError, NamespaceError, BackendError, DaemonError}"
    by (cases e) (simp_all add: add_exceptions_def register_exceptions_def no_exceptions_def once_set_def build_py_err_def)
  with types r all show ?thesis by (intro exI[of _ m] exI[of _ "add_exceptions no_exceptions"]) auto
qed

end
