(* ===== verification/Py_Package.thy ===== *)
theory Py_Package
  imports Py_Cache
begin

text \<open>
  The Python package around the extension module (\<^verbatim>\<open>python/semisweet/\<close>): the serialisation of
  values (\<^verbatim>\<open>serde.py\<close>), the cache that stores objects (\<^verbatim>\<open>objectcache.py\<close>) and the decorator that
  memoises an asynchronous function through it (\<^verbatim>\<open>decorator.py\<close>). Python objects are of a type
  \<open>'o\<close>; what the package uses of pydantic, pickle, json, importlib and inspect is the record
  \<open>pylib\<close> and the binding function of a signature. A decorated call is one transition: other tasks of the
  event loop that run while it awaits are not modelled.
\<close>

section \<open>Exceptions and libraries\<close>

text \<open>Exceptions: those of the extension module, those the package or the language raises, and those of libraries.\<close>

datatype py_exc =
    CoreExc py_err
  | ValueExc string
  | TypeExc string
  | KeyExc string
  | IndexExc string
  | LibExc string

record 'o pylib =
  base_model :: "('o \<Rightarrow> bool) option" \<comment> \<open>instances of \<open>pydantic.BaseModel\<close>; none if pydantic is missing\<close>
  type_module :: "'o \<Rightarrow> string"
  type_qualname :: "'o \<Rightarrow> string"
  model_dump_json :: "'o \<Rightarrow> py_exc + string"
  model_validate_json :: "'o \<Rightarrow> string \<Rightarrow> py_exc + 'o"
  pickle_dumps :: "'o \<Rightarrow> py_exc + bytes"
  pickle_loads :: "bytes \<Rightarrow> py_exc + 'o"
  json_dumps :: "json \<Rightarrow> string"
  json_loads :: "bytes \<Rightarrow> py_exc + json"
  import_module :: "string \<Rightarrow> py_exc + 'o"
  get_attr :: "'o \<Rightarrow> string \<Rightarrow> py_exc + 'o"
  py_str :: "'o \<Rightarrow> py_exc + string"
  py_repr :: "string \<Rightarrow> string"

section \<open>Serialisation\<close>

definition PICKLE :: byte where "PICKLE = 0"
definition PYDANTIC :: byte where "PYDANTIC = 1"

definition is_base_model :: "'o pylib \<Rightarrow> 'o \<Rightarrow> bool" where
  "is_base_model lib v = (case base_model lib of None \<Rightarrow> False | Some p \<Rightarrow> p v)"

text \<open>\<open>split\<close> at dots, which keeps empty parts; \<open>cur\<close> is the current part in reverse.\<close>

fun split_dots :: "string \<Rightarrow> string \<Rightarrow> string list" where
  "split_dots cur [] = [rev cur]"
| "split_dots cur (c # s) = (if c = CHR ''.'' then rev cur # split_dots [] s else split_dots (c # cur) s)"

fun get_attrs :: "'o pylib \<Rightarrow> string list \<Rightarrow> 'o \<Rightarrow> py_exc + 'o" where
  "get_attrs lib [] obj = Inr obj"
| "get_attrs lib (part # parts) obj = try_bind (get_attr lib obj part) (get_attrs lib parts)"

definition envelope :: "'o pylib \<Rightarrow> 'o \<Rightarrow> string \<Rightarrow> json" where
  "envelope lib v body =
     JObj [(''module'', JStr (type_module lib v)), (''qualname'', JStr (type_qualname lib v)), (''json'', JStr body)]"

definition dumps :: "'o pylib \<Rightarrow> 'o \<Rightarrow> py_exc + bytes" where
  "dumps lib v =
     (if is_base_model lib v then
        try_bind (model_dump_json lib v) (\<lambda>body. Inr (PYDANTIC # as_bytes (json_dumps lib (envelope lib v body))))
      else try_bind (pickle_dumps lib v) (\<lambda>payload. Inr (PICKLE # payload)))"

text \<open>\<open>envelope[key]\<close>, and a value used as a string.\<close>

fun json_item :: "json \<Rightarrow> string \<Rightarrow> py_exc + json" where
  "json_item (JObj fs) key = ok_or (KeyExc key) (map_of (rev fs) key)"
| "json_item (JStr _) key = Inl (TypeExc ''string indices must be integers'')"
| "json_item (JArr _) key = Inl (TypeExc ''list indices must be integers or slices'')"
| "json_item _ key = Inl (TypeExc ''object is not subscriptable'')"

fun json_text :: "string \<Rightarrow> json \<Rightarrow> py_exc + string" where
  "json_text raised (JStr s) = Inr s"
| "json_text raised _ = Inl (LibExc raised)"

text \<open>\<open>_resolve\<close>: a name that is not a string fails when it is used.\<close>

definition resolve_class :: "'o pylib \<Rightarrow> json \<Rightarrow> json \<Rightarrow> py_exc + 'o" where
  "resolve_class lib m qn =
     try_bind (json_text ''AttributeError'' m) (\<lambda>name.
     try_bind (import_module lib name) (\<lambda>obj.
     try_bind (json_text ''AttributeError'' qn) (\<lambda>qualname.
       get_attrs lib (split_dots [] qualname) obj)))"

definition loads :: "'o pylib \<Rightarrow> bytes \<Rightarrow> py_exc + 'o" where
  "loads lib data =
     (case data of
        [] \<Rightarrow> Inl (IndexExc ''index out of range'')
      | tag # payload \<Rightarrow>
          if tag = PICKLE then pickle_loads lib payload
          else if tag = PYDANTIC then
            try_bind (json_loads lib payload) (\<lambda>env.
            try_bind (json_item env ''module'') (\<lambda>m.
            try_bind (json_item env ''qualname'') (\<lambda>qn.
            try_bind (resolve_class lib m qn) (\<lambda>model.
            try_bind (json_item env ''json'') (\<lambda>j.
            try_bind (json_text ''ValidationError'' j) (model_validate_json lib model))))))
          else Inl (ValueExc (''unknown serde tag byte: '' @ show_nat (unat tag))))"

section \<open>The object cache\<close>

text \<open>\<open>MISS\<close> is \<open>None\<close>; a stored Python \<open>None\<close> is an object like any other.\<close>

record object_cache =
  oc_namespace :: string
  oc_raw :: semantic_cache

record cache_args =
  ca_embedding :: "embedding_arg option"
  ca_entities :: "entity_arg option"
  ca_vectors :: "vector_arg option"
  ca_storage :: "storage_arg option"
  ca_scoring :: "scoring_dto option"

definition object_cache_new ::
  "exception_cells \<Rightarrow> (namespace_config \<Rightarrow> string + string) \<Rightarrow> py_err + string \<Rightarrow> cache_args \<Rightarrow> string \<Rightarrow> py_exc + object_cache" where
  "object_cache_new cells to_json sys_executable a namespace =
     try_bind (map_err CoreExc (semantic_cache_new cells to_json sys_executable namespace (ca_embedding a) (ca_entities a)
         (ca_vectors a) (ca_storage a) (ca_scoring a)))
       (\<lambda>raw. Inr \<lparr>oc_namespace = namespace, oc_raw = raw\<rparr>)"

text \<open>A call of the raw cache, whose object is updated in place.\<close>

definition on_raw ::
  "(semantic_cache \<Rightarrow> clock \<Rightarrow> ((py_err + 'a) \<times> semantic_cache \<times> clock) option) \<Rightarrow> ('a \<Rightarrow> py_exc + 'b)
   \<Rightarrow> object_cache \<Rightarrow> clock \<Rightarrow> ((py_exc + 'b) \<times> object_cache \<times> clock) option" where
  "on_raw call f oc c =
     map_option (\<lambda>(r, raw, c). (try_bind (map_err CoreExc r) f, oc\<lparr>oc_raw := raw\<rparr>, c)) (call (oc_raw oc) c)"

definition object_get ::
  "'o pylib \<Rightarrow> client_env \<Rightarrow> cache_query \<Rightarrow> object_cache \<Rightarrow> clock \<Rightarrow> ((py_exc + 'o option) \<times> object_cache \<times> clock) option" where
  "object_get lib ce q =
     on_raw (py_get ce q) (\<lambda>data. case data of None \<Rightarrow> Inr None | Some d \<Rightarrow> try_bind (loads lib d) (\<lambda>v. Inr (Some v)))"

definition object_set ::
  "'o pylib \<Rightarrow> client_env \<Rightarrow> cache_query \<Rightarrow> 'o \<Rightarrow> object_cache \<Rightarrow> clock \<Rightarrow> ((py_exc + bool) \<times> object_cache \<times> clock) option" where
  "object_set lib ce q v oc c =
     (case dumps lib v of
        Inl e \<Rightarrow> Some (Inl e, oc, c)
      | Inr data \<Rightarrow> on_raw (py_set ce q data) Inr oc c)"

definition object_delete ::
  "client_env \<Rightarrow> cache_query \<Rightarrow> object_cache \<Rightarrow> clock \<Rightarrow> ((py_exc + bool) \<times> object_cache \<times> clock) option" where
  "object_delete ce q = on_raw (py_delete ce q) Inr"

definition object_cache_repr :: "'o pylib \<Rightarrow> object_cache \<Rightarrow> string" where
  "object_cache_repr lib oc = ''SemanticCache(namespace='' @ py_repr lib (oc_namespace oc) @ '')''"

section \<open>The decorator\<close>

datatype param_kind = PositionalOnly | PositionalOrKeyword | VarPositional | KeywordOnly | VarKeyword
datatype annotation = StrClass | TextAnnotation string | OtherAnnotation

record param =
  pa_name :: string
  pa_kind :: param_kind
  pa_annotation :: annotation

fun str_annotated :: "annotation \<Rightarrow> bool" where
  "str_annotated StrClass = True"
| "str_annotated (TextAnnotation s) = (s = ''str'')"
| "str_annotated OtherAnnotation = False"

definition query_candidate :: "param \<Rightarrow> bool" where
  "query_candidate p \<longleftrightarrow> pa_kind p \<in> {PositionalOnly, PositionalOrKeyword, KeywordOnly} \<and> str_annotated (pa_annotation p)"

definition infer_query_param :: "'o pylib \<Rightarrow> string \<Rightarrow> param list \<Rightarrow> py_exc + string" where
  "infer_query_param lib qualname sig =
     (let candidates = map pa_name (filter query_candidate sig) in
      if length candidates \<noteq> 1 then
        Inl (ValueExc (''@cache on '' @ qualname @ '': cannot infer the query parameter (found str-typed parameters [''
          @ join_with '', '' (map (py_repr lib) candidates) @ '']); pass query='' @ quoted ''<name>'' @ ''.''))
      else Inr (hd candidates))"

record decorated =
  dn_namespace :: string
  dn_query :: string
  dn_keys :: "string list"
  dn_context :: "string option"

record func =
  fn_coroutine :: bool
  fn_text :: string
  fn_module :: string
  fn_qualname :: string
  fn_sig :: "param list"

definition decorate :: "'o pylib \<Rightarrow> func \<Rightarrow> string option \<Rightarrow> string list \<Rightarrow> string option \<Rightarrow> py_exc + decorated" where
  "decorate lib fn query keys context_opt =
     (if \<not> fn_coroutine fn then
        Inl (TypeExc (''@cache supports only `async def`; '' @ fn_text fn @ '' is not a coroutine function''))
      else
        try_bind (case query of Some q \<Rightarrow> Inr q | None \<Rightarrow> infer_query_param lib (fn_qualname fn) (fn_sig fn)) (\<lambda>query_param.
          let referenced = query_param # keys @ (case context_opt of Some c \<Rightarrow> [c] | None \<Rightarrow> []) in
          case List.find (\<lambda>name. name \<notin> pa_name ` set (fn_sig fn)) referenced of
            Some name \<Rightarrow> Inl (ValueExc (''@cache on '' @ fn_qualname fn @ '': no parameter named '' @ py_repr lib name))
          | None \<Rightarrow> Inr \<lparr>dn_namespace = fn_module fn @ '':'' @ fn_qualname fn, dn_query = query_param, dn_keys = keys,
               dn_context = context_opt\<rparr>))"

text \<open>The caches of the process, one per namespace.\<close>

type_synonym caches = "string \<rightharpoonup> object_cache"

definition cache_for :: "string \<Rightarrow> (string \<Rightarrow> py_exc + object_cache) \<Rightarrow> caches \<Rightarrow> (py_exc + object_cache) \<times> caches" where
  "cache_for namespace build m =
     (case m namespace of
        Some existing \<Rightarrow> (Inr existing, m)
      | None \<Rightarrow>
          case build namespace of
            Inl e \<Rightarrow> (Inl e, m)
          | Inr built \<Rightarrow> (Inr built, m(namespace \<mapsto> built)))"

definition arg_text :: "'o pylib \<Rightarrow> (string \<rightharpoonup> 'o) \<Rightarrow> string \<Rightarrow> py_exc + string" where
  "arg_text lib bound name = try_bind (ok_or (KeyExc name) (bound name)) (py_str lib)"

fun arg_texts :: "'o pylib \<Rightarrow> (string \<rightharpoonup> 'o) \<Rightarrow> string list \<Rightarrow> py_exc + string list" where
  "arg_texts lib bound [] = Inr []"
| "arg_texts lib bound (name # names) =
     try_bind (arg_text lib bound name) (\<lambda>t. try_bind (arg_texts lib bound names) (\<lambda>ts. Inr (t # ts)))"

definition call_query ::
  "'o pylib \<Rightarrow> exception_cells \<Rightarrow> (string \<Rightarrow> nat) \<Rightarrow> decorated \<Rightarrow> (string \<rightharpoonup> 'o) \<Rightarrow> py_exc + cache_query" where
  "call_query lib cells order d bound =
     try_bind (arg_text lib bound (dn_query d)) (\<lambda>query.
     try_bind (arg_texts lib bound (dn_keys d)) (\<lambda>texts.
     try_bind (case dn_context d of Some c \<Rightarrow> try_bind (arg_text lib bound c) (\<lambda>t. Inr (Some t)) | None \<Rightarrow> Inr None) (\<lambda>context_opt.
       let keys = remdups texts in
       map_err (\<lambda>e. CoreExc (error_to_py_err cells e))
         (cache_query_new order query (if keys = [] then None else Some keys) context_opt))))"

text \<open>The state a call changes: the caches with their connections, the clock, and whatever the function acts on.\<close>

record 'w process =
  pr_caches :: caches
  pr_clock :: clock
  pr_world :: 'w

definition wrapper ::
  "'o pylib \<Rightarrow> client_env \<Rightarrow> (string \<Rightarrow> py_exc + object_cache) \<Rightarrow> (string \<Rightarrow> nat) \<Rightarrow> decorated
   \<Rightarrow> ('args \<Rightarrow> py_exc + (string \<rightharpoonup> 'o)) \<Rightarrow> ('args \<Rightarrow> 'w \<Rightarrow> (py_exc + 'o) \<times> 'w)
   \<Rightarrow> 'args \<Rightarrow> 'w process \<Rightarrow> ((py_exc + 'o) \<times> 'w process) option" where
  "wrapper lib ce build order d bind fn args st =
     (case try_bind (bind args) (call_query lib (ce_cells ce) order d) of
        Inl e \<Rightarrow> Some (Inl e, st)
      | Inr q \<Rightarrow>
          case cache_for (dn_namespace d) build (pr_caches st) of
            (Inl e, m) \<Rightarrow> Some (Inl e, st\<lparr>pr_caches := m\<rparr>)
          | (Inr oc, m) \<Rightarrow>
              Option.bind (object_get lib ce q oc (pr_clock st)) (\<lambda>(r, oc, c).
                let st = st\<lparr>pr_caches := m(dn_namespace d \<mapsto> oc), pr_clock := c\<rparr> in
                case r of
                  Inl e \<Rightarrow> Some (Inl e, st)
                | Inr (Some hit) \<Rightarrow> Some (Inr hit, st)
                | Inr None \<Rightarrow>
                    (case fn args (pr_world st) of
                       (Inl e, w) \<Rightarrow> Some (Inl e, st\<lparr>pr_world := w\<rparr>)
                     | (Inr result, w) \<Rightarrow>
                         map_option (\<lambda>(r, oc, c).
                             (try_bind r (\<lambda>_. Inr result), st\<lparr>pr_caches := m(dn_namespace d \<mapsto> oc), pr_clock := c, pr_world := w\<rparr>))
                           (object_set lib ce q result oc c))))"

section \<open>Lemmas\<close>

text \<open>
  A class is reachable under its qualified name when the import of its module gives an object from which the parts of the
  name, attribute by attribute, lead to the class: \<open>os\<close> are the objects on the way. Of a name such as
  \<open>f.<locals>.C\<close> there is no such way.
\<close>

definition reachable_class :: "'o pylib \<Rightarrow> string \<Rightarrow> string \<Rightarrow> 'o \<Rightarrow> bool" where
  "reachable_class lib m qualname model \<longleftrightarrow>
     (\<exists>parts os. parts \<noteq> [] \<and> (\<forall>p \<in> set parts. CHR ''.'' \<notin> set p) \<and> qualname = join_with ''.'' parts
        \<and> length os = Suc (length parts) \<and> import_module lib m = Inr (hd os) \<and> last os = model
        \<and> (\<forall>i < length parts. get_attr lib (os ! i) (parts ! i) = Inr (os ! Suc i)))"

text \<open>What the libraries promise of a value: pickle restores what it wrote. For a model, \<open>json\<close> reads the envelope it
  wrote, the class is reachable under its module and qualified name, and validating what the model dumped gives the model.\<close>

definition restores :: "'o pylib \<Rightarrow> 'o \<Rightarrow> bool" where
  "restores lib v \<longleftrightarrow>
     (if is_base_model lib v then
        \<forall>body. model_dump_json lib v = Inr body \<longrightarrow>
          json_loads lib (as_bytes (json_dumps lib (envelope lib v body))) = Inr (envelope lib v body)
          \<and> (\<exists>model. reachable_class lib (type_module lib v) (type_qualname lib v) model
               \<and> model_validate_json lib model body = Inr v)
      else \<forall>payload. pickle_dumps lib v = Inr payload \<longrightarrow> pickle_loads lib payload = Inr v)"

lemma split_dots_part: "CHR ''.'' \<notin> set p \<Longrightarrow> split_dots cur p = [rev cur @ p]"
  "CHR ''.'' \<notin> set p \<Longrightarrow> split_dots cur (p @ CHR ''.'' # s) = (rev cur @ p) # split_dots [] s"
  by (induction p arbitrary: cur) auto

lemma split_dots_join:
  assumes "parts \<noteq> []" "\<forall>p \<in> set parts. CHR ''.'' \<notin> set p"
  shows "split_dots [] (join_with ''.'' parts) = parts"
  using assms by (induction "''.''" parts rule: join_with.induct) (simp_all add: split_dots_part)

lemma get_attrs_walk:
  assumes "length os = Suc (length parts)" "\<forall>i < length parts. get_attr lib (os ! i) (parts ! i) = Inr (os ! Suc i)"
  shows "get_attrs lib parts (hd os) = Inr (last os)"
  using assms
proof (induction parts arbitrary: os)
  case Nil
  then show ?case by (cases os) auto
next
  case (Cons part parts)
  then obtain x y zs where os: "os = x # y # zs" by (auto simp: length_Suc_conv)
  from Cons.prems(2) have "get_attr lib x part = Inr y" "\<forall>i < length parts. get_attr lib ((y # zs) ! i) (parts ! i) = Inr ((y # zs) ! Suc i)"
    unfolding os by (force, fastforce)
  with Cons.IH[of "y # zs"] Cons.prems(1) show ?case by (simp add: os)
qed

lemma resolve_reachable:
  assumes "reachable_class lib m qualname model"
  shows "resolve_class lib (JStr m) (JStr qualname) = Inr model"
  using assms by (auto simp: reachable_class_def resolve_class_def split_dots_join get_attrs_walk)

lemma envelope_items:
  "json_item (envelope lib v body) ''module'' = Inr (JStr (type_module lib v))"
  "json_item (envelope lib v body) ''qualname'' = Inr (JStr (type_qualname lib v))"
  "json_item (envelope lib v body) ''json'' = Inr (JStr body)"
  by (simp_all add: envelope_def)

lemma loads_dumps:
  assumes "dumps lib v = Inr data" "restores lib v"
  shows "loads lib data = Inr v"
proof (cases "is_base_model lib v")
  case True
  with assms(1) obtain body where body: "model_dump_json lib v = Inr body"
    "data = PYDANTIC # as_bytes (json_dumps lib (envelope lib v body))" by (auto simp: dumps_def result_simps)
  with assms(2) True show ?thesis
    by (auto simp: restores_def loads_def PICKLE_def PYDANTIC_def envelope_items dest: resolve_reachable)
next
  case False
  then show ?thesis using assms by (auto simp: dumps_def restores_def loads_def result_simps)
qed

lemma map_err_Inr_iff: "map_err f r = Inr x \<longleftrightarrow> r = Inr x"
  by (cases r) simp_all

text \<open>The calls of an object cache that is connected.\<close>

definition after_frame :: "stub \<Rightarrow> bytes \<Rightarrow> (io_error + bytes) list \<Rightarrow> stub" where
  "after_frame s f rest = s\<lparr>stub_framed := (stub_framed s)\<lparr>inbox := rest, outbox := outbox (stub_framed s) @ [f]\<rparr>\<rparr>"

lemma after_frame_simps [simp]:
  "inbox (stub_framed (after_frame s f rest)) = rest" "sends_left (stub_framed (after_frame s f rest)) = sends_left (stub_framed s)"
  by (simp_all add: after_frame_def)

definition connected_oc :: "object_cache \<Rightarrow> stub \<Rightarrow> object_cache" where
  "connected_oc oc s = oc\<lparr>oc_raw := (oc_raw oc)\<lparr>sc_conn := Some s\<rparr>\<rparr>"

lemma connected_oc_simps [simp]:
  "sc_conn (oc_raw (connected_oc oc s)) = Some s" "sc_namespace (oc_raw (connected_oc oc s)) = sc_namespace (oc_raw oc)"
  "connected_oc (connected_oc oc s) s' = connected_oc oc s'"
  by (simp_all add: connected_oc_def)

lemma object_get_connected:
  assumes "sc_conn (oc_raw oc) = Some s" "sends_left (stub_framed s) = None" "inbox (stub_framed s) = Inr b # rest"
    and "decode (ce_response ce) b = Inr (Value data)"
    and "framed (ce_request ce) (Get (sc_namespace (oc_raw oc)) (cq_query q) (cq_keys q) (cq_context q)) f"
  shows "object_get lib ce q oc c = Some (case data of None \<Rightarrow> Inr None | Some d \<Rightarrow> try_bind (loads lib d) (\<lambda>v. Inr (Some v)),
    connected_oc oc (after_frame s f rest), c)"
  unfolding object_get_def on_raw_def py_get_def py_call_connected[OF assms(1,5,2,3,4)]
  by (simp add: connected_oc_def after_frame_def)

lemma object_set_connected:
  assumes "sc_conn (oc_raw oc) = Some s" "sends_left (stub_framed s) = None" "inbox (stub_framed s) = Inr b # rest"
    and "decode (ce_response ce) b = Inr (Accepted ok)" "dumps lib v = Inr data"
    and "framed (ce_request ce) (Set (sc_namespace (oc_raw oc)) (cq_query q) (cq_keys q) (cq_context q) data) f"
  shows "object_set lib ce q v oc c = Some (Inr ok, connected_oc oc (after_frame s f rest), c)"
  unfolding object_set_def assms(5) sum.case on_raw_def py_set_def py_call_connected[OF assms(1,6,2,3,4)]
  by (simp add: connected_oc_def after_frame_def)

lemma wrapper_miss:
  assumes "bind args = Inr bound" "call_query lib (ce_cells ce) order d bound = Inr q" "pr_caches st (dn_namespace d) = Some oc"
    and "object_get lib ce q oc (pr_clock st) = Some (Inr None, oc1, c1)" "fn args (pr_world st) = (Inr v, w)"
    and "object_set lib ce q v oc1 c1 = Some (Inr ok, oc2, c2)"
  shows "wrapper lib ce build order d bind fn args st =
    Some (Inr v, st\<lparr>pr_caches := (pr_caches st)(dn_namespace d \<mapsto> oc2), pr_clock := c2, pr_world := w\<rparr>)"
  using assms by (simp add: wrapper_def cache_for_def)

lemma wrapper_hit:
  assumes "bind args = Inr bound" "call_query lib (ce_cells ce) order d bound = Inr q" "pr_caches st (dn_namespace d) = Some oc"
    and "object_get lib ce q oc (pr_clock st) = Some (try_bind r (\<lambda>v. Inr (Some v)), oc1, c1)"
  shows "wrapper lib ce build order d bind fn args st =
    Some (r, st\<lparr>pr_caches := (pr_caches st)(dn_namespace d \<mapsto> oc1), pr_clock := c1\<rparr>)"
  using assms by (cases r) (simp_all add: wrapper_def cache_for_def)

section \<open>Properties\<close>

text \<open>
  C31. Values survive storage: what \<open>dumps\<close> writes for a value, \<open>loads\<close> reads back as that value,
  through pydantic for its models and through pickle for everything else, told apart by the first byte,
  provided the library restores what it wrote and the class of a model is reachable under its module and the
  dotted parts of its qualified name; data with another first byte, or none, is refused.
\<close>
theorem serde_round_trip:
  assumes "dumps lib v = Inr data" "restores lib v"
  shows "loads lib data = Inr v \<and> (\<exists>payload. data = (if is_base_model lib v then 1 else 0) # payload)
    \<and> loads lib [] = Inl (IndexExc ''index out of range'')
    \<and> (t \<notin> {0, 1} \<longrightarrow> loads lib (t # rest) = Inl (ValueExc (''unknown serde tag byte: '' @ show_nat (unat t))))"
  using loads_dumps[OF assms] assms(1)
  by (auto simp: dumps_def loads_def PICKLE_def PYDANTIC_def result_simps)

text \<open>
  C8. A decorated function is memoised while its result is pending. On a connection to a daemon that answers in
  order: when a call has missed, has run the function and its result was accepted by the daemon, then a later call
  whose query compares equal gives that result without running the function again, as long as the write is pending:
  whatever the daemon did between the miss and the set (\<open>before\<close>), and whatever requests of other clients it
  answers and whatever other writes its workers carry out between the two calls, provided no worker has taken up a
  write of the entry and no one has set or deleted the entry again. (After the commit the lookup is a semantic one and
  may miss.)
\<close>
theorem decorated_call_reused:
  assumes cache: "pr_caches st (dn_namespace d) = Some oc" "sc_conn (oc_raw oc) = Some s" "sends_left (stub_framed s) = None"
    and codec: "codec_ok (ce_response ce)"
    and call: "bind args = Inr bound" "call_query lib (ce_cells ce) order d bound = Inr q"
      "fn args (pr_world st) = (Inr v, w)" "dumps lib v = Inr data"
    and again: "bind args' = Inr bound'" "call_query lib (ce_cells ce) order d bound' = Inr q'" "cache_query_eq q q'"
    and requests: "list_all2 (framed (ce_request ce)) [Get (sc_namespace (oc_raw oc)) (cq_query q) (cq_keys q) (cq_context q),
        Set (sc_namespace (oc_raw oc)) (cq_query q) (cq_keys q) (cq_context q) data,
        Get (sc_namespace (oc_raw oc)) (cq_query q') (cq_keys q') (cq_context q')] frames"
    and daemon: "respond h version protocol (Get (sc_namespace (oc_raw oc)) (cq_query q) (cq_keys q) (cq_context q)) dst = (Value None, dst1)"
      "respond h version protocol (Set (sc_namespace (oc_raw oc)) (cq_query q) (cq_keys q) (cq_context q) data)
        (run_ops h version protocol before dst1) = (Accepted True, dst2)"
      "spares h version protocol (sc_namespace (oc_raw oc)) (request_id (h_new_v5 h) (cq_query q) (cq_keys q) (cq_context q)) ops dst2"
      "respond h version protocol (Get (sc_namespace (oc_raw oc)) (cq_query q') (cq_keys q') (cq_context q'))
        (run_ops h version protocol ops dst2) = (r, dst3)"
      "list_all2 (framed (ce_response ce)) [Value None, Accepted True, r] bodies" "inbox (stub_framed s) = map Inr bodies"
  shows "\<exists>st1 st2. wrapper lib ce build order d bind fn args st = Some (Inr v, st1) \<and> pr_world st1 = w
    \<and> wrapper lib ce build order d bind fn args' st1 = Some (loads lib data, st2) \<and> pr_world st2 = w
    \<and> (restores lib v \<longrightarrow> loads lib data = Inr v)"
proof -
  let ?ns = "sc_namespace (oc_raw oc)"
  obtain f1 f2 f3 where f: "framed (ce_request ce) (Get ?ns (cq_query q) (cq_keys q) (cq_context q)) f1"
    "framed (ce_request ce) (Set ?ns (cq_query q) (cq_keys q) (cq_context q) data) f2"
    "framed (ce_request ce) (Get ?ns (cq_query q') (cq_keys q') (cq_context q')) f3"
    using requests by (auto simp: list_all2_Cons1)
  obtain b1 b2 b3 where b: "bodies = [b1, b2, b3]" "framed (ce_response ce) (Value None) b1"
    "framed (ce_response ce) (Accepted True) b2" "framed (ce_response ce) r b3"
    using daemon(5) by (auto simp: list_all2_Cons1)
  note dec = framed_decode[OF codec b(2)] framed_decode[OF codec b(3)] framed_decode[OF codec b(4)]
  have "reconstruct (cq_query q') (cq_keys q') (cq_context q') = reconstruct (cq_query q) (cq_keys q) (cq_context q)"
    using same_parts[OF again(3)] by simp
  from accepted_set_read_back[OF daemon(2,3) this] daemon(4) have r: "r = Value (Some data)" by simp
  let ?s1 = "after_frame s f1 [Inr b2, Inr b3]"
  let ?s2 = "after_frame ?s1 f2 [Inr b3]"
  have get1: "object_get lib ce q oc (pr_clock st) = Some (Inr None, connected_oc oc ?s1, pr_clock st)"
    using object_get_connected[OF cache(2,3) _ dec(1) f(1), of "[Inr b2, Inr b3]"] daemon(6) b(1) by simp
  have set2: "object_set lib ce q v (connected_oc oc ?s1) (pr_clock st) = Some (Inr True, connected_oc oc ?s2, pr_clock st)"
    using object_set_connected[of "connected_oc oc ?s1" ?s1 b2 "[Inr b3]" ce True lib v data q f2] cache(3) dec(2) call(4) f(2) by simp
  note first = wrapper_miss[where bind = bind and args = args and fn = fn, OF call(1,2) cache(1) get1 call(3) set2, of build]
  let ?st1 = "st\<lparr>pr_caches := (pr_caches st)(dn_namespace d \<mapsto> connected_oc oc ?s2), pr_clock := pr_clock st, pr_world := w\<rparr>"
  have get3: "object_get lib ce q' (connected_oc oc ?s2) (pr_clock ?st1)
      = Some (try_bind (loads lib data) (\<lambda>v. Inr (Some v)), connected_oc oc (after_frame ?s2 f3 []), pr_clock st)"
    using object_get_connected[of "connected_oc oc ?s2" ?s2 b3 "[]" ce "Some data" q' f3 lib] cache(3) dec(3) r f(3) by simp
  have "pr_caches ?st1 (dn_namespace d) = Some (connected_oc oc ?s2)" by simp
  note second = wrapper_hit[where bind = bind and args = args', OF again(1,2) this get3, of build fn]
  from first second loads_dumps[OF call(4)] show ?thesis by auto
qed

text \<open>
  C39. The names of key arguments are lost. Two calls that swap the values of two key parameters, with the same
  query and context, make queries that compare equal, so that one is answered with the result of the other.
\<close>
theorem swapped_keys_share:
  assumes "dn_keys d = [a, b]" "a \<noteq> b" "dn_query d \<notin> {a, b}" "dn_context d \<notin> {Some a, Some b}"
    and "call_query lib cells order d bound = Inr q"
  shows "\<exists>q'. call_query lib cells order d (bound(a := bound b, b := bound a)) = Inr q' \<and> cache_query_eq q q'"
proof -
  let ?bound = "bound(a := bound b, b := bound a)"
  obtain query ta tb ctx where parts: "arg_text lib bound (dn_query d) = Inr query" "arg_text lib bound a = Inr ta" "arg_text lib bound b = Inr tb"
    "(case dn_context d of Some c \<Rightarrow> try_bind (arg_text lib bound c) (\<lambda>t. Inr (Some t)) | None \<Rightarrow> Inr None) = Inr ctx"
    and q: "cache_query_new order query (Some (remdups [ta, tb])) ctx = Inr q"
    using assms(1,5) by (auto simp del: remdups.simps simp: call_query_def Let_def map_err_Inr_iff remdups_eq_nil_iff result_simps)
  have texts: "arg_text lib ?bound a = Inr tb" "arg_text lib ?bound b = Inr ta"
    "arg_text lib ?bound (dn_query d) = arg_text lib bound (dn_query d)"
    "x \<notin> {a, b} \<Longrightarrow> arg_text lib ?bound x = arg_text lib bound x" for x
    using assms(2,3) parts(2,3) by (auto simp: arg_text_def result_simps)
  have "(case dn_context d of Some c \<Rightarrow> try_bind (arg_text lib ?bound c) (\<lambda>t. Inr (Some t)) | None \<Rightarrow> Inr None) = Inr ctx"
    using parts(4) texts(4) assms(4) by (auto split: option.splits)
  with parts texts have swapped: "call_query lib cells order d ?bound
      = map_err (\<lambda>e. CoreExc (error_to_py_err cells e)) (cache_query_new order query (Some (remdups [tb, ta])) ctx)"
    using assms(1) by (simp add: call_query_def Let_def)
  obtain q' where q': "cache_query_new order query (Some (remdups [tb, ta])) ctx = Inr q'"
    using q by (auto simp: cache_query_new_def validate_keys_eq result_simps split: if_splits)
  have "cache_query_eq q q'"
    using cache_query_new_Inr[OF q] cache_query_new_Inr[OF q'] by (auto simp: cache_query_eq_def)
  with swapped q' show ?thesis by simp
qed

text \<open>
  What the decorator accepts: exactly the asynchronous functions for which the query parameter is named or is
  the only one annotated as \<open>str\<close>, and whose signature has every parameter that is referred to. The
  namespace is that of the function, and no call of the function can fail for a missing parameter.
\<close>
theorem decorate_accepts_iff:
  "decorate lib fn query keys context_opt = Inr d \<longleftrightarrow>
     fn_coroutine fn \<and> d = \<lparr>dn_namespace = fn_module fn @ '':'' @ fn_qualname fn, dn_query = dn_query d, dn_keys = keys, dn_context = context_opt\<rparr>
     \<and> (case query of Some q \<Rightarrow> dn_query d = q | None \<Rightarrow> map pa_name (filter query_candidate (fn_sig fn)) = [dn_query d])
     \<and> insert (dn_query d) (set keys \<union> set_option context_opt) \<subseteq> pa_name ` set (fn_sig fn)"
proof -
  have infer: "infer_query_param lib (fn_qualname fn) (fn_sig fn) = Inr x \<longleftrightarrow> map pa_name (filter query_candidate (fn_sig fn)) = [x]" for x
    by (auto simp: infer_query_param_def Let_def length_Suc_conv)
  have named: "(case query of Some q \<Rightarrow> Inr q | None \<Rightarrow> infer_query_param lib (fn_qualname fn) (fn_sig fn)) = Inr x
      \<longleftrightarrow> (case query of Some q \<Rightarrow> x = q | None \<Rightarrow> map pa_name (filter query_candidate (fn_sig fn)) = [x])" for x
    by (cases query) (auto simp only: option.case infer sum.inject)
  have known: "(case List.find (\<lambda>name. name \<notin> X) (x # keys @ (case context_opt of Some c \<Rightarrow> [c] | None \<Rightarrow> [])) of
        Some name \<Rightarrow> Inl (e name) | None \<Rightarrow> Inr y) = Inr d
      \<longleftrightarrow> d = y \<and> insert x (set keys \<union> set_option context_opt) \<subseteq> X" for x X e y
  proof -
    have "List.find (\<lambda>name. name \<notin> X) (x # keys @ (case context_opt of Some c \<Rightarrow> [c] | None \<Rightarrow> [])) = None
        \<longleftrightarrow> insert x (set keys \<union> set_option context_opt) \<subseteq> X"
      unfolding find_None_iff by (cases context_opt) auto
    then show ?thesis by (auto split: option.split)
  qed
  have "decorate lib fn query keys context_opt = Inr d \<longleftrightarrow> fn_coroutine fn \<and> (\<exists>x.
      (case query of Some q \<Rightarrow> x = q | None \<Rightarrow> map pa_name (filter query_candidate (fn_sig fn)) = [x])
      \<and> d = \<lparr>dn_namespace = fn_module fn @ '':'' @ fn_qualname fn, dn_query = x, dn_keys = keys, dn_context = context_opt\<rparr>
      \<and> insert x (set keys \<union> set_option context_opt) \<subseteq> pa_name ` set (fn_sig fn))"
    unfolding decorate_def Let_def by (simp only: try_bind_Inr_iff named known if_split_eq1 sum.distinct HOL.simp_thms) blast
  then show ?thesis by (metis decorated.select_convs(2))
qed

section \<open>Examples\<close>

text \<open>Objects are strings: \<open>point\<close> is an instance of the model \<open>Shapes.Point\<close> of the module \<open>app\<close>, everything
  else is pickled.\<close>

definition example_lib :: "string pylib" where
  "example_lib = \<lparr>base_model = Some (\<lambda>v. v = ''point''), type_module = (\<lambda>_. ''app''), type_qualname = (\<lambda>_. ''Shapes.Point''),
     model_dump_json = (\<lambda>_. Inr ''{}''),
     model_validate_json = (\<lambda>c j. if c = ''class'' then Inr ''point'' else Inl (LibExc ''AttributeError'')),
     pickle_dumps = (\<lambda>v. if v = ''v'' then Inr [7] else Inl (LibExc ''PicklingError'')),
     pickle_loads = (\<lambda>b. if b = [7] then Inr ''v'' else Inl (LibExc ''UnpicklingError'')),
     json_dumps = (\<lambda>_. ''E''),
     json_loads = (\<lambda>_. Inr (JObj [(''module'', JStr ''app''), (''qualname'', JStr ''Shapes.Point''), (''json'', JStr ''{}'')])),
     import_module = (\<lambda>m. if m = ''app'' then Inr ''app'' else Inl (LibExc ''ModuleNotFoundError'')),
     get_attr = (\<lambda>obj a. if obj = ''app'' \<and> a = ''Shapes'' then Inr ''shapes''
        else if obj = ''shapes'' \<and> a = ''Point'' then Inr ''class'' else Inl (LibExc ''AttributeError'')),
     py_str = Inr, py_repr = quoted\<rparr>"

lemma example_reachable: "reachable_class example_lib ''app'' ''Shapes.Point'' ''class''"
  unfolding reachable_class_def
  by (rule exI[of _ "[''Shapes'', ''Point'']"], rule exI[of _ "[''app'', ''shapes'', ''class'']"]) (auto simp: example_lib_def less_Suc_eq)

lemma example_restores: "restores example_lib ''point''" "restores example_lib ''v''"
  using example_reachable by (auto simp: restores_def example_lib_def is_base_model_def envelope_def)

theorem serde_round_trip_witness:
  "loads example_lib (1 # as_bytes ''E'') = Inr ''point'' \<and> loads example_lib [0, 7] = Inr ''v''"
proof -
  have "dumps example_lib ''point'' = Inr (1 # as_bytes ''E'')" "dumps example_lib ''v'' = Inr [0, 7]"
    by (simp_all add: dumps_def is_base_model_def example_lib_def PICKLE_def PYDANTIC_def)
  from serde_round_trip[OF this(1) example_restores(1)] serde_round_trip[OF this(2) example_restores(2)] show ?thesis by blast
qed

definition two_keys :: decorated where
  "two_keys = \<lparr>dn_namespace = ''app:ask'', dn_query = ''q'', dn_keys = [''lang'', ''user''], dn_context = None\<rparr>"

theorem swapped_keys_share_witness:
  "\<exists>q q'. call_query example_lib no_exceptions (\<lambda>_. 0) two_keys [''q'' \<mapsto> ''q'', ''lang'' \<mapsto> ''en'', ''user'' \<mapsto> ''fr''] = Inr q
     \<and> call_query example_lib no_exceptions (\<lambda>_. 0) two_keys [''q'' \<mapsto> ''q'', ''lang'' \<mapsto> ''fr'', ''user'' \<mapsto> ''en''] = Inr q'
     \<and> cache_query_eq q q'"
proof -
  let ?b = "[''q'' \<mapsto> ''q'', ''lang'' \<mapsto> ''en'', ''user'' \<mapsto> ''fr'']"
  have trims: "trim ''q'' = ''q''" "trim ''en'' = ''en''" "trim ''fr'' = ''fr''" by code_simp+
  have "\<exists>q. call_query example_lib no_exceptions (\<lambda>_. 0) two_keys ?b = Inr q"
    by (simp add: call_query_def two_keys_def arg_text_def example_lib_def cache_query_new_def query_text_new_def validate_keys_eq trims
        hs_iter_def Let_def)
  then obtain q where q: "call_query example_lib no_exceptions (\<lambda>_. 0) two_keys ?b = Inr q" by blast
  have swap: "?b(''lang'' := ?b ''user'', ''user'' := ?b ''lang'') = [''q'' \<mapsto> ''q'', ''lang'' \<mapsto> ''fr'', ''user'' \<mapsto> ''en'']"
    by (simp add: fun_upd_twist)
  from swapped_keys_share[OF _ _ _ _ q, of "''lang''" "''user''"] q show ?thesis
    unfolding swap by (auto simp: two_keys_def)
qed

text \<open>A function that counts its runs, decorated over the example daemon.\<close>

definition memo_response :: "response codec" where
  "memo_response = \<lparr>
     to_stdvec = (\<lambda>m. if m = Value None then Inr [1] else if m = Accepted True then Inr [2]
        else if m = Value (Some [0, 7]) then Inr [3] else Inl ''unsupported''),
     from_bytes = (\<lambda>b. if b = [1] then Inr (Value None) else if b = [2] then Inr (Accepted True)
        else if b = [3] then Inr (Value (Some [0, 7])) else Inl ''unsupported'')\<rparr>"

definition memo_client :: client_env where
  "memo_client = (example_client [])\<lparr>ce_response := memo_response\<rparr>"

definition memo_decorated :: decorated where
  "memo_decorated = \<lparr>dn_namespace = ''app:ask'', dn_query = ''q'', dn_keys = [], dn_context = None\<rparr>"

definition memo_process :: "nat process" where
  "memo_process = \<lparr>pr_caches = [''app:ask'' \<mapsto> \<lparr>oc_namespace = ''app:ask'',
       oc_raw = example_cache '' prod '' (Some (example_stub [Inr [1], Inr [2], Inr [3]]))\<rparr>],
     pr_clock = (Map.empty, 0), pr_world = 0\<rparr>"

definition memo_fn :: "unit \<Rightarrow> nat \<Rightarrow> (py_exc + string) \<times> nat" where
  "memo_fn args n = (Inr ''v'', n + 1)"

definition memo_build :: "string \<Rightarrow> py_exc + object_cache" where
  "memo_build namespace = Inl (ValueExc ''already built'')"

lemma memo_codec: "codec_ok memo_response"
  "framed memo_response (Value None) [1]" "framed memo_response (Accepted True) [2]" "framed memo_response (Value (Some [0, 7])) [3]"
  by (auto simp: codec_ok_def framed_def encode_def memo_response_def MAX_FRAME_BYTES_def split: if_splits)

lemma memo_query: "call_query example_lib cells (\<lambda>_. 0) memo_decorated [''q'' \<mapsto> t] = Inr q \<longleftrightarrow>
    trim t \<noteq> [] \<and> q = \<lparr>cq_query = trim t, cq_keys = [], cq_context = None\<rparr>"
  by (auto simp: call_query_def memo_decorated_def arg_text_def example_lib_def cache_query_new_def query_text_new_def
      validate_keys_eq hs_iter_def Let_def)

lemma memo_get:
  "\<exists>st. handle_get example_v5 '' prod '' ''q'' [] None (example_daemon 0) = (Value None, st)
     \<and> ds_registry st ''dev'' = None \<and> fst (handle_set example_v5 '' prod '' ''q'' [] None [0, 7] st) = Accepted True"
proof -
  have r: "reconstruct ''q'' [] None = Inr (QueryText ''q'', [], None)" by code_simp
  show ?thesis
    by (simp add: handle_get_def handle_set_def example_daemon_simps r inference_run_def on_cache_def cache_get_def find_match_def
      realize_def cache_new_def example_dc_def extract_entities_def example_entity_def example_embedding_def
      boxed_vector_def on_vector_def on_memory_def memory_backend_def memory_query_def memory_new_def try_state_def
      select_def)
qed

theorem decorated_call_reused_witness:
  "\<exists>st1 st2. wrapper example_lib memo_client memo_build (\<lambda>_. 0) memo_decorated (\<lambda>_. Inr [''q'' \<mapsto> ''q'']) memo_fn () memo_process = Some (Inr ''v'', st1)
     \<and> pr_world st1 = 1
     \<and> wrapper example_lib memo_client memo_build (\<lambda>_. 0) memo_decorated (\<lambda>_. Inr [''q'' \<mapsto> ''q'']) memo_fn () st1 = Some (Inr ''v'', st2)
     \<and> pr_world st2 = 1"
proof -
  let ?q = "\<lparr>cq_query = ''q'', cq_keys = [], cq_context = None\<rparr>"
  have t: "trim ''q'' = ''q''" by code_simp
  let ?ops = "[Request Ping, Request (Get ''dev'' ''q'' [] None)]"
  obtain d1 d2 where d: "handle_get example_v5 '' prod '' ''q'' [] None (example_daemon 0) = (Value None, d1)" "ds_registry d1 ''dev'' = None"
    "handle_set example_v5 '' prod '' ''q'' [] None [0, 7] d1 = (Accepted True, d2)" using memo_get by (metis prod.collapse)
  have get: "handle_get example_v5 '' prod '' ''q'' [] None d2 = (Value (Some [0, 7]), d2)" using handle_get_after_set[OF d(3)] by simp
  have "ds_registry d2 ''dev'' = None" using d(3) by (rule handle_set_Accepted) (use d(2) in simp)
  then have run: "run_ops example_host ''0.1'' 1 ?ops d2 = d2"
    by (auto simp: handle_get_def conn_resolve_def state_resolve_def split: if_splits)
  have daemon: "respond example_host ''0.1'' 1 (Get '' prod '' ''q'' [] None) (example_daemon 0) = (Value None, d1)"
    "respond example_host ''0.1'' 1 (Set '' prod '' ''q'' [] None [0, 7]) (run_ops example_host ''0.1'' 1 [Request Ping] d1) = (Accepted True, d2)"
    "respond example_host ''0.1'' 1 (Get '' prod '' ''q'' [] None) (run_ops example_host ''0.1'' 1 ?ops d2) = (Value (Some [0, 7]), d2)"
    unfolding run using d get by (simp_all add: example_host_def)
  have dump: "dumps example_lib ''v'' = Inr [0, 7]" by (simp add: dumps_def is_base_model_def example_lib_def PICKLE_def)
  have load: "loads example_lib [0, 7] = Inr ''v''" by (rule loads_dumps[OF dump example_restores(2)])
  let ?oc = "\<lparr>oc_namespace = ''app:ask'', oc_raw = example_cache '' prod '' (Some (example_stub [Inr [1], Inr [2], Inr [3]]))\<rparr>"
  have "pr_caches memo_process (dn_namespace memo_decorated) = Some ?oc" by (simp add: memo_process_def memo_decorated_def)
  from decorated_call_reused[of memo_process memo_decorated ?oc "example_stub [Inr [1], Inr [2], Inr [3]]" memo_client "\<lambda>_. Inr [''q'' \<mapsto> ''q'']" "()" "[''q'' \<mapsto> ''q'']"
      example_lib "\<lambda>_. 0" ?q memo_fn "''v''" 1 "[0, 7]" "()" "[''q'' \<mapsto> ''q'']" ?q "[[0], [0], [0]]" example_host "''0.1''" 1 "example_daemon 0"
      d1 "[Request Ping]" d2 ?ops "Value (Some [0, 7])" d2 "[[1], [2], [3]]" memo_build, OF this]
  show ?thesis
    using daemon dump load memo_codec
    by (simp add: memo_process_def memo_fn_def memo_client_def memo_query t cache_query_eq_def example_cache_def example_stub_def
        example_host_def)
qed

end
