(* ===== verification/Spec2Isabelle.thy ===== *)
theory Spec2Isabelle
  imports Daemon_Invariant Write_Visibility Write_Panic Registration Supervisor Extension Py_Package
begin

text \<open>
  A verification development for semisweet, a semantic cache: a Python extension written in Rust that
  talks to a shared daemon, which embeds queries, extracts entities, looks entries up in a vector index
  and keeps their values in an object store.

  \<^bold>\<open>The program and its parts.\<close> A Python process builds a \<open>SemanticCache\<close> object
  (\<^verbatim>\<open>src/python.rs\<close>). Its first call connects to the daemon's Unix socket, spawning the daemon if
  none listens (\<^verbatim>\<open>src/client/\<close>), and registers a namespace with its configuration. Requests and
  responses are length-prefixed frames (\<^verbatim>\<open>src/protocol.rs\<close>). The daemon
  (\<^verbatim>\<open>src/daemon/\<close>) serves connections, answers a get from the shadow of pending writes or from the
  cache, accepts a set by recording it in the shadow and queueing a job, and shuts down when idle. A
  namespace is a cache (\<^verbatim>\<open>src/cache.rs\<close>) over an entity, an embedding, a vector and an object
  backend (\<^verbatim>\<open>src/backends/\<close>) built by \<^verbatim>\<open>src/registry.rs\<close>.

  \<^bold>\<open>Theories, from the bottom.\<close> Definitions carry the names of the Rust items they translate.
  \<^item> \<open>Prelude\<close>: results with the \<open>?\<close> operator, ordered sets and hash maps, byte encodings.
    \<open>Rust_Str\<close>: trimming, splitting, printing and parsing. \<open>F32\<close>: IEEE single precision as bit
    patterns with exact rounding.
  \<^item> \<open>Errors\<close> (\<^verbatim>\<open>error.rs\<close>), \<open>Newtype\<close> (\<^verbatim>\<open>newtype.rs\<close>), \<open>Backends\<close>
    (\<^verbatim>\<open>vector.rs\<close>, \<^verbatim>\<open>object.rs\<close>, \<^verbatim>\<open>embedding.rs\<close>, \<^verbatim>\<open>entity.rs\<close>): the data, and the
    contracts of the backend traits as the locales \<open>object_store\<close>, \<open>vector_sound\<close> (what every vector store
    keeps) and \<open>vector_store\<close> (an exact one); a failed call may or may not have taken effect.
  \<^item> \<open>Scoring\<close> (\<^verbatim>\<open>scoring.rs\<close>); \<open>Vector_Memory\<close>, \<open>Turbopuffer\<close>, \<open>Object_Disk\<close>,
    \<open>Object_S3\<close>, \<open>Compression\<close>, \<open>Model_Backends\<close> (\<^verbatim>\<open>backends/\<close>, \<^verbatim>\<open>compression.rs\<close>): one group of
    definitions per backend. The in-memory and the disk store interpret the locales; the turbopuffer and the
    S3 store keep them over services that behave as documented (\<open>tp_service\<close>, \<open>s3_service\<close>). The name of a turbopuffer
    namespace goes into the URL as it is, so that its law covers names that the URL addresses (\<open>tp_addressed\<close>).
  \<^item> \<open>Cache\<close> (\<^verbatim>\<open>cache.rs\<close>): get, set and delete over the backend records, with the client
    lemmas in the locale \<open>cache_contract\<close> that extends both store contracts and in \<open>cache_exact\<close> for an
    exact vector store. \<open>Registry\<close> (\<^verbatim>\<open>registry.rs\<close>): configurations and \<open>build_cache\<close>. \<open>Built_Cache\<close>: the
    contract of every cache the registry can build, from those of its boxed backends.
  \<^item> \<open>Protocol\<close> (\<^verbatim>\<open>protocol.rs\<close>): messages and frames over a byte stream and a sink.
  \<^item> \<open>Write_Behind\<close> (\<^verbatim>\<open>daemon/writer.rs\<close>, \<^verbatim>\<open>daemon/state.rs\<close>): the shadow and the write queue, and
    handlers and workers on one namespace as the interleaving relation \<open>wb_step\<close>, one step per call of a backend,
    also within a get and a delete. \<open>Write_Visibility\<close>: what
    stays visible of an accepted write in every interleaving, for any cache that keeps \<open>cache_contract\<close>. \<open>Write_Panic\<close>: the relation \<open>wbp_step\<close> that
    adds workers whose job panics.
    \<open>Daemon_State\<close> (\<^verbatim>\<open>daemon/state.rs\<close>, \<^verbatim>\<open>daemon/inference.rs\<close>): the state of the daemon, jobs on
    the pool and a worker's turn. \<open>Conn\<close> (\<^verbatim>\<open>daemon/conn.rs\<close>): handshake, handlers, message loop.
    \<open>Daemon_Refinement\<close>: the daemon against the cache operations. \<open>Daemon_Steps\<close>: handlers and worker
    turns as runs of \<open>wb_step\<close>. \<open>Daemon_Invariant\<close>: what requests and turns do to the stores of all
    namespaces, as the relation \<open>store_step\<close>. \<open>Registration\<close>: registrations that interleave, as the relation
    \<open>reg_step\<close>, of which the handlers are runs. \<open>Supervisor\<close>
    (\<^verbatim>\<open>daemon/supervisor.rs\<close>): client events, select rounds, idle exit and drain as the
    relation \<open>sv_step\<close>.
  \<^item> \<open>Paths\<close> (\<^verbatim>\<open>paths.rs\<close>), \<open>Daemon_Main\<close> (\<^verbatim>\<open>daemon/mod.rs\<close>): configuration and the
    single-instance life of daemon processes as the relation \<open>orphan_step\<close>. \<open>Client_Spawn\<close>
    (\<^verbatim>\<open>client/spawn.rs\<close>), \<open>Client_Stub\<close> (\<^verbatim>\<open>client/stub.rs\<close>).
  \<^item> \<open>Py_Values\<close>, \<open>Py_Cache\<close> (\<^verbatim>\<open>python.rs\<close>): value objects with the locale \<open>hashable\<close> for
    Python's contract of equality and hash, and the cache object. \<open>Extension\<close> (\<^verbatim>\<open>lib.rs\<close>,
    \<^verbatim>\<open>bin/semisweet-daemon.rs\<close>). \<open>Py_Package\<close> (\<^verbatim>\<open>python/semisweet/\<close>): serialisation of
    values, the cache of objects and the decorator that memoises asynchronous functions.

  \<^bold>\<open>State and outside.\<close> Stateful code passes its state explicitly; errors are values of \<open>error\<close> in
  the left of a sum, and a step that fails keeps the changes made before. Libraries and services are
  arguments: the fields of \<open>pylib\<close>, \<open>libs\<close>, \<open>host\<close>, \<open>net\<close>, \<open>os\<close>, \<open>spawn_sys\<close> and \<open>client_env\<close>
  stand for the embedding and entity models, zstd, the HTTP and S3 clients, UUID hashing, the postcard
  codec, serde, the operating system, sockets and clocks; what a property needs of them is a named
  hypothesis (\<open>codec_ok\<close>: decoding inverts encoding). File systems may fail at any call.
  The iteration order of hash tables is an argument, so results hold for every order.

  \<^bold>\<open>What is shown.\<close>
  \<^item> Cache: no false hits (what is returned passes the gates with the scores of the stored vector), no vector without its object under any failures, for every choice of backends; read
    your writes and deletes for the in-memory and disk stores.
  \<^item> Backends: the in-memory query returns the best entries for every hash order, the BM25 index is that of
    the live documents, disk writes are atomic, the turbopuffer filter means what the in-memory one does.
  \<^item> Daemon: with the queue emptied between requests and preparations that do not fail, it is the cache; accepted sets are
    visible as long as they are pending;
    the shadow holds only writes in flight if no preparation fails; superseded writes do nothing; an
    accepted value is in the shadow or in the stores at every moment, if no other write of the entry was under way; the atomic handlers and turns are runs of
    the interleaving; through every sequence of them all namespaces stay consistent and none touches another,
    if their names have no surrounding blanks and their stores are of one kind; connections answer in order; a namespace is built once however registrations interleave; the client count is exact, the idle exit waits a
    full period, the drain stops at the first look that finds the queue empty or the time over; the queue can drain exactly as long as a worker has not ended by a panic.
  \<^item> Client and process: one daemon at a time, a spawned daemon uses the client's paths, versions are
    negotiated and a mismatch is final, a dropped connection is retried once, every call returns.
  \<^item> Python: validation agrees with the daemon's, equal queries are the same dictionary key when their
    keys stay distinct, constructed configurations are those of the arguments and are accepted, a cache reads its own pending writes,
    values survive serialisation if their class is reachable under its name, and a decorated function is not run again for an
    equal query while its result is pending.
  \<^item> Theorems of kind error state where the code departs from its documentation: a refused set that
    loses an earlier accepted one, an older set that wins, a delete that leaves an entry without its object, a leaked shadow, a missed idle exit, a context
    fallback that misses, a reconnect that loses the namespace, key arguments that lose their names.

  \<^bold>\<open>Bounds and fuel.\<close> No definition uses fuel. Loops are structural or have a measure; the polling loop of
  a connecting client is a partial function, shown to return within 124 attempts. Durations are in
  milliseconds, except the idle time, in seconds. \<open>usize\<close> and \<open>u64\<close> counters are naturals
  where the code cannot reach their bound; frame lengths, hashes, bytes and floats have their width.

  \<^bold>\<open>Not modelled.\<close> The tokio runtime and the GIL; conversions between Python and Rust values by
  pyo3; task cancellation, except for registrations; panics inside the pool jobs of the get, delete and register handlers (those of
  write jobs are, in \<open>Write_Panic\<close>); the working directory of the daemon, and lock paths that coincide with the socket or
  pid path; poisoned locks of the stores; decorated calls that interleave at their awaits; tests, benchmarks, type stubs and documentation. \<open>wb_step\<close> follows one namespace, since shadows are
  per namespace and jobs of other namespaces touch neither its shadow nor its contents (\<open>Daemon_Invariant\<close>).
\<close>

end
